(* ===== verification/Flory_Prelude.thy ===== *)
theory Flory_Prelude
  imports Complex_Main "HOL-Library.AList" "HOL-Library.Char_ord" "HOL-Library.List_Lexorder"
begin

text \<open>
  What the components share: the values a TypeScript program computes with (JSON values and
  \<open>undefined\<close>, insertion-ordered \<open>Map\<close> and \<open>Set\<close>, thrown errors, string operations), the locales
  that state what the containers promise, and the generic list and relation lemmas the component
  proofs rest on.

  A string is a list of characters; identifiers are UUIDs and author names, so one character is one
  UTF-16 unit.  A number is a rational: the arithmetic of the source is exact on the integers it
  uses for sequence numbers, and its prices are decimal fractions.
\<close>

section \<open>Collections of facts\<close>

named_theorems js_simps "evaluation rules of the JavaScript containers and values"
named_theorems fires "when a guarded reporting loop reports nothing"

section \<open>Errors as values\<close>

text \<open>
  A thrown \<open>Error\<close> carries its message; the gateway's refusals are a class of their own
  (\<open>GatewayRefusal\<close>), with the reason the gateway gave.
\<close>

datatype js_error = Error string | GatewayRefusal string string

type_synonym 'a res = "js_error + 'a"

text \<open>Sequencing: what follows a call runs only when the call did not throw.\<close>

definition bind_res :: "'a res \<Rightarrow> ('a \<Rightarrow> 'b res) \<Rightarrow> 'b res" where
  "bind_res r f = (case r of Inl e \<Rightarrow> Inl e | Inr x \<Rightarrow> f x)"

lemma bind_res_simps [simp]: "bind_res (Inl e) f = Inl e" "bind_res (Inr x) f = f x"
  by (simp_all add: bind_res_def)

lemma bind_res_Inr: "bind_res r f = Inr y \<longleftrightarrow> (\<exists>x. r = Inr x \<and> f x = Inr y)"
  by (cases r) auto

lemma bind_res_cong [fundef_cong]:
  "r = r' \<Longrightarrow> (\<And>x. r' = Inr x \<Longrightarrow> f x = g x) \<Longrightarrow> bind_res r f = bind_res r' g"
  by (cases r') auto

text \<open>A loop whose body may throw, collecting the results in order.\<close>

fun map_res :: "('a \<Rightarrow> 'b res) \<Rightarrow> 'a list \<Rightarrow> 'b list res" where
  "map_res f [] = Inr []"
| "map_res f (x # xs) = bind_res (f x) (\<lambda>y. bind_res (map_res f xs) (\<lambda>ys. Inr (y # ys)))"

lemma map_res_Inr: "map_res f xs = Inr ys \<longleftrightarrow> list_all2 (\<lambda>x y. f x = Inr y) xs ys"
proof (induction xs arbitrary: ys)
  case Nil
  then show ?case by auto
next
  case (Cons x xs)
  then show ?case by (cases ys) (auto simp: bind_res_Inr)
qed

lemma map_res_cong [fundef_cong]:
  "xs = ys \<Longrightarrow> (\<And>x. x \<in> set ys \<Longrightarrow> f x = g x) \<Longrightarrow> map_res f xs = map_res g ys"
proof (induction ys arbitrary: xs)
  case (Cons y ys)
  then have "map_res f ys = map_res g ys" by simp
  with Cons show ?case by simp
qed simp

lemma map_res_total: "(\<And>x. x \<in> set xs \<Longrightarrow> \<exists>y. f x = Inr y) \<Longrightarrow> \<exists>ys. map_res f xs = Inr ys"
  by (induction xs) (fastforce simp: bind_res_Inr)+

text \<open>A postcondition of a call: it holds of the value when the call returns.\<close>

definition post :: "('a \<Rightarrow> bool) \<Rightarrow> 'a res \<Rightarrow> bool" where
  "post P r = (\<forall>x. r = Inr x \<longrightarrow> P x)"

lemma post_simps [simp]: "post P (Inl e)" "post P (Inr x) = P x"
  by (simp_all add: post_def)

lemma postD: "post P r \<Longrightarrow> r = Inr x \<Longrightarrow> P x"
  by (simp add: post_def)

lemma postI: "(\<And>x. r = Inr x \<Longrightarrow> P x) \<Longrightarrow> post P r"
  by (simp add: post_def)

lemma post_bind: "post Q r \<Longrightarrow> (\<And>x. r = Inr x \<Longrightarrow> Q x \<Longrightarrow> post P (f x)) \<Longrightarrow> post P (bind_res r f)"
  by (cases r) simp_all

lemma post_bind_pure: "(\<And>x. r = Inr x \<Longrightarrow> post P (f x)) \<Longrightarrow> post P (bind_res r f)"
  by (cases r) simp_all

lemma post_if: "(c \<Longrightarrow> post P r) \<Longrightarrow> (\<not> c \<Longrightarrow> post P s) \<Longrightarrow> post P (if c then r else s)"
  by simp

section \<open>Optional values and truthiness\<close>

text \<open>
  JavaScript tests an optional string by truthiness: an absent one and an empty one are both false.
\<close>

definition present :: "string option \<Rightarrow> bool" where
  "present s = (case s of None \<Rightarrow> False | Some x \<Rightarrow> x \<noteq> [])"

lemma present_simps [simp]: "present None = False" "present (Some x) = (x \<noteq> [])"
  by (simp_all add: present_def)

lemma presentE: "present s \<Longrightarrow> (\<And>x. s = Some x \<Longrightarrow> x \<noteq> [] \<Longrightarrow> P) \<Longrightarrow> P"
  by (cases s) auto

text \<open>The nullish operator \<open>a ?? b\<close>.\<close>

definition nullish :: "'a option \<Rightarrow> 'a \<Rightarrow> 'a" where
  "nullish a b = (case a of None \<Rightarrow> b | Some x \<Rightarrow> x)"

lemma nullish_simps [simp]: "nullish None b = b" "nullish (Some x) b = x"
  by (simp_all add: nullish_def)

section \<open>Strings\<close>

text \<open>\<open>xs.join(sep)\<close>.\<close>

fun js_join :: "string \<Rightarrow> string list \<Rightarrow> string" where
  "js_join sep [] = []"
| "js_join sep [x] = x"
| "js_join sep (x # y # ys) = x @ sep @ js_join sep (y # ys)"

text \<open>\<open>s.split(sep)\<close> for a one-character separator.\<close>

fun js_split :: "char \<Rightarrow> string \<Rightarrow> string list" where
  "js_split c [] = [[]]"
| "js_split c (x # xs) =
     (if x = c then [] # js_split c xs
      else case js_split c xs of [] \<Rightarrow> [[x]] | w # ws \<Rightarrow> (x # w) # ws)"

lemma js_split_nonempty [simp]: "js_split c s \<noteq> []"
  by (induction s) (auto split: list.splits)

lemma js_join_split: "js_join [c] (js_split c s) = s"
proof (induction s)
  case Nil
  then show ?case by simp
next
  case (Cons x s)
  obtain w ws where w: "js_split c s = w # ws"
    by (meson js_split_nonempty neq_Nil_conv)
  with Cons.IH show ?case by (cases ws) auto
qed

text \<open>\<open>s.startsWith(p)\<close>, \<open>s.endsWith(p)\<close> and \<open>s.slice(0, -n)\<close>.\<close>

definition startsWith :: "string \<Rightarrow> string \<Rightarrow> bool" where
  "startsWith s p = (take (length p) s = p)"

definition endsWith :: "string \<Rightarrow> string \<Rightarrow> bool" where
  "endsWith s p = (length p \<le> length s \<and> drop (length s - length p) s = p)"

definition dropEnd :: "nat \<Rightarrow> string \<Rightarrow> string" where
  "dropEnd n s = take (length s - n) s"

lemma startsWith_append [simp]: "startsWith (p @ s) p"
  by (simp add: startsWith_def)

lemma startsWithD: "startsWith s p \<Longrightarrow> s = p @ drop (length p) s"
  by (metis append_take_drop_id startsWith_def)

lemma endsWith_append [simp]: "endsWith (s @ p) p"
  by (simp add: endsWith_def)

lemma endsWithD: "endsWith s p \<Longrightarrow> s = dropEnd (length p) s @ p"
  by (metis append_take_drop_id dropEnd_def endsWith_def)

lemma dropEnd_append [simp]: "dropEnd (length p) (s @ p) = s"
  by (simp add: dropEnd_def)

text \<open>Decimal rendering and reading of a natural number.\<close>

definition digit_char :: "nat \<Rightarrow> char" where
  "digit_char d = char_of (48 + d)"

definition char_digit :: "char \<Rightarrow> nat" where
  "char_digit c = of_char c - 48"

definition is_digit :: "char \<Rightarrow> bool" where
  "is_digit c = (48 \<le> (of_char c :: nat) \<and> (of_char c :: nat) \<le> 57)"

fun nat_str :: "nat \<Rightarrow> string" where
  "nat_str n = (if n < 10 then [digit_char n] else nat_str (n div 10) @ [digit_char (n mod 10)])"

declare nat_str.simps [simp del]

definition nat_of_str :: "string \<Rightarrow> nat" where
  "nat_of_str s = foldl (\<lambda>acc c. 10 * acc + char_digit c) 0 s"

lemma of_char_digit_char: "d < 10 \<Longrightarrow> (of_char (digit_char d) :: nat) = 48 + d"
  by (simp add: digit_char_def)

lemma char_digit_digit_char [simp]: "d < 10 \<Longrightarrow> char_digit (digit_char d) = d"
  by (simp add: char_digit_def of_char_digit_char)

lemma is_digit_digit_char [simp]: "d < 10 \<Longrightarrow> is_digit (digit_char d)"
  by (simp add: is_digit_def of_char_digit_char)

lemma nat_of_str_snoc: "nat_of_str (s @ [c]) = 10 * nat_of_str s + char_digit c"
  by (simp add: nat_of_str_def)

lemma nat_of_str_nat_str [simp]: "nat_of_str (nat_str n) = n"
proof (induction n rule: nat_str.induct)
  case (1 n)
  show ?case
  proof (cases "n < 10")
    case True
    then show ?thesis by (simp add: nat_str.simps [of n] nat_of_str_def)
  next
    case False
    then show ?thesis using 1 by (simp add: nat_str.simps [of n] nat_of_str_snoc)
  qed
qed

lemma nat_str_inj [simp]: "nat_str m = nat_str n \<longleftrightarrow> m = n"
  by (metis nat_of_str_nat_str)

lemma nat_str_nonempty [simp]: "nat_str n \<noteq> []"
  by (subst nat_str.simps) simp

lemma nat_str_digits: "c \<in> set (nat_str n) \<Longrightarrow> is_digit c"
proof (induction n rule: nat_str.induct)
  case (1 n)
  then show ?case by (cases "n < 10") (auto simp: nat_str.simps [of n])
qed

lemma nat_str_hd: "n > 0 \<Longrightarrow> hd (nat_str n) \<noteq> CHR ''0''"
proof (induction n rule: nat_str.induct)
  case (1 n)
  show ?case
  proof (cases "n < 10")
    case True
    have "digit_char n \<noteq> CHR ''0''"
    proof
      assume "digit_char n = CHR ''0''"
      then have "(of_char (digit_char n) :: nat) = 48" by simp
      with True 1(2) show False by (simp add: of_char_digit_char)
    qed
    with True show ?thesis by (simp add: nat_str.simps [of n])
  next
    case False
    then show ?thesis using 1 by (simp add: nat_str.simps [of n])
  qed
qed

section \<open>Values\<close>

text \<open>
  A JSON-compatible value, and \<open>undefined\<close>, which a missing member evaluates to.  An object keeps
  its members in insertion order.
\<close>

datatype js =
    JUndef
  | JNull
  | JBool bool
  | JNum rat
  | JStr string
  | JArr "js list"
  | JObj "(string \<times> js) list"

type_synonym json_object = "(string \<times> js) list"

text \<open>Member access \<open>o[k]\<close> on an object's members.\<close>

definition member :: "json_object \<Rightarrow> string \<Rightarrow> js" where
  "member ob k = (case map_of ob k of None \<Rightarrow> JUndef | Some v \<Rightarrow> v)"

lemma member_simps [simp]:
  "member [] k = JUndef"
  "member ((k', v) # ob) k = (if k = k' then v else member ob k)"
  by (simp_all add: member_def)

text \<open>\<open>typeof v === 'string' ? v : undefined\<close>.\<close>

definition as_string :: "js \<Rightarrow> string option" where
  "as_string v = (case v of JStr s \<Rightarrow> Some s | _ \<Rightarrow> None)"

definition is_jstr :: "js \<Rightarrow> bool" where
  "is_jstr v = (case v of JStr _ \<Rightarrow> True | _ \<Rightarrow> False)"

text \<open>\<open>Array.isArray(v) ? v.filter(item => typeof item === 'string') : []\<close>.\<close>

definition stringArray :: "js \<Rightarrow> string list" where
  "stringArray v = (case v of JArr xs \<Rightarrow> List.map_filter as_string xs | _ \<Rightarrow> [])"

lemma as_string_simps [simp]:
  "as_string (JStr s) = Some s" "as_string JUndef = None" "as_string JNull = None"
  "as_string (JNum r) = None" "as_string (JBool b) = None" "as_string (JArr xs) = None"
  "as_string (JObj ob) = None"
  by (simp_all add: as_string_def)

lemma stringArray_map_JStr [simp]: "stringArray (JArr (map JStr ss)) = ss"
  by (induction ss) (simp_all add: stringArray_def List.map_filter_def)

lemma stringArray_undef [simp]: "stringArray JUndef = []"
  by (simp add: stringArray_def)

section \<open>Insertion-ordered maps and sets\<close>

text \<open>
  A JavaScript \<open>Map\<close> iterates in insertion order, and \<open>set\<close> on a present key keeps its place: an
  association list with \<^const>\<open>AList.update\<close>.  \<open>new Map(entries)\<close> sets the entries one after the
  other, so a repeated key keeps its first place and its last value.
\<close>

type_synonym ('k, 'v) js_map = "('k \<times> 'v) list"

definition map_get :: "('k, 'v) js_map \<Rightarrow> 'k \<Rightarrow> 'v option" where
  "map_get m k = map_of m k"

definition map_set :: "'k \<Rightarrow> 'v \<Rightarrow> ('k, 'v) js_map \<Rightarrow> ('k, 'v) js_map" where
  "map_set k v m = AList.update k v m"

definition map_has :: "('k, 'v) js_map \<Rightarrow> 'k \<Rightarrow> bool" where
  "map_has m k = (k \<in> fst ` set m)"

definition map_delete :: "'k \<Rightarrow> ('k, 'v) js_map \<Rightarrow> ('k, 'v) js_map" where
  "map_delete k m = filter (\<lambda>(k', _). k' \<noteq> k) m"

definition new_map :: "('k \<times> 'v) list \<Rightarrow> ('k, 'v) js_map" where
  "new_map entries = foldl (\<lambda>m (k, v). map_set k v m) [] entries"

text \<open>
  A JavaScript \<open>Set\<close> iterates in insertion order and ignores a repeated \<open>add\<close>.
\<close>

type_synonym 'a js_set = "'a list"

definition set_add :: "'a js_set \<Rightarrow> 'a \<Rightarrow> 'a js_set" where
  "set_add s x = (if x \<in> set s then s else s @ [x])"

definition set_union :: "'a js_set \<Rightarrow> 'a list \<Rightarrow> 'a js_set" where
  "set_union s xs = foldl set_add s xs"

definition new_set :: "'a list \<Rightarrow> 'a js_set" where
  "new_set xs = set_union [] xs"

subsection \<open>What the containers promise\<close>

locale ordered_map =
  fixes empty :: "'m"
    and get :: "'m \<Rightarrow> 'k \<Rightarrow> 'v option"
    and put :: "'k \<Rightarrow> 'v \<Rightarrow> 'm \<Rightarrow> 'm"
    and keys :: "'m \<Rightarrow> 'k list"
  assumes get_empty: "get empty k = None"
    and get_put: "get (put k v m) k' = (if k' = k then Some v else get m k')"
    and keys_empty: "keys empty = []"
    and keys_put: "keys (put k v m) = (if k \<in> set (keys m) then keys m else keys m @ [k])"
    and get_keys: "get m k = None \<longleftrightarrow> k \<notin> set (keys m)"
begin

definition put_all :: "('k \<times> 'v) list \<Rightarrow> 'm \<Rightarrow> 'm" where
  "put_all es m = foldl (\<lambda>m (k, v). put k v m) m es"

lemma put_all_simps: "put_all [] m = m" "put_all ((k, v) # es) m = put_all es (put k v m)"
  by (simp_all add: put_all_def)

lemma get_put_all:
  "get (put_all es m) k = (case map_of (rev es) k of None \<Rightarrow> get m k | Some v \<Rightarrow> Some v)"
proof (induction es arbitrary: m)
  case Nil
  then show ?case by (simp add: put_all_simps)
next
  case (Cons e es)
  then show ?case
    by (cases e) (auto simp: put_all_simps get_put map_add_def split: option.splits)
qed

lemma set_keys_put_all: "set (keys (put_all es m)) = set (keys m) \<union> fst ` set es"
proof (induction es arbitrary: m)
  case Nil
  then show ?case by (simp add: put_all_simps)
next
  case (Cons e es)
  then show ?case by (cases e) (auto simp: put_all_simps keys_put)
qed

lemma distinct_keys_put_all: "distinct (keys m) \<Longrightarrow> distinct (keys (put_all es m))"
proof (induction es arbitrary: m)
  case Nil
  then show ?case by (simp add: put_all_simps)
next
  case (Cons e es)
  then show ?case by (cases e) (auto simp: put_all_simps keys_put)
qed

lemma keys_put_all_fresh:
  "distinct (keys m @ map fst es) \<Longrightarrow> keys (put_all es m) = keys m @ map fst es"
proof (induction es arbitrary: m)
  case Nil
  then show ?case by (simp add: put_all_simps)
next
  case (Cons e es)
  then show ?case by (cases e) (auto simp: put_all_simps keys_put)
qed

end

lemma map_get_map_set: "map_get (map_set k v m) k' = (if k' = k then Some v else map_get m k')"
  by (simp add: map_get_def map_set_def update_conv')

lemma keys_map_set:
  "map fst (map_set k v m) = (if k \<in> set (map fst m) then map fst m else map fst m @ [k])"
  by (simp only: map_set_def update_keys)

lemma map_get_None: "map_get m k = None \<longleftrightarrow> k \<notin> set (map fst m)"
  by (simp add: map_get_def map_of_eq_None_iff)

interpretation js_map: ordered_map "[]" map_get map_set "map fst"
  by (unfold_locales, simp add: map_get_def, rule map_get_map_set, simp, rule keys_map_set,
      rule map_get_None)

lemma new_map_put_all: "new_map es = js_map.put_all es []"
  by (simp add: new_map_def js_map.put_all_def)

lemma map_get_new_map: "map_get (new_map es) k = map_of (rev es) k"
  by (simp add: new_map_put_all js_map.get_put_all js_map.get_empty split: option.splits)

lemma keys_new_map: "fst ` set (new_map es) = fst ` set es"
  using js_map.set_keys_put_all [of es "[]"] by (simp add: new_map_put_all)

lemma distinct_new_map: "distinct (map fst (new_map es))"
  by (simp add: new_map_put_all js_map.distinct_keys_put_all)

lemma map_get_new_map_distinct: "distinct (map fst es) \<Longrightarrow> map_get (new_map es) k = map_of es k"
  by (metis map_get_new_map map_of_eqI distinct_rev map_of_eq_Some_iff rev_map set_rev set_map
      not_None_eq map_of_eq_None_iff)

lemma map_has_iff: "map_has m k \<longleftrightarrow> map_get m k \<noteq> None"
  by (metis map_get_None map_has_def set_map)

lemma map_get_in_set: "map_get m k = Some v \<Longrightarrow> (k, v) \<in> set m"
  by (simp add: map_get_def map_of_SomeD)

lemma map_get_distinct: "distinct (map fst m) \<Longrightarrow> (k, v) \<in> set m \<longleftrightarrow> map_get m k = Some v"
  by (simp add: map_get_def)

lemma map_set_fresh: "k \<notin> fst ` set m \<Longrightarrow> map_set k v m = m @ [(k, v)]"
  unfolding map_set_def by (induction m) auto

text \<open>The keys of a map, as a set.\<close>

definition mkeys :: "('k, 'v) js_map \<Rightarrow> 'k set" where
  "mkeys m = fst ` set m"

lemma mkeys_map_set [simp]: "mkeys (map_set k v m) = insert k (mkeys m)"
  by (simp add: mkeys_def map_set_def dom_update)

lemma mkeys_Nil [simp]: "mkeys [] = {}"
  by (simp add: mkeys_def)

lemma map_get_mkeys: "map_get m k = None \<longleftrightarrow> k \<notin> mkeys m"
  using map_get_None [of m k] by (simp add: mkeys_def)

lemma mkeysD: "k \<in> mkeys m \<Longrightarrow> \<exists>v. map_get m k = Some v"
  using map_get_mkeys [of m k] by (cases "map_get m k") auto

locale ordered_set =
  fixes empty :: "'s"
    and add :: "'s \<Rightarrow> 'a \<Rightarrow> 's"
    and elems :: "'s \<Rightarrow> 'a list"
  assumes elems_empty: "elems empty = []"
    and elems_add: "elems (add s x) = (if x \<in> set (elems s) then elems s else elems s @ [x])"
begin

definition add_all :: "'s \<Rightarrow> 'a list \<Rightarrow> 's" where
  "add_all s xs = foldl add s xs"

lemma add_all_simps: "add_all s [] = s" "add_all s (x # xs) = add_all (add s x) xs"
  by (simp_all add: add_all_def)

lemma set_add_all: "set (elems (add_all s xs)) = set (elems s) \<union> set xs"
  by (induction xs arbitrary: s) (auto simp: add_all_simps elems_add)

lemma distinct_add_all: "distinct (elems s) \<Longrightarrow> distinct (elems (add_all s xs))"
  by (induction xs arbitrary: s) (auto simp: add_all_simps elems_add)

lemma add_all_distinct:
  "distinct (elems s @ xs) \<Longrightarrow> elems (add_all s xs) = elems s @ xs"
  by (induction xs arbitrary: s) (auto simp: add_all_simps elems_add)

end

interpretation js_set: ordered_set "[]" set_add "\<lambda>s. s"
  by unfold_locales (simp_all add: set_add_def)

lemma set_set_add [simp]: "set (set_add s x) = insert x (set s)"
  by (auto simp: set_add_def)

lemma distinct_set_add [simp]: "distinct (set_add s x) = distinct s"
  by (simp add: set_add_def)

lemma set_union_add_all: "set_union s xs = js_set.add_all s xs"
  by (simp add: set_union_def js_set.add_all_def)

lemma set_set_union [simp]: "set (set_union s xs) = set s \<union> set xs"
  by (simp add: set_union_add_all js_set.set_add_all)

lemma distinct_set_union [simp]: "distinct s \<Longrightarrow> distinct (set_union s xs)"
  by (simp add: set_union_add_all js_set.distinct_add_all)

lemma set_new_set [simp]: "set (new_set xs) = set xs"
  by (simp add: new_set_def)

lemma distinct_new_set [simp]: "distinct (new_set xs)"
  by (simp add: new_set_def)

lemma new_set_distinct: "distinct xs \<Longrightarrow> new_set xs = xs"
  using js_set.add_all_distinct [of "[]" xs] by (simp add: new_set_def set_union_add_all)

lemmas [js_simps] = map_get_def map_set_def map_has_def map_delete_def new_map_def
  set_add_def set_union_def new_set_def

section \<open>Reporting loops\<close>

text \<open>
  A loop that appends one report for every element a guard accepts: \<open>report P f xs\<close>.
\<close>

definition report :: "('a \<Rightarrow> bool) \<Rightarrow> ('a \<Rightarrow> 'b) \<Rightarrow> 'a list \<Rightarrow> 'b list" where
  "report P f xs = map f (filter P xs)"

lemma report_empty [fires]: "report P f xs = [] \<longleftrightarrow> (\<forall>x\<in>set xs. \<not> P x)"
  by (auto simp: report_def filter_empty_conv)

lemma set_report: "set (report P f xs) = f ` {x \<in> set xs. P x}"
  by (auto simp: report_def)

lemma concat_map_empty [fires]: "concat (map f xs) = [] \<longleftrightarrow> (\<forall>x\<in>set xs. f x = [])"
  by (auto simp: concat_eq_Nil_conv)

lemma if_report_empty [fires]: "(if P then xs else []) = [] \<longleftrightarrow> (P \<longrightarrow> xs = [])"
  by simp

text \<open>All pairs \<open>(xs[i], xs[j])\<close> with \<open>i < j\<close>, in the order of two nested index loops.\<close>

fun index_pairs :: "'a list \<Rightarrow> ('a \<times> 'a) list" where
  "index_pairs [] = []"
| "index_pairs (x # xs) = map (\<lambda>y. (x, y)) xs @ index_pairs xs"

lemma index_pairs_subset: "(x, y) \<in> set (index_pairs xs) \<Longrightarrow> x \<in> set xs \<and> y \<in> set xs"
  by (induction xs) auto

lemma index_pairs_neq: "distinct xs \<Longrightarrow> (x, y) \<in> set (index_pairs xs) \<Longrightarrow> x \<noteq> y"
  by (induction xs) (auto dest: index_pairs_subset)

lemma index_pairs_total:
  "x \<in> set xs \<Longrightarrow> y \<in> set xs \<Longrightarrow> x \<noteq> y \<Longrightarrow>
   (x, y) \<in> set (index_pairs xs) \<or> (y, x) \<in> set (index_pairs xs)"
  by (induction xs) auto

lemma index_pairs_sym:
  assumes "distinct xs" and "\<And>x y. P x y \<longleftrightarrow> P y x"
  shows "(\<forall>p\<in>set (index_pairs xs). P (fst p) (snd p)) \<longleftrightarrow>
         (\<forall>x\<in>set xs. \<forall>y\<in>set xs. x \<noteq> y \<longrightarrow> P x y)"
  using assms index_pairs_total [of _ xs] index_pairs_subset [of _ _ xs] index_pairs_neq [of xs]
  by (metis prod.collapse fst_conv snd_conv)

section \<open>Reachability\<close>

text \<open>
  A traversal that collects a set closed under the successor relation, and only what the relation
  reaches from a start, has collected exactly the reachable nodes.  Every traversal of the engine
  (ancestors of a proposal vertex, causal descendants, the planner's slice) is proved through it.
\<close>

locale closure_search =
  fixes E :: "('a \<times> 'a) set" and start :: "'a" and found :: "'a set"
  assumes successors_found: "E `` {start} \<subseteq> found"
    and found_closed: "E `` found \<subseteq> found"
    and found_reachable: "found \<subseteq> E\<^sup>+ `` {start}"
begin

lemma reaches_found: "(start, y) \<in> E\<^sup>+ \<Longrightarrow> y \<in> found"
proof (induction rule: trancl_induct)
  case (base y)
  then show ?case using successors_found by blast
next
  case (step y z)
  then show ?case using found_closed by blast
qed

theorem found_eq: "found = E\<^sup>+ `` {start}"
  using reaches_found found_reachable by blast

end

lemma trancl_image_unfold: "E\<^sup>+ `` {x} = E `` {x} \<union> (\<Union>y\<in>E `` {x}. E\<^sup>+ `` {y})"
  by (auto elim: converse_tranclE intro: trancl_into_trancl2)

end
