(* ===== verification/Event_Log.thy ===== *)
theory Event_Log
  imports Flory_Prelude "HOL-Library.Multiset"
begin

text \<open>
  The event vocabulary and the event records (engine/src/generated/event-log.ts and
  engine/src/log/events.ts): the closed list of event types, a draft before the store numbers it,
  a stored event, the validation of a draft, and the canonical JSON encoding that every digest is
  taken of.  The JSON-schema validator is third-party code and a parameter of \<open>assertEventDraft\<close>.
\<close>

section \<open>Event types\<close>

datatype event_type =
    RunStart | RunEnd | RunEndSeed
  | SubgraphProposed | SubgraphFrozen | SubgraphRejected | SubgraphShadowed | SubgraphUnreadable
  | ReplanBoundary | ReplanCancelRequested
  | ForkCreated
  | VertexCreated | VertexStarted | VertexSucceeded | VertexFailed | VertexRetried
  | TxnScope | TxnTry | TxnConfirm | TxnCancel | TxnPivotPassed
  | BudgetCharged
  | RuleTemplatePublished
  | OtherEvent string

definition EVENT_TYPES :: "event_type list" where
  "EVENT_TYPES =
     [RunStart, RunEnd, RunEndSeed, SubgraphProposed, SubgraphFrozen, SubgraphRejected,
      SubgraphShadowed, SubgraphUnreadable, ReplanBoundary, ReplanCancelRequested, ForkCreated,
      VertexCreated, VertexStarted, VertexSucceeded, VertexFailed, VertexRetried,
      TxnScope, TxnTry, TxnConfirm, TxnCancel, TxnPivotPassed, BudgetCharged,
      RuleTemplatePublished]"

definition known :: "event_type \<Rightarrow> bool" where
  "known t = (t \<in> set EVENT_TYPES)"

lemma known_iff: "known t \<longleftrightarrow> (\<forall>s. t \<noteq> OtherEvent s)"
  by (cases t) (simp_all add: known_def EVENT_TYPES_def)

text \<open>The spelling of a type on the wire.\<close>

definition event_type_str :: "event_type \<Rightarrow> string" where
  "event_type_str t =
     (case t of RunStart \<Rightarrow> ''run/start'' | RunEnd \<Rightarrow> ''run/end'' | RunEndSeed \<Rightarrow> ''run/end-seed''
      | SubgraphProposed \<Rightarrow> ''subgraph/proposed'' | SubgraphFrozen \<Rightarrow> ''subgraph/frozen''
      | SubgraphRejected \<Rightarrow> ''subgraph/rejected'' | SubgraphShadowed \<Rightarrow> ''subgraph/shadowed''
      | SubgraphUnreadable \<Rightarrow> ''subgraph/unreadable''
      | ReplanBoundary \<Rightarrow> ''replan/boundary'' | ReplanCancelRequested \<Rightarrow> ''replan/cancel-requested''
      | ForkCreated \<Rightarrow> ''fork/created''
      | VertexCreated \<Rightarrow> ''vertex/created'' | VertexStarted \<Rightarrow> ''vertex/started''
      | VertexSucceeded \<Rightarrow> ''vertex/succeeded'' | VertexFailed \<Rightarrow> ''vertex/failed''
      | VertexRetried \<Rightarrow> ''vertex/retried''
      | TxnScope \<Rightarrow> ''txn/scope'' | TxnTry \<Rightarrow> ''txn/try'' | TxnConfirm \<Rightarrow> ''txn/confirm''
      | TxnCancel \<Rightarrow> ''txn/cancel'' | TxnPivotPassed \<Rightarrow> ''txn/pivot-passed''
      | BudgetCharged \<Rightarrow> ''budget/charged'' | RuleTemplatePublished \<Rightarrow> ''rule_template/published''
      | OtherEvent s \<Rightarrow> s)"

text \<open>\<open>event_type.slice('vertex/'.length)\<close> on the four life-cycle events.\<close>

definition lifecycle_status :: "event_type \<Rightarrow> string" where
  "lifecycle_status t =
     (case t of VertexStarted \<Rightarrow> ''started'' | VertexSucceeded \<Rightarrow> ''succeeded''
      | VertexFailed \<Rightarrow> ''failed'' | VertexRetried \<Rightarrow> ''retried'' | _ \<Rightarrow> [])"

definition is_lifecycle :: "event_type \<Rightarrow> bool" where
  "is_lifecycle t = (t \<in> {VertexStarted, VertexSucceeded, VertexFailed, VertexRetried})"

section \<open>Events\<close>

record event_draft =
  dr_event_type :: event_type
  dr_vertex_id :: "string option"
  dr_parent_refs :: "string list option"
  dr_planner_id :: "string option"
  dr_scope_id :: "string option"
  dr_pin_version :: "string option"
  dr_ignorable :: "bool option"
  dr_payload :: js

record stored_event =
  run_id :: string
  run_seq :: nat
  global_seq :: nat
  event_type :: event_type
  vertex_id :: "string option"
  parent_refs :: "string list"
  planner_id :: "string option"
  scope_id :: "string option"
  pin_version :: "string option"
  ignorable :: bool
  inherited :: bool
  payload :: json_object
  created_at :: string

text \<open>A draft with only a type and a payload, as object literals of the source write it.\<close>

definition draft :: "event_type \<Rightarrow> json_object \<Rightarrow> event_draft" where
  "draft t p = \<lparr>dr_event_type = t, dr_vertex_id = None, dr_parent_refs = None, dr_planner_id = None,
     dr_scope_id = None, dr_pin_version = None, dr_ignorable = None, dr_payload = JObj p\<rparr>"

text \<open>An event of a type about a vertex: \<open>event.event_type === t && event.vertex_id\<close>.\<close>

definition about :: "event_type \<Rightarrow> stored_event \<Rightarrow> bool" where
  "about t e = (event_type e = t \<and> present (vertex_id e))"

definition names_vertex :: "event_type \<Rightarrow> string \<Rightarrow> stored_event \<Rightarrow> bool" where
  "names_vertex t v e = (event_type e = t \<and> vertex_id e = Some v)"

section \<open>Validation of a draft\<close>

text \<open>
  \<open>validateSchema\<close> is the compiled JSON schema, applied to the draft with its two defaults filled in:
  nothing for a valid draft, the text of the validator's errors for an invalid one.
\<close>

definition with_defaults :: "event_draft \<Rightarrow> event_draft" where
  "with_defaults d = d\<lparr>dr_parent_refs := Some (nullish (dr_parent_refs d) []),
                       dr_ignorable := Some (nullish (dr_ignorable d) False)\<rparr>"

definition assertEventDraft :: "(event_draft \<Rightarrow> string option) \<Rightarrow> event_draft \<Rightarrow> unit res" where
  "assertEventDraft validateSchema d =
     (if \<not> known (dr_event_type d) \<and> \<not> nullish (dr_ignorable d) False
      then Inl (Error (''unknown non-ignorable event type: '' @ event_type_str (dr_event_type d)))
      else case (if nullish (dr_ignorable d) False \<and> \<not> known (dr_event_type d) then None
                 else validateSchema (with_defaults d)) of
             Some errorsText \<Rightarrow> Inl (Error (''invalid event draft: '' @ errorsText))
           | None \<Rightarrow>
               (case dr_payload d of
                  JObj _ \<Rightarrow> Inr ()
                | _ \<Rightarrow> Inl (Error ''event payload must be an object'')))"

lemma assertEventDraft_ok:
  "assertEventDraft vs d = Inr () \<longleftrightarrow>
     (if known (dr_event_type d) then vs (with_defaults d) = None else nullish (dr_ignorable d) False) \<and>
     (\<exists>ob. dr_payload d = JObj ob)"
  by (cases "vs (with_defaults d)") (auto simp: assertEventDraft_def split: js.splits)

section \<open>Canonical JSON\<close>

subsection \<open>Numbers and strings\<close>

definition int_str :: "int \<Rightarrow> string" where
  "int_str i = (if i < 0 then CHR ''-'' # nat_str (nat (- i)) else nat_str (nat i))"

text \<open>
  The decimal digits of a fraction below one.  JavaScript prints at most seventeen significant
  digits, which is the fuel.
\<close>

fun frac_digits :: "nat \<Rightarrow> rat \<Rightarrow> string" where
  "frac_digits 0 r = []"
| "frac_digits (Suc n) r =
     (if r = 0 then []
      else digit_char (nat \<lfloor>10 * r\<rfloor>) # frac_digits n (10 * r - of_int \<lfloor>10 * r\<rfloor>))"

definition number_str :: "rat \<Rightarrow> string" where
  "number_str r =
     (if of_int \<lfloor>r\<rfloor> = r then int_str \<lfloor>r\<rfloor>
      else (if r < 0 then ''-'' else []) @ nat_str (nat \<lfloor>\<bar>r\<bar>\<rfloor>) @ ''.'' @
           frac_digits 17 (\<bar>r\<bar> - of_int \<lfloor>\<bar>r\<bar>\<rfloor>))"

lemma int_str_inj: "int_str i = int_str j \<longleftrightarrow> i = j"
proof -
  have digit: "nat_str n \<noteq> CHR ''-'' # s" for n s
  proof
    assume "nat_str n = CHR ''-'' # s"
    then have "is_digit CHR ''-''" using nat_str_digits [of "CHR ''-''" n] by simp
    then show False by (simp add: is_digit_def)
  qed
  show ?thesis
    using digit [of "nat i"] digit [of "nat j"] by (auto simp: int_str_def) (metis digit)+
qed

text \<open>
  The escapes \<open>JSON.stringify\<close> emits inside a string literal: the quotation mark, the backslash, the
  five short escapes and \<open>\u00xx\<close> for the other control characters.
\<close>

definition hex_char :: "nat \<Rightarrow> char" where
  "hex_char d = (if d < 10 then char_of (48 + d) else char_of (87 + d))"

definition escape_char :: "char \<Rightarrow> string" where
  "escape_char c =
     (let n = of_char c :: nat in
      if c = CHR 0x22 then [CHR 0x5C, CHR 0x22]
      else if c = CHR 0x5C then [CHR 0x5C, CHR 0x5C]
      else if n = 8 then [CHR 0x5C, CHR ''b'']
      else if n = 12 then [CHR 0x5C, CHR ''f'']
      else if n = 10 then [CHR 0x5C, CHR ''n'']
      else if n = 13 then [CHR 0x5C, CHR ''r'']
      else if n = 9 then [CHR 0x5C, CHR ''t'']
      else if n < 32 then [CHR 0x5C, CHR ''u'', CHR ''0'', CHR ''0'', hex_char (n div 16), hex_char (n mod 16)]
      else [c])"

definition quote :: "string \<Rightarrow> string" where
  "quote s = [CHR 0x22] @ concat (map escape_char s) @ [CHR 0x22]"

subsection \<open>The encoding\<close>

text \<open>
  \<open>JSON.stringify\<close> of \<open>undefined\<close> is \<open>undefined\<close>, so the encoder returns an option.  A template literal
  renders that as the word \<open>undefined\<close>, \<open>join\<close> as nothing.
\<close>

function canonicalJson :: "js \<Rightarrow> string option" where
  "canonicalJson JUndef = None"
| "canonicalJson JNull = Some ''null''"
| "canonicalJson (JBool b) = Some (if b then ''true'' else ''false'')"
| "canonicalJson (JNum r) = Some (number_str r)"
| "canonicalJson (JStr s) = Some (quote s)"
| "canonicalJson (JArr xs) =
     Some (''['' @ js_join '','' (map (\<lambda>x. nullish (canonicalJson x) []) xs) @ '']'')"
| "canonicalJson (JObj ob) =
     Some (''{'' @ js_join '','' (map (\<lambda>(k, v). quote k @ '':'' @ nullish (canonicalJson v) ''undefined'')
                                   (sort_key fst ob)) @ ''}'')"
  by pat_completeness auto
termination
proof (relation "measure size")
  show "wf (measure size)" by simp
next
  fix xs :: "js list" and x
  assume "x \<in> set xs"
  then have "size x \<le> size_list size xs" by (rule size_list_estimation') simp
  then show "(x, JArr xs) \<in> measure size" by simp
next
  fix ob :: json_object and p k v
  assume p: "p \<in> set (sort_key fst ob)" and kv: "(k, v) = p"
  then have "(k, v) \<in> set ob" by simp
  then have "size v \<le> size_list (size_prod (\<lambda>_. 0) size) ob"
    by (rule size_list_estimation') simp
  then show "(v, JObj ob) \<in> measure size" by simp
qed

text \<open>
  Two values that differ only in the order in which object members were inserted, at any depth.
\<close>

inductive same_members :: "js \<Rightarrow> js \<Rightarrow> bool" where
  same_atom: "same_members v v"
| same_arr: "list_all2 same_members xs ys \<Longrightarrow> same_members (JArr xs) (JArr ys)"
| same_obj: "distinct (map fst ob) \<Longrightarrow> mset ob = mset ob' \<Longrightarrow>
     list_all2 (\<lambda>p q. fst p = fst q \<and> same_members (snd p) (snd q)) ob' ob'' \<Longrightarrow>
     same_members (JObj ob) (JObj ob'')"

lemma sort_key_perm_distinct:
  fixes ob ob' :: "('k::linorder \<times> 'v) list"
  assumes "distinct (map fst ob)" and "mset ob = mset ob'"
  shows "sort_key fst ob = sort_key fst ob'"
proof (rule sort_key_inj_key_eq)
  show "mset ob = mset (sort_key fst ob')" using assms(2) by simp
  show "inj_on fst (set ob)" using assms(1) by (simp add: distinct_map)
  show "sorted (map fst (sort_key fst ob'))" by simp
qed

lemma sort_key_map2:
  fixes ob :: "('k::linorder \<times> 'v) list"
  assumes "list_all2 (\<lambda>p q. fst p = fst q \<and> R (snd p) (snd q)) ob ob'" and "distinct (map fst ob)"
  shows "list_all2 (\<lambda>p q. fst p = fst q \<and> R (snd p) (snd q)) (sort_key fst ob) (sort_key fst ob')"
  using assms
proof (induction ob ob' rule: list_all2_induct)
  case Nil
  then show ?case by simp
next
  case (Cons p ob q ob')
  have insort: "list_all2 (\<lambda>p q. fst p = fst q \<and> R (snd p) (snd q)) (insort_key fst p xs) (insort_key fst q ys)"
    if "list_all2 (\<lambda>p q. fst p = fst q \<and> R (snd p) (snd q)) xs ys" for xs ys
    using that Cons.hyps(1) by (induction xs ys rule: list_all2_induct) auto
  from Cons show ?case by (simp add: insort)
qed

text \<open>The encoding does not see insertion order.\<close>

lemma canonicalJson_same_members: "same_members v w \<Longrightarrow> canonicalJson v = canonicalJson w"
proof (induction rule: same_members.induct)
  case (same_atom v)
  then show ?case by simp
next
  case (same_arr xs ys)
  then have "map (\<lambda>x. nullish (canonicalJson x) []) xs = map (\<lambda>x. nullish (canonicalJson x) []) ys"
    by (induction xs ys rule: list_all2_induct) auto
  then show ?case by simp
next
  case (same_obj ob ob' ob'')
  let ?R = "\<lambda>v w. canonicalJson v = canonicalJson w"
  have "distinct (map fst ob')"
    using same_obj.hyps(1,2) by (metis mset_eq_imp_distinct_iff mset_map)
  moreover have "list_all2 (\<lambda>p q. fst p = fst q \<and> ?R (snd p) (snd q)) ob' ob''"
    using same_obj.IH by (rule list_all2_mono) auto
  ultimately have "list_all2 (\<lambda>p q. fst p = fst q \<and> ?R (snd p) (snd q)) (sort_key fst ob') (sort_key fst ob'')"
    by (intro sort_key_map2)
  then have "map (\<lambda>(k, v). quote k @ '':'' @ nullish (canonicalJson v) ''undefined'') (sort_key fst ob') =
      map (\<lambda>(k, v). quote k @ '':'' @ nullish (canonicalJson v) ''undefined'') (sort_key fst ob'')"
    by (induction rule: list_all2_induct) auto
  then show ?case
    by (simp add: sort_key_perm_distinct [OF same_obj.hyps(1,2)])
qed

section \<open>Properties\<close>

text \<open>Canonical JSON is canonical.  Two values that differ only in the order in which the members
  of their objects were inserted, at any depth, have the same encoding, so a digest of a value does
  not depend on how the value was built.\<close>

lemma canonicalJson_insertion_order:
  "same_members v w \<Longrightarrow> canonicalJson v = canonicalJson w"
  by (rule canonicalJson_same_members)

text \<open>What the log accepts.  A draft passes validation exactly when its type is in the vocabulary
  and the schema accepts it with its defaults filled in, or it is of an unknown type and marked
  ignorable, and in both cases its payload is an object.\<close>

lemma assertEventDraft_accepts:
  "assertEventDraft validateSchema d = Inr () \<longleftrightarrow>
     (if known (dr_event_type d) then validateSchema (with_defaults d) = None
      else nullish (dr_ignorable d) False) \<and>
     (\<exists>ob. dr_payload d = JObj ob)"
  by (rule assertEventDraft_ok)

end
