(* ===== verification/Check_Rules.thy ===== *)
theory Check_Rules
  imports Flory_Prelude
begin

text \<open>
  The admission checker, engine/src/admission/check-rules.ts: tool metadata and the registry, the
  proposal a sub-DAG is checked as, the graph context it is checked in, the rules R1-R14 over a
  proposal (\<open>checkSubDag\<close>), the runtime half of R12 (\<open>checkScopeAdmission\<close>), the placement of a
  router (\<open>derivePlacement\<close>) and the admission of a template's branches (\<open>checkFreezeAdmission\<close>).
\<close>

section \<open>Data\<close>

datatype effect_class = EffNone | Bufferable | Reversible | Irreversible

datatype tool_mode = Plain | Tcc | Saga

record tool_definition =
  td_name :: string
  td_effectClass :: effect_class
  td_mode :: tool_mode
  td_idempotentRetryable :: bool
  td_footprint :: "string list"
  td_writes :: "string list option"
  td_compensateTool :: "string option"
  td_confirmTool :: "string option"
  td_cancelTool :: "string option"
  td_tryTimeoutS :: "int option"

datatype vertex_kind = KPlanner | KTool | KRouter | KBarrier

record proposal_vertex =
  pv_id :: string
  pv_parents :: "string list"
  pv_kind :: vertex_kind
  pv_tool :: "string option"
  pv_scopeId :: "string option"
  pv_confirmedOutput :: bool
  pv_templateRef :: "string option"

record proposal_scope =
  ps_id :: string
  ps_members :: "string list"

record sub_dag_proposal =
  sd_vertices :: "proposal_vertex list"
  sd_scopes :: "proposal_scope list"

datatype rule_code = R1 | R2 | R3 | R4 | R5 | R6 | R7 | R8 | R9 | R10 | R11 | R12 | R13 | R14

record check_violation =
  cv_rule :: rule_code
  cv_message :: string
  cv_vertices :: "string list"

datatype scope_state = SOpen | SHalfOpen | SCommitted | SCancelled

datatype admission_block = Fenced | Cancelling | Suspended | PivotInflight | PivotPassed | ExpiredTry

record scope_snapshot =
  ss_scopeId :: string
  ss_state :: scope_state
  ss_pivotCount :: nat
  ss_admissionBlock :: "admission_block option"

datatype router_placement = AtSavepoint | InsideScope

record check_result =
  cr_accepted :: bool
  cr_violations :: "check_violation list"

definition violation :: "rule_code \<Rightarrow> string \<Rightarrow> string list \<Rightarrow> check_violation" where
  "violation r m vs = \<lparr>cv_rule = r, cv_message = m, cv_vertices = vs\<rparr>"

definition check_result_of :: "check_violation list \<Rightarrow> check_result" where
  "check_result_of vs = \<lparr>cr_accepted = (vs = []), cr_violations = vs\<rparr>"

section \<open>Scope admission\<close>

definition unclosed :: "scope_snapshot \<Rightarrow> bool" where
  "unclosed s = (ss_state s = SOpen \<or> ss_state s = SHalfOpen)"

definition derivePlacement :: "scope_snapshot list \<Rightarrow> router_placement" where
  "derivePlacement existing = (if \<exists>s\<in>set existing. unclosed s then InsideScope else AtSavepoint)"

definition blockReason :: "admission_block \<Rightarrow> string" where
  "blockReason b =
     (case b of
        ExpiredTry \<Rightarrow> ''it holds a sealed try past its deadline''
      | Fenced \<Rightarrow> ''a member failed or a cancellation was requested, and it is fenced until that is decided''
      | PivotInflight \<Rightarrow> ''its pivot is inflight and its outcome is unresolved''
      | PivotPassed \<Rightarrow> ''its pivot has passed, so it runs only work admitted before it''
      | Cancelling \<Rightarrow> ''it is cancelling''
      | Suspended \<Rightarrow> ''it is suspended'')"

definition checkScopeAdmission :: "scope_snapshot list \<Rightarrow> check_result" where
  "checkScopeAdmission existing = check_result_of
     (List.map_filter (\<lambda>s. map_option (\<lambda>b.
        violation R12 (''scope '' @ ss_scopeId s @ '' admits no new work: '' @ blockReason b) [])
        (ss_admissionBlock s)) existing)"

section \<open>The tool registry\<close>

type_synonym tool_registry = "(string, tool_definition) js_map"

definition register :: "tool_registry \<Rightarrow> tool_definition \<Rightarrow> tool_registry res" where
  "register reg d =
     (if map_has reg (td_name d) then Inl (Error (''tool already registered: '' @ td_name d))
      else Inr (map_set (td_name d) (d\<lparr>td_writes := Some (nullish (td_writes d) [])\<rparr>) reg))"

definition registry_get :: "tool_registry \<Rightarrow> string \<Rightarrow> tool_definition res" where
  "registry_get reg n =
     (case map_get reg n of None \<Rightarrow> Inl (Error (''unknown tool: '' @ n)) | Some d \<Rightarrow> Inr d)"

definition registry_has :: "tool_registry \<Rightarrow> string \<Rightarrow> bool" where
  "registry_has reg n = map_has reg n"

text \<open>\<open>definition.x ? this.definitions.get(definition.x) : undefined\<close>, and its retry flag.\<close>

definition companion_retryable :: "tool_registry \<Rightarrow> string option \<Rightarrow> bool" where
  "companion_retryable reg n =
     (case n of None \<Rightarrow> False
      | Some t \<Rightarrow> t \<noteq> [] \<and> (case map_get reg t of None \<Rightarrow> False | Some d \<Rightarrow> td_idempotentRetryable d))"

definition validate_tool :: "tool_registry \<Rightarrow> tool_definition \<Rightarrow> check_violation list" where
  "validate_tool reg d =
     (if td_mode d = Saga \<and> \<not> companion_retryable reg (td_compensateTool d)
      then [violation R4 (td_name d @ '' requires a registered idempotent compensation tool'') []] else []) @
     (if td_mode d = Tcc \<and>
         (\<not> companion_retryable reg (td_confirmTool d) \<or> \<not> companion_retryable reg (td_cancelTool d) \<or>
          (case td_tryTimeoutS d of None \<Rightarrow> True | Some t \<Rightarrow> t \<le> 0))
      then [violation R6 (td_name d @ '' requires idempotent confirm/cancel tools and a positive timeout'') []]
      else [])"

definition registry_validate :: "tool_registry \<Rightarrow> check_violation list" where
  "registry_validate reg = concat (map (\<lambda>(_, d). validate_tool reg d) reg)"

section \<open>The graph context\<close>

type_synonym vertices = "(string, proposal_vertex) js_map"
type_synonym reach = "(string, string js_set) js_map"

record graph_context =
  gc_vertices :: vertices
  gc_tools :: "(string, tool_definition) js_map"
  gc_ancestors :: reach
  gc_descendants :: reach
  gc_scopeMembers :: "(string, string js_set) js_map"

definition intersects :: "string list \<Rightarrow> string list \<Rightarrow> bool" where
  "intersects first second = (\<exists>v\<in>set second. v \<in> set first)"

definition isUndoable :: "tool_definition \<Rightarrow> bool" where
  "isUndoable t = (td_effectClass t = EffNone \<or> td_effectClass t = Bufferable \<or> td_mode t = Tcc \<or>
                   present (td_compensateTool t))"

fun kind_str :: "vertex_kind \<Rightarrow> string" where
  "kind_str KPlanner = ''planner''"
| "kind_str KTool = ''tool''"
| "kind_str KRouter = ''router''"
| "kind_str KBarrier = ''confirmation-barrier''"

text \<open>The first loop of \<open>buildContext\<close>: only tool vertices enter the tool map.\<close>

fun collect_tools :: "tool_registry \<Rightarrow> proposal_vertex list \<Rightarrow> (string, tool_definition) js_map \<Rightarrow>
    (string, tool_definition) js_map res" where
  "collect_tools reg [] tools = Inr tools"
| "collect_tools reg (v # vs) tools =
     (if pv_kind v \<noteq> KTool then
        (if present (pv_tool v)
         then Inl (Error (pv_id v @ '' is a '' @ kind_str (pv_kind v) @ '' and must not name a tool''))
         else collect_tools reg vs tools)
      else if present (pv_tool v) then
        bind_res (registry_get reg (the (pv_tool v)))
          (\<lambda>d. collect_tools reg vs (map_set (pv_id v) d tools))
      else collect_tools reg vs tools)"

text \<open>\<open>vertices.get(id)?.parents ?? []\<close>.\<close>

definition parents_in :: "vertices \<Rightarrow> string \<Rightarrow> string list" where
  "parents_in vs i = (case map_get vs i of None \<Rightarrow> [] | Some v \<Rightarrow> pv_parents v)"

lemma card_path_less:
  "i \<in> fst ` set vs \<Longrightarrow> i \<notin> set visiting \<Longrightarrow>
   card (fst ` set vs - insert i (set visiting)) < card (fst ` set vs - set visiting)"
  by (rule psubset_card_mono) auto

text \<open>
  \<open>visitAncestors\<close>: a depth-first search with a shared cache of finished vertices.  \<open>visiting\<close> is the
  path from the outermost call, a fresh set in every call of the source; the cache is threaded.
  The loop over the parents is the second function.  Every call either walks one parent further or
  adds a vertex of the proposal to the path.
\<close>

function (sequential)
  visitAncestors :: "vertices \<Rightarrow> string \<Rightarrow> string js_set \<Rightarrow> reach \<Rightarrow> (string js_set \<times> reach) res"
and visitParents :: "vertices \<Rightarrow> string \<Rightarrow> string list \<Rightarrow> string js_set \<Rightarrow> string js_set \<Rightarrow> reach \<Rightarrow>
    (string js_set \<times> reach) res"
where
  "visitAncestors vs i visiting cache =
     (case map_get cache i of
        Some cached \<Rightarrow> Inr (cached, cache)
      | None \<Rightarrow>
          if i \<in> set visiting then Inl (Error (''proposal contains a cycle at '' @ i))
          else case visitParents vs i (parents_in vs i) (set_add visiting i) [] cache of
                 Inl e \<Rightarrow> Inl e
               | Inr (result, cache') \<Rightarrow> Inr (result, map_set i result cache'))"
| "visitParents vs i [] nextVisiting result cache = Inr (result, cache)"
| "visitParents vs i (p # ps) nextVisiting result cache =
     (if \<not> map_has vs p then Inl (Error (''unknown parent '' @ p @ '' for '' @ i))
      else case visitAncestors vs p nextVisiting cache of
             Inl e \<Rightarrow> Inl e
           | Inr (found, cache') \<Rightarrow>
               visitParents vs i ps nextVisiting (set_union (set_add result p) found) cache')"
  by pat_completeness auto

termination
proof (relation "measures
    [case_sum (\<lambda>(vs, i, visiting, cache). card (fst ` set vs - set visiting))
              (\<lambda>(vs, i, ps, visiting, result, cache). card (fst ` set vs - set visiting)),
     case_sum (\<lambda>_. 1) (\<lambda>(vs, i, ps, visiting, result, cache). 2 * length ps)]", goal_cases)
  case 1
  then show ?case by simp
next
  case (2 vs i visiting cache)
  show ?case
  proof (cases "i \<in> fst ` set vs")
    case True
    with 2 show ?thesis by (simp add: card_path_less del: card_Diff_insert)
  next
    case False
    then have "map_get vs i = None" using map_get_None [of vs i] by simp
    with False show ?thesis by (simp add: parents_in_def)
  qed
next
  case 3
  then show ?case by simp
next
  case 4
  then show ?case by simp
qed

declare visitAncestors.simps [simp del] visitParents.simps(2) [simp del]

text \<open>\<open>for (const id of vertices.keys()) visitAncestors(id)\<close>.\<close>

fun visit_all :: "vertices \<Rightarrow> string list \<Rightarrow> reach \<Rightarrow> reach res" where
  "visit_all vs [] cache = Inr cache"
| "visit_all vs (i # is) cache =
     bind_res (visitAncestors vs i [] cache) (\<lambda>(_, cache'). visit_all vs is cache')"

text \<open>The descendants, inverted from the ancestors; every ancestor is a vertex, so its entry exists.\<close>

definition add_descendant :: "string \<Rightarrow> reach \<Rightarrow> string \<Rightarrow> reach" where
  "add_descendant i m a = map_set a (set_add (nullish (map_get m a) []) i) m"

definition descendants_of :: "string list \<Rightarrow> reach \<Rightarrow> reach" where
  "descendants_of ids ancestors =
     foldl (\<lambda>m (i, as). foldl (add_descendant i) m as) (new_map (map (\<lambda>i. (i, [])) ids)) ancestors"

definition proposal_vertices :: "sub_dag_proposal \<Rightarrow> vertices" where
  "proposal_vertices p = new_map (map (\<lambda>v. (pv_id v, v)) (sd_vertices p))"

definition buildContext :: "sub_dag_proposal \<Rightarrow> tool_registry \<Rightarrow> graph_context res" where
  "buildContext p reg =
     (let vs = proposal_vertices p in
      bind_res (collect_tools reg (sd_vertices p) []) (\<lambda>tools.
      bind_res (visit_all vs (map fst vs) []) (\<lambda>ancestors.
      Inr \<lparr>gc_vertices = vs, gc_tools = tools, gc_ancestors = ancestors,
           gc_descendants = descendants_of (map fst vs) ancestors,
           gc_scopeMembers = new_map (map (\<lambda>s. (ps_id s, new_set (ps_members s))) (sd_scopes p))\<rparr>)))"

section \<open>The rules\<close>

text \<open>\<open>m.get(k)?.has(x)\<close>.\<close>

definition reaches :: "reach \<Rightarrow> string \<Rightarrow> string \<Rightarrow> bool" where
  "reaches m k x = (case map_get m k of None \<Rightarrow> False | Some s \<Rightarrow> x \<in> set s)"

definition entries :: "reach \<Rightarrow> string \<Rightarrow> string list" where
  "entries m k = nullish (map_get m k) []"

definition vertex_scope :: "graph_context \<Rightarrow> string \<Rightarrow> string option" where
  "vertex_scope c i = Option.bind (map_get (gc_vertices c) i) pv_scopeId"

definition vertex_kind_is :: "graph_context \<Rightarrow> vertex_kind \<Rightarrow> string \<Rightarrow> bool" where
  "vertex_kind_is c k i = (case map_get (gc_vertices c) i of None \<Rightarrow> False | Some v \<Rightarrow> pv_kind v = k)"

definition tool_effect :: "graph_context \<Rightarrow> string \<Rightarrow> effect_class option" where
  "tool_effect c i = map_option td_effectClass (map_get (gc_tools c) i)"

definition pivotIds :: "graph_context \<Rightarrow> string list" where
  "pivotIds c = map fst (filter (\<lambda>(_, t). td_effectClass t = Irreversible) (gc_tools c))"

definition hasConfirmationBarrier :: "graph_context \<Rightarrow> string list \<Rightarrow> bool" where
  "hasConfirmationBarrier c ps =
     (\<exists>(i, v)\<in>set (gc_vertices c). pv_kind v = KBarrier \<and> length (pv_parents v) \<ge> 2 \<and>
        (\<forall>p\<in>set ps. reaches (gc_ancestors c) p (pv_id v)))"

text \<open>\<open>add\<close>: a violation of the same rule over the same vertices is reported once.\<close>

definition add_violation :: "check_violation list \<Rightarrow> check_violation \<Rightarrow> check_violation list" where
  "add_violation vs v =
     (if \<exists>u\<in>set vs. cv_rule u = cv_rule v \<and>
           js_join [CHR 0x00] (cv_vertices u) = js_join [CHR 0x00] (cv_vertices v)
      then vs else vs @ [v])"

text \<open>R10: a side effect outside every scope.\<close>

definition rule_R10 :: "graph_context \<Rightarrow> check_violation list" where
  "rule_R10 c = report (\<lambda>(i, t). td_effectClass t \<noteq> EffNone \<and> \<not> present (vertex_scope c i))
     (\<lambda>(i, t). violation R10 (i @ '' has a side effect but no scope'') [i]) (gc_tools c)"

definition scope_members :: "graph_context \<Rightarrow> proposal_scope \<Rightarrow> string list" where
  "scope_members c s = nullish (map_get (gc_scopeMembers c) (ps_id s)) []"

definition scope_pivots :: "graph_context \<Rightarrow> proposal_scope \<Rightarrow> string list" where
  "scope_pivots c s = filter (\<lambda>i. i \<in> set (scope_members c s)) (pivotIds c)"

text \<open>R2 and R1 of one member against one pivot of its scope.\<close>

definition rule_member :: "graph_context \<Rightarrow> string \<Rightarrow> string \<Rightarrow> check_violation list" where
  "rule_member c pivot m =
     (case map_get (gc_tools c) m of None \<Rightarrow> []
      | Some t \<Rightarrow>
          (if reaches (gc_ancestors c) pivot m \<and> td_effectClass t \<noteq> EffNone \<and> \<not> isUndoable t
           then [violation R2 (m @ '' is not undoable before pivot '' @ pivot) [m, pivot]] else []) @
          (if reaches (gc_descendants c) pivot m \<and> \<not> td_idempotentRetryable t
           then [violation R1 (m @ '' is not retry-safe after pivot '' @ pivot) [pivot, m]] else []))"

text \<open>R11: a reversible predecessor sharing the pivot's footprint is in the pivot's scope.\<close>

definition rule_R11 :: "graph_context \<Rightarrow> proposal_scope \<Rightarrow> string \<Rightarrow> check_violation list" where
  "rule_R11 c s pivot = report
     (\<lambda>a. case (map_get (gc_tools c) a, map_get (gc_tools c) pivot) of
            (Some t, Some pt) \<Rightarrow> td_effectClass t = Reversible \<and>
               intersects (td_footprint t) (td_footprint pt) \<and> a \<notin> set (scope_members c s)
          | _ \<Rightarrow> False)
     (\<lambda>a. violation R11 (ps_id s @ '' omits required predecessor '' @ a) [a, pivot])
     (entries (gc_ancestors c) pivot)"

definition rule_scope :: "graph_context \<Rightarrow> proposal_scope \<Rightarrow> check_violation list" where
  "rule_scope c s =
     (let pivots = scope_pivots c s in
      (if length pivots > 1
       then [violation R3 (ps_id s @ '' contains more than one pivot'') pivots] else []) @
      concat (map (\<lambda>pivot. concat (map (rule_member c pivot) (scope_members c s)) @ rule_R11 c s pivot)
        pivots))"

text \<open>R12 placement and R3 across freezes, both only for a proposal that contains a router.\<close>

definition rule_router_scope ::
    "graph_context \<Rightarrow> scope_snapshot list \<Rightarrow> proposal_scope \<Rightarrow> check_violation list" where
  "rule_router_scope c existing s =
     (let halfOpen = filter (\<lambda>x. ss_state x = SHalfOpen) existing; pivots = scope_pivots c s in
      (if halfOpen \<noteq> [] \<and> ps_id s \<notin> ss_scopeId ` set existing
       then [violation R12 (ps_id s @ '' opens a fresh scope inside half-open scope '' @
               ss_scopeId (hd halfOpen)) (ps_members s)] else []) @
      (case find (\<lambda>x. ss_scopeId x = ps_id s) existing of
         None \<Rightarrow> []
       | Some x \<Rightarrow>
           if ss_pivotCount x + length pivots > 1
           then [violation R3 (ps_id s @ '' already holds a pivot in this run's scope snapshot'') pivots]
           else []))"

definition routerIds :: "graph_context \<Rightarrow> string list" where
  "routerIds c = map (pv_id \<circ> snd) (filter (\<lambda>(_, v). pv_kind v = KRouter) (gc_vertices c))"

definition rule_routers ::
    "graph_context \<Rightarrow> sub_dag_proposal \<Rightarrow> scope_snapshot list \<Rightarrow> check_violation list" where
  "rule_routers c p existing =
     (if routerIds c \<noteq> [] then concat (map (rule_router_scope c existing) (sd_scopes p)) else [])"

text \<open>R5: two parallel pivots need a barrier in front of both.\<close>

definition rule_R5 :: "graph_context \<Rightarrow> check_violation list" where
  "rule_R5 c = report
     (\<lambda>(x, y). \<not> reaches (gc_ancestors c) x y \<and> \<not> reaches (gc_ancestors c) y x \<and>
               \<not> hasConfirmationBarrier c [x, y])
     (\<lambda>(x, y). violation R5 (''parallel pivots '' @ x @ '' and '' @ y @ '' require a confirmation barrier'')
                 [x, y])
     (index_pairs (pivotIds c))"

text \<open>R7: an unconfirmed output of one scope read by another.\<close>

definition dirty_edge :: "graph_context \<Rightarrow> proposal_vertex \<Rightarrow> string \<Rightarrow> bool" where
  "dirty_edge c child parentId =
     (case map_get (gc_vertices c) parentId of None \<Rightarrow> False
      | Some parent \<Rightarrow> pv_kind parent = KTool \<and> present (pv_scopeId parent) \<and> present (pv_scopeId child) \<and>
          pv_scopeId parent \<noteq> pv_scopeId child \<and> tool_effect c parentId \<noteq> Some EffNone \<and>
          \<not> pv_confirmedOutput parent)"

definition rule_R7 :: "graph_context \<Rightarrow> check_violation list" where
  "rule_R7 c = concat (map (\<lambda>(i, child). report (dirty_edge c child)
     (\<lambda>q. violation R7 (i @ '' reads an unconfirmed cross-scope output from '' @ q) [q, i])
     (pv_parents child)) (gc_vertices c))"

text \<open>R14: a tool caller hands control to a planner through a router.\<close>

definition rule_R14 :: "graph_context \<Rightarrow> check_violation list" where
  "rule_R14 c = concat (map (\<lambda>(i, child).
     if pv_kind child = KPlanner then
       report (vertex_kind_is c KTool)
         (\<lambda>q. violation R14 (q @ '' has planner '' @ i @ '' as a direct successor without an interposed router'')
                [q, i]) (pv_parents child)
     else []) (gc_vertices c))"

text \<open>R12: a planner or a router joins no scope.\<close>

definition rule_R12 :: "graph_context \<Rightarrow> sub_dag_proposal \<Rightarrow> check_violation list" where
  "rule_R12 c p = concat (map (\<lambda>(i, v).
     if pv_kind v = KTool \<or> pv_kind v = KBarrier then []
     else (if present (pv_scopeId v)
           then [violation R12 (i @ '' is a '' @ kind_str (pv_kind v) @
                   '' and may not declare a transaction scope'') [i]] else []) @
          report (\<lambda>s. i \<in> set (ps_members s))
            (\<lambda>s. violation R12 (i @ '' is a '' @ kind_str (pv_kind v) @
                   '' and may not be a member of scope '' @ ps_id s) [i]) (sd_scopes p)) (gc_vertices c))"

text \<open>R8: no read on the recovery path behind a pivot.\<close>

definition rule_R8 :: "graph_context \<Rightarrow> check_violation list" where
  "rule_R8 c = concat (map (\<lambda>pivot. report
     (\<lambda>d. vertex_scope c d = vertex_scope c pivot \<and> tool_effect c d = Some EffNone \<and>
          length (entries (gc_descendants c) d) > 0)
     (\<lambda>d. violation R8 (d @ '' is a read dependency on the post-pivot recovery path'') [pivot, d])
     (entries (gc_descendants c) pivot)) (pivotIds c))"

text \<open>R9: conflicting parallel writes in front of a pivot need a barrier behind both.\<close>

definition related_pivots :: "graph_context \<Rightarrow> string \<Rightarrow> string \<Rightarrow> string list" where
  "related_pivots c x y = filter (\<lambda>p. p = x \<or> p = y \<or>
     reaches (gc_descendants c) x p \<or> reaches (gc_descendants c) y p) (pivotIds c)"

definition protectedByBarrier :: "graph_context \<Rightarrow> string \<Rightarrow> string \<Rightarrow> bool" where
  "protectedByBarrier c x y =
     (\<exists>(i, v)\<in>set (gc_vertices c). pv_kind v = KBarrier \<and>
        reaches (gc_ancestors c) (pv_id v) x \<and> reaches (gc_ancestors c) (pv_id v) y \<and>
        (\<forall>p\<in>set (related_pivots c x y). reaches (gc_ancestors c) p (pv_id v)))"

definition tool_writes :: "graph_context \<Rightarrow> string \<Rightarrow> string list" where
  "tool_writes c i = (case map_get (gc_tools c) i of None \<Rightarrow> [] | Some t \<Rightarrow> nullish (td_writes t) [])"

definition write_conflict :: "graph_context \<Rightarrow> string \<Rightarrow> string \<Rightarrow> bool" where
  "write_conflict c x y =
     (intersects (tool_writes c x) (tool_writes c y) \<and>
      \<not> reaches (gc_ancestors c) x y \<and> \<not> reaches (gc_ancestors c) y x \<and>
      related_pivots c x y \<noteq> [] \<and> \<not> protectedByBarrier c x y)"

definition rule_R9 :: "graph_context \<Rightarrow> check_violation list" where
  "rule_R9 c = report (\<lambda>(x, y). write_conflict c x y)
     (\<lambda>(x, y). violation R9 (x @ '' and '' @ y @ '' have conflicting parallel writes before a pivot'') [x, y])
     (index_pairs (map fst (gc_tools c)))"

definition rule_reports ::
    "graph_context \<Rightarrow> sub_dag_proposal \<Rightarrow> scope_snapshot list \<Rightarrow> check_violation list" where
  "rule_reports c p existing =
     rule_R10 c @ concat (map (rule_scope c) (sd_scopes p)) @ rule_routers c p existing @ rule_R5 c @
     rule_R7 c @ rule_R14 c @ rule_R12 c p @ rule_R8 c @ rule_R9 c"

definition checkSubDag ::
    "sub_dag_proposal \<Rightarrow> tool_registry \<Rightarrow> scope_snapshot list \<Rightarrow> check_result res" where
  "checkSubDag p reg existing =
     bind_res (buildContext p reg) (\<lambda>c.
       Inr (check_result_of (foldl add_violation (registry_validate reg) (rule_reports c p existing))))"

section \<open>Freeze admission of a template's branches\<close>

record slot_placement_context =
  sp_placement :: router_placement
  sp_isReadOnlyContext :: bool
  sp_roleToolView :: tool_registry

record admissible_branch =
  ab_condition :: string
  ab_subDag :: sub_dag_proposal
  ab_opensScope :: bool
  ab_hasPivot :: bool
  ab_maxEffect :: effect_class

definition branch_prefix :: "nat \<Rightarrow> string" where
  "branch_prefix i = ''branch '' @ nat_str i"

definition missing_tools :: "tool_registry \<Rightarrow> sub_dag_proposal \<Rightarrow> proposal_vertex list" where
  "missing_tools view p = filter (\<lambda>v. pv_kind v = KTool \<and> present (pv_tool v) \<and>
     \<not> registry_has view (the (pv_tool v))) (sd_vertices p)"

definition placement_violations ::
    "slot_placement_context \<Rightarrow> scope_snapshot list \<Rightarrow> nat \<Rightarrow> admissible_branch \<Rightarrow> check_violation list" where
  "placement_violations slot existing i b =
     (if sp_placement slot = InsideScope then
        (if ab_opensScope b
         then [violation R12 (branch_prefix i @ '' cannot open a fresh scope inside an active one'') []]
         else []) @
        (case find (\<lambda>s. ss_state s = SHalfOpen) existing of
           None \<Rightarrow> []
         | Some active \<Rightarrow>
             if ab_hasPivot b \<and> ss_pivotCount active > 0
             then [violation R3 (branch_prefix i @ '' introduces a second pivot into scope '' @
                     ss_scopeId active) []] else [])
      else if ab_maxEffect b \<noteq> EffNone \<and> \<not> ab_opensScope b
      then [violation R10 (branch_prefix i @ '' has a side effect but declares no scope'') []]
      else [])"

definition branch_violations ::
    "slot_placement_context \<Rightarrow> scope_snapshot list \<Rightarrow> nat \<times> admissible_branch \<Rightarrow> check_violation list res" where
  "branch_violations slot existing ib =
     (let i = fst ib; b = snd ib in
      if sp_isReadOnlyContext slot \<and> ab_maxEffect b \<noteq> EffNone
      then Inr [violation R10 (branch_prefix i @ '' emits a side effect in a read-only slot'') []]
      else if missing_tools (sp_roleToolView slot) (ab_subDag b) \<noteq> []
      then Inr (map (\<lambda>v. violation R13 (branch_prefix i @ '' references '' @ nullish (pv_tool v) [] @
                           '', absent from this run's role-scoped tool view'') [pv_id v])
             (missing_tools (sp_roleToolView slot) (ab_subDag b)))
      else bind_res (checkSubDag (ab_subDag b) (sp_roleToolView slot) existing) (\<lambda>r.
             Inr (placement_violations slot existing i b @
                  map (\<lambda>v. v\<lparr>cv_message := branch_prefix i @ '': '' @ cv_message v\<rparr>) (cr_violations r))))"

definition checkFreezeAdmission ::
    "admissible_branch list \<Rightarrow> slot_placement_context \<Rightarrow> scope_snapshot list \<Rightarrow> check_result res" where
  "checkFreezeAdmission branches slot existing =
     bind_res (map_res (branch_violations slot existing) (enumerate 0 branches)) (\<lambda>vss.
       Inr (check_result_of
         ((case find unclosed existing of
             None \<Rightarrow> []
           | Some s \<Rightarrow>
               if sp_placement slot = AtSavepoint
               then [violation R13 (''router slot declares at_savepoint while ancestor scope '' @
                       ss_scopeId s @ '' is unclosed'') []] else []) @ concat vss)))"

end
