(* ===== verification/Graph_Context.thy ===== *)
theory Graph_Context
  imports Check_Rules
begin

text \<open>
  Correctness of the graph context the admission rules read: the depth-first search of
  \<open>buildContext\<close> succeeds exactly on an acyclic proposal whose parents are its own vertices, and its
  ancestor and descendant sets are then the transitive closure of the parent edges.
\<close>

section \<open>The ancestor search\<close>

definition parent_edges :: "vertices \<Rightarrow> (string \<times> string) set" where
  "parent_edges vs = {(i, p). p \<in> set (parents_in vs i)}"

text \<open>A cache entry holds exactly the proper ancestors, all of them cached, and not the vertex itself.\<close>

definition cache_ok :: "vertices \<Rightarrow> reach \<Rightarrow> bool" where
  "cache_ok vs cache \<longleftrightarrow> distinct (map fst cache) \<and> (\<forall>k s. map_get cache k = Some s \<longrightarrow>
     set s = (parent_edges vs)\<^sup>+ `` {k} \<and> set s \<subseteq> mkeys cache \<and> k \<notin> set s)"

lemma cache_ok_Nil: "cache_ok vs []"
  by (simp add: cache_ok_def map_get_def)

lemma cache_okD:
  "cache_ok vs cache \<Longrightarrow> map_get cache k = Some s \<Longrightarrow> set s = (parent_edges vs)\<^sup>+ `` {k}"
  "cache_ok vs cache \<Longrightarrow> map_get cache k = Some s \<Longrightarrow> set s \<subseteq> mkeys cache"
  "cache_ok vs cache \<Longrightarrow> map_get cache k = Some s \<Longrightarrow> k \<notin> set s"
  by (auto simp: cache_ok_def)

lemma cache_ok_map_set:
  assumes "cache_ok vs cache" and "set s = (parent_edges vs)\<^sup>+ `` {i}" and "set s \<subseteq> mkeys cache"
    and "i \<notin> mkeys cache"
  shows "cache_ok vs (map_set i s cache)"
proof -
  have "distinct (map fst (map_set i s cache))"
    using assms(1) by (auto simp: cache_ok_def keys_map_set)
  moreover have "set t = (parent_edges vs)\<^sup>+ `` {k} \<and> set t \<subseteq> insert i (mkeys cache) \<and> k \<notin> set t"
    if "map_get (map_set i s cache) k = Some t" for k t
  proof (cases "k = i")
    case True
    with that assms(2-4) show ?thesis by (auto simp: map_get_map_set)
  next
    case False
    then have "map_get cache k = Some t" using that by (simp add: map_get_map_set)
    then show ?thesis using cache_okD [OF assms(1)] by blast
  qed
  ultimately show ?thesis unfolding cache_ok_def mkeys_map_set by blast
qed

text \<open>Everything strictly above \<open>i\<close>: its parents and what is above them.\<close>

lemma ancestors_unfold:
  "(parent_edges vs)\<^sup>+ `` {i} =
     set (parents_in vs i) \<union> (\<Union>p\<in>set (parents_in vs i). (parent_edges vs)\<^sup>+ `` {p})"
proof -
  have "parent_edges vs `` {i} = set (parents_in vs i)" by (auto simp: parent_edges_def)
  then show ?thesis by (subst trancl_image_unfold) simp
qed

lemma visit_sound:
  shows "visitAncestors vs i visiting cache = Inr (s, c') \<Longrightarrow> cache_ok vs cache \<Longrightarrow>
           set visiting \<inter> mkeys cache = {} \<Longrightarrow>
           cache_ok vs c' \<and> map_get c' i = Some s \<and> set visiting \<inter> mkeys c' = {} \<and>
           mkeys cache \<subseteq> mkeys c' \<and> mkeys c' \<subseteq> insert i (mkeys cache \<union> mkeys vs)"
    and "visitParents vs i ps nv result cache = Inr (s, c') \<Longrightarrow> cache_ok vs cache \<Longrightarrow>
           set nv \<inter> mkeys cache = {} \<Longrightarrow>
           cache_ok vs c' \<and> set nv \<inter> mkeys c' = {} \<and> mkeys cache \<subseteq> mkeys c' \<and>
           mkeys c' \<subseteq> mkeys cache \<union> mkeys vs \<and> set ps \<subseteq> mkeys c' \<and>
           (\<Union>p\<in>set ps. (parent_edges vs)\<^sup>+ `` {p}) \<subseteq> mkeys c' \<and>
           set s = set result \<union> set ps \<union> (\<Union>p\<in>set ps. (parent_edges vs)\<^sup>+ `` {p})"
proof (induction vs i visiting cache and vs i ps nv result cache arbitrary: s c' and s c'
    rule: visitAncestors_visitParents.induct)
  case (1 vs i visiting cache)
  show ?case
  proof (cases "map_get cache i")
    case (Some t)
    with 1 show ?thesis by (auto simp: visitAncestors.simps [of vs i])
  next
    case None
    with 1(2) have i: "i \<notin> set visiting" by (auto simp: visitAncestors.simps [of vs i] split: if_splits)
    with None 1(2) obtain c'' where
      step: "visitParents vs i (parents_in vs i) (set_add visiting i) [] cache = Inr (s, c'')"
      and c': "c' = map_set i s c''"
      by (auto simp: visitAncestors.simps [of vs i] split: sum.splits)
    have disj: "set (set_add visiting i) \<inter> mkeys cache = {}"
      using None 1(4) by (auto simp: map_get_mkeys)
    note IH = 1(1) [OF None i step 1(3) disj]
    have s: "set s = (parent_edges vs)\<^sup>+ `` {i}" by (subst ancestors_unfold) (use IH in simp)
    have sub: "set s \<subseteq> mkeys c''" and new: "i \<notin> mkeys c''" using IH by auto
    have keys: "cache_ok vs c''" "set visiting \<inter> mkeys c'' = {}" "mkeys cache \<subseteq> mkeys c''"
      "mkeys c'' \<subseteq> mkeys cache \<union> mkeys vs" using IH by auto
    have "cache_ok vs c'" unfolding c' using keys(1) s sub new by (rule cache_ok_map_set)
    moreover have "set visiting \<inter> mkeys c' = {}" unfolding c' using keys(2) i by simp
    moreover have "mkeys cache \<subseteq> mkeys c'" unfolding c' using keys(3) by auto
    moreover have "mkeys c' \<subseteq> insert i (mkeys cache \<union> mkeys vs)" unfolding c' using keys(4) by auto
    ultimately show ?thesis unfolding c' by (simp add: map_get_map_set)
  qed
next
  case (2 vs i nv result cache)
  then show ?case by simp
next
  case (3 vs i p ps nv result cache)
  from 3(3) have p: "map_has vs p" by (auto simp: visitParents.simps split: if_splits)
  with 3(3) obtain t c1 where
    first: "visitAncestors vs p nv cache = Inr (t, c1)" and
    rest: "visitParents vs i ps nv (set_union (set_add result p) t) c1 = Inr (s, c')"
    by (auto simp: visitParents.simps split: sum.splits)
  have pk: "p \<in> mkeys vs" using p by (simp add: map_has_def mkeys_def)
  note A = 3(1) [OF _ first 3(4,5)]
  have A': "cache_ok vs c1" "map_get c1 p = Some t" "set nv \<inter> mkeys c1 = {}" "mkeys cache \<subseteq> mkeys c1"
    "mkeys c1 \<subseteq> insert p (mkeys cache \<union> mkeys vs)"
    using A p by simp_all
  have t: "set t = (parent_edges vs)\<^sup>+ `` {p}" "set t \<subseteq> mkeys c1" "p \<in> mkeys c1"
    using cache_okD [OF A'(1,2)] A'(2) map_get_mkeys [of c1 p] by auto
  have "(t, c1) = (t, c1)" by simp
  note B = 3(2) [OF _ first this rest A'(1) A'(3)]
  have B': "cache_ok vs c'" "set nv \<inter> mkeys c' = {}" "mkeys c1 \<subseteq> mkeys c'"
    "mkeys c' \<subseteq> mkeys c1 \<union> mkeys vs" "set ps \<subseteq> mkeys c'"
    "(\<Union>p\<in>set ps. (parent_edges vs)\<^sup>+ `` {p}) \<subseteq> mkeys c'"
    "set s = insert p (set result) \<union> set t \<union> set ps \<union> (\<Union>p\<in>set ps. (parent_edges vs)\<^sup>+ `` {p})"
    using B p by simp_all
  have "mkeys c' \<subseteq> mkeys cache \<union> mkeys vs" using B'(4) A'(5) pk by blast
  moreover have "set (p # ps) \<subseteq> mkeys c'" using B'(3,5) t(3) by auto
  moreover have "(\<Union>q\<in>set (p # ps). (parent_edges vs)\<^sup>+ `` {q}) \<subseteq> mkeys c'"
    using B'(3,6) t(1,2) by auto
  moreover have "set s = set result \<union> set (p # ps) \<union> (\<Union>q\<in>set (p # ps). (parent_edges vs)\<^sup>+ `` {q})"
    unfolding B'(7) t(1) by auto
  ultimately show ?case using B'(1,2,3) A'(4) by blast
qed

definition well_founded_graph :: "vertices \<Rightarrow> bool" where
  "well_founded_graph vs \<longleftrightarrow> acyclic (parent_edges vs) \<and> Range (parent_edges vs) \<subseteq> mkeys vs"

text \<open>A throw of the search names a real defect: a vertex on a cycle, or a parent that is no vertex.\<close>

definition graph_error :: "vertices \<Rightarrow> js_error \<Rightarrow> bool" where
  "graph_error vs e \<longleftrightarrow>
     (\<exists>i. e = Error (''proposal contains a cycle at '' @ i) \<and> (i, i) \<in> (parent_edges vs)\<^sup>+) \<or>
     (\<exists>i p. e = Error (''unknown parent '' @ p @ '' for '' @ i) \<and> (i, p) \<in> parent_edges vs \<and> p \<notin> mkeys vs)"

lemma graph_error_defect: "graph_error vs e \<Longrightarrow> \<not> well_founded_graph vs"
  by (auto simp: graph_error_def well_founded_graph_def acyclic_def)

lemma visit_errors:
  shows "visitAncestors vs i visiting cache = Inl e \<Longrightarrow>
           (\<forall>v\<in>set visiting. (v, i) \<in> (parent_edges vs)\<^sup>+) \<Longrightarrow> graph_error vs e"
    and "visitParents vs i ps nv result cache = Inl e \<Longrightarrow> set ps \<subseteq> set (parents_in vs i) \<Longrightarrow>
           (\<forall>v\<in>set nv. (v, i) \<in> (parent_edges vs)\<^sup>*) \<Longrightarrow> graph_error vs e"
proof (induction vs i visiting cache and vs i ps nv result cache
    rule: visitAncestors_visitParents.induct)
  case (1 vs i visiting cache)
  have None: "map_get cache i = None"
    using 1(2) by (auto simp: visitAncestors.simps [of vs i] split: option.splits)
  show ?case
  proof (cases "i \<in> set visiting")
    case True
    then show ?thesis using 1(2,3) None by (auto simp: visitAncestors.simps [of vs i] graph_error_def)
  next
    case False
    then have "visitParents vs i (parents_in vs i) (set_add visiting i) [] cache = Inl e"
      using 1(2) None by (auto simp: visitAncestors.simps [of vs i] split: sum.splits)
    moreover have "\<forall>v\<in>set (set_add visiting i). (v, i) \<in> (parent_edges vs)\<^sup>*"
      using 1(3) by (auto intro: trancl_into_rtrancl)
    ultimately show ?thesis using 1(1) [OF None False] by blast
  qed
next
  case (2 vs i nv result cache)
  then show ?case by simp
next
  case (3 vs i p ps nv result cache)
  have e: "(i, p) \<in> parent_edges vs" using 3(4) by (simp add: parent_edges_def)
  show ?case
  proof (cases "map_has vs p")
    case False
    then show ?thesis using 3(3) e
      by (auto simp: visitParents.simps graph_error_def map_has_def mkeys_def)
  next
    case True
    then have p: "\<not> \<not> map_has vs p" by simp
    have up: "\<forall>v\<in>set nv. (v, p) \<in> (parent_edges vs)\<^sup>+"
      using 3(5) e by (blast intro: rtrancl_into_trancl1)
    show ?thesis
    proof (cases "visitAncestors vs p nv cache")
      case (Inl e')
      then have "e' = e" using 3(3) True by (simp add: visitParents.simps)
      with 3(1) [OF p] Inl up show ?thesis by blast
    next
      case (Inr b)
      obtain t c1 where b: "(t, c1) = b" by (cases b) simp
      have "visitParents vs i ps nv (set_union (set_add result p) t) c1 = Inl e"
        using 3(3) Inr b True by (auto simp: visitParents.simps)
      moreover have "set ps \<subseteq> set (parents_in vs i)" using 3(4) by simp
      ultimately show ?thesis using 3(2) [OF p Inr b] 3(5) by blast
    qed
  qed
qed

lemma visit_all_errors: "visit_all vs is cache = Inl e \<Longrightarrow> graph_error vs e"
proof (induction "is" arbitrary: cache)
  case (Cons i "is")
  show ?case
  proof (cases "visitAncestors vs i [] cache")
    case (Inl e')
    then have "e' = e" using Cons(2) by simp
    with Inl show ?thesis using visit_errors(1) [OF Inl] by simp
  next
    case (Inr b)
    with Cons show ?thesis by (cases b) simp
  qed
qed simp

lemma visit_all_complete: "well_founded_graph vs \<Longrightarrow> \<exists>c'. visit_all vs is cache = Inr c'"
  using visit_all_errors graph_error_defect by (cases "visit_all vs is cache") blast+

lemma visit_all_sound:
  "visit_all vs is cache = Inr c' \<Longrightarrow> cache_ok vs cache \<Longrightarrow> mkeys cache \<subseteq> mkeys vs \<Longrightarrow>
   set is \<subseteq> mkeys vs \<Longrightarrow>
   cache_ok vs c' \<and> mkeys cache \<union> set is \<subseteq> mkeys c' \<and> mkeys c' \<subseteq> mkeys vs"
proof (induction "is" arbitrary: cache)
  case Nil
  then show ?case by simp
next
  case (Cons i "is")
  note 2 = Cons
  from 2(2) obtain s c1 where first: "visitAncestors vs i [] cache = Inr (s, c1)"
    and rest: "visit_all vs is c1 = Inr c'"
    by (auto simp: bind_res_def split: sum.splits prod.splits)
  have A: "cache_ok vs c1" "map_get c1 i = Some s" "mkeys cache \<subseteq> mkeys c1"
    "mkeys c1 \<subseteq> insert i (mkeys cache \<union> mkeys vs)"
    using visit_sound(1) [OF first 2(3)] by auto
  have i: "i \<in> mkeys c1" using A(2) map_get_mkeys [of c1 i] by auto
  have "mkeys c1 \<subseteq> mkeys vs" using A(4) 2(4,5) by auto
  then have "cache_ok vs c' \<and> mkeys c1 \<union> set is \<subseteq> mkeys c' \<and> mkeys c' \<subseteq> mkeys vs"
    using 2(1) [OF rest A(1)] 2(5) by simp
  with A(3) i show ?case by auto
qed

lemma cached_graph:
  assumes "cache_ok vs c" "mkeys c = mkeys vs"
  shows "well_founded_graph vs"
proof -
  have out: "i \<in> mkeys c" if "(i, p) \<in> parent_edges vs" for i p
    using that map_get_mkeys [of vs i] assms(2)
    by (cases "map_get vs i") (auto simp: parent_edges_def parents_in_def)
  have up: "(i, p) \<in> (parent_edges vs)\<^sup>+ \<Longrightarrow> p \<in> mkeys c \<and> p \<noteq> i" for i p
  proof -
    assume ip: "(i, p) \<in> (parent_edges vs)\<^sup>+"
    then have "i \<in> mkeys c" using out by (metis tranclD)
    then obtain s where "map_get c i = Some s" using map_get_mkeys [of c i] by auto
    with cache_okD [OF assms(1) this] ip show ?thesis by auto
  qed
  then show ?thesis using assms(2) unfolding well_founded_graph_def acyclic_def by blast
qed
section \<open>The context\<close>

lemma reaches_entries: "reaches m k x \<longleftrightarrow> x \<in> set (entries m k)"
  by (simp add: reaches_def entries_def split: option.splits)

lemma entries_add_descendant:
  "set (entries (add_descendant i m a) b) = (if b = a then {i} else {}) \<union> set (entries m b)"
  by (auto simp: add_descendant_def entries_def map_get_map_set)

lemma entries_add_descendants:
  "set (entries (foldl (add_descendant i) m as) b) = (if b \<in> set as then {i} else {}) \<union> set (entries m b)"
  by (induction as arbitrary: m) (auto simp: entries_add_descendant)

lemma entries_invert:
  "set (entries (foldl (\<lambda>m (i, as). foldl (add_descendant i) m as) m anc) b) =
     {d. \<exists>as. (d, as) \<in> set anc \<and> b \<in> set as} \<union> set (entries m b)"
  by (induction anc arbitrary: m) (auto simp: entries_add_descendants split: if_splits)

lemma entries_fresh: "entries (new_map (map (\<lambda>i. (i, [])) ids)) b = []" (is "entries ?m b = []")
proof (cases "map_get ?m b")
  case (Some s)
  then have "(b, s) \<in> set (rev (map (\<lambda>i. (i, [])) ids))"
    unfolding map_get_new_map by (rule map_of_SomeD)
  then have "s = []" by auto
  then show ?thesis using Some by (simp add: entries_def)
qed (simp add: entries_def)

lemma set_descendants_of:
  "set (entries (descendants_of ids anc) b) = {d. \<exists>as. (d, as) \<in> set anc \<and> b \<in> set as}"
  by (simp add: descendants_of_def entries_invert entries_fresh)

lemma visit_all_iff:
  "(\<exists>c. visit_all vs (map fst vs) [] = Inr c) \<longleftrightarrow> well_founded_graph vs"
proof
  assume "\<exists>c. visit_all vs (map fst vs) [] = Inr c"
  then obtain c where c: "visit_all vs (map fst vs) [] = Inr c" ..
  have "cache_ok vs c \<and> mkeys c = mkeys vs"
    using visit_all_sound [OF c cache_ok_Nil] by (auto simp: mkeys_def)
  then show "well_founded_graph vs" by (blast intro: cached_graph)
next
  assume "well_founded_graph vs"
  then show "\<exists>c. visit_all vs (map fst vs) [] = Inr c" by (rule visit_all_complete)
qed

lemma edges_source: "(i, p) \<in> parent_edges vs \<Longrightarrow> i \<in> mkeys vs"
  using map_get_mkeys [of vs i] by (cases "map_get vs i") (auto simp: parent_edges_def parents_in_def)

lemma visit_all_entries:
  assumes "visit_all vs (map fst vs) [] = Inr c"
  shows "set (entries c i) = {a. (i, a) \<in> (parent_edges vs)\<^sup>+}"
    and "set (entries (descendants_of ids c) i) = {d. (d, i) \<in> (parent_edges vs)\<^sup>+}"
proof -
  have c: "cache_ok vs c" and keys: "mkeys c = mkeys vs"
    using visit_all_sound [OF assms cache_ok_Nil] by (auto simp: mkeys_def)
  have anc: "set (entries c i) = {a. (i, a) \<in> (parent_edges vs)\<^sup>+}" for i
  proof (cases "map_get c i")
    case None
    then have "i \<notin> mkeys vs" using keys map_get_mkeys [of c i] by simp
    then have "(i, a) \<notin> (parent_edges vs)\<^sup>+" for a by (metis edges_source tranclD)
    with None show ?thesis by (simp add: entries_def)
  next
    case (Some s)
    then show ?thesis using cache_okD(1) [OF c Some] by (auto simp: entries_def)
  qed
  then show "set (entries c i) = {a. (i, a) \<in> (parent_edges vs)\<^sup>+}" .
  have "distinct (map fst c)" using c by (simp add: cache_ok_def)
  then have "(d, as) \<in> set c \<longleftrightarrow> map_get c d = Some as" for d as by (rule map_get_distinct)
  then have "(\<exists>as. (d, as) \<in> set c \<and> i \<in> set as) \<longleftrightarrow> i \<in> set (entries c d)" for d
    by (cases "map_get c d") (simp_all add: entries_def)
  then show "set (entries (descendants_of ids c) i) = {d. (d, i) \<in> (parent_edges vs)\<^sup>+}"
    using anc by (simp add: set_descendants_of)
qed

end
