(* ===== verification/Admission_Spec.thy ===== *)
theory Admission_Spec
  imports Graph_Context
begin

text \<open>
  What the admission rules promise, stated over the parent edges of a proposal, and that the checker
  decides exactly that: when \<open>checkSubDag\<close> throws, what each rule demands of a graph
  (\<open>admissible\<close>), the equivalence of the two, and the admission of a template's branches at freeze.
\<close>

section \<open>Well-formed proposals\<close>

definition vertex_of :: "sub_dag_proposal \<Rightarrow> string \<Rightarrow> proposal_vertex option" where
  "vertex_of p i = map_get (proposal_vertices p) i"

definition edges :: "sub_dag_proposal \<Rightarrow> (string \<times> string) set" where
  "edges p = parent_edges (proposal_vertices p)"

text \<open>\<open>before p a b\<close>: control reaches \<open>a\<close> strictly before \<open>b\<close>.\<close>

definition before :: "sub_dag_proposal \<Rightarrow> string \<Rightarrow> string \<Rightarrow> bool" where
  "before p a b \<longleftrightarrow> (b, a) \<in> (edges p)\<^sup>+"

definition declared_tool :: "sub_dag_proposal \<Rightarrow> tool_registry \<Rightarrow> string \<Rightarrow> tool_definition option" where
  "declared_tool p reg i = Option.bind (vertex_of p i) (\<lambda>v.
     if pv_kind v = KTool \<and> present (pv_tool v) then map_get reg (the (pv_tool v)) else None)"

definition names_resolve :: "tool_registry \<Rightarrow> proposal_vertex \<Rightarrow> bool" where
  "names_resolve reg v \<longleftrightarrow>
     (present (pv_tool v) \<longrightarrow> pv_kind v = KTool \<and> map_has reg (the (pv_tool v)))"

definition well_formed :: "sub_dag_proposal \<Rightarrow> tool_registry \<Rightarrow> bool" where
  "well_formed p reg \<longleftrightarrow>
     (\<forall>v\<in>set (sd_vertices p). names_resolve reg v) \<and>
     acyclic (edges p) \<and> Range (edges p) \<subseteq> pv_id ` set (sd_vertices p)"

lemma mkeys_proposal_vertices: "mkeys (proposal_vertices p) = pv_id ` set (sd_vertices p)"
  by (force simp: mkeys_def proposal_vertices_def keys_new_map)

lemma collect_tools_iff:
  "(\<exists>tools'. collect_tools reg vs tools = Inr tools') \<longleftrightarrow> (\<forall>v\<in>set vs. names_resolve reg v)"
  by (induction vs arbitrary: tools)
    (auto simp: names_resolve_def registry_get_def map_has_iff split: option.splits)

lemma buildContext_iff: "(\<exists>c. buildContext p reg = Inr c) \<longleftrightarrow> well_formed p reg"
proof -
  have "(\<exists>c. buildContext p reg = Inr c) \<longleftrightarrow>
    (\<exists>t. collect_tools reg (sd_vertices p) [] = Inr t) \<and>
    (\<exists>a. visit_all (proposal_vertices p) (map fst (proposal_vertices p)) [] = Inr a)"
    by (simp add: buildContext_def Let_def bind_res_Inr) blast
  also have "\<dots> \<longleftrightarrow> well_formed p reg"
    by (simp add: collect_tools_iff visit_all_iff well_formed_def well_founded_graph_def edges_def
        mkeys_proposal_vertices)
  finally show ?thesis .
qed

section \<open>Reading the context\<close>

lemma buildContextD:
  assumes "buildContext p reg = Inr c"
  shows "gc_vertices c = proposal_vertices p"
    and "set (entries (gc_ancestors c) i) = {a. before p a i}"
    and "set (entries (gc_descendants c) i) = {d. before p i d}"
    and "collect_tools reg (sd_vertices p) [] = Inr (gc_tools c)"
    and "gc_scopeMembers c = new_map (map (\<lambda>s. (ps_id s, new_set (ps_members s))) (sd_scopes p))"
proof -
  obtain t a where t: "collect_tools reg (sd_vertices p) [] = Inr t"
    and a: "visit_all (proposal_vertices p) (map fst (proposal_vertices p)) [] = Inr a"
    and c: "c = \<lparr>gc_vertices = proposal_vertices p, gc_tools = t, gc_ancestors = a,
        gc_descendants = descendants_of (map fst (proposal_vertices p)) a,
        gc_scopeMembers = new_map (map (\<lambda>s. (ps_id s, new_set (ps_members s))) (sd_scopes p))\<rparr>"
    using assms by (auto simp: buildContext_def Let_def bind_res_Inr)
  show "gc_vertices c = proposal_vertices p" and "collect_tools reg (sd_vertices p) [] = Inr (gc_tools c)"
    and "gc_scopeMembers c = new_map (map (\<lambda>s. (ps_id s, new_set (ps_members s))) (sd_scopes p))"
    using t c by simp_all
  show "set (entries (gc_ancestors c) i) = {a. before p a i}"
    and "set (entries (gc_descendants c) i) = {d. before p i d}"
    using visit_all_entries [OF a] c by (simp_all add: before_def edges_def)
qed

lemma collect_tools_distinct:
  "collect_tools reg vs tools = Inr tools' \<Longrightarrow> distinct (map fst tools) \<Longrightarrow> distinct (map fst tools')"
  by (induction vs arbitrary: tools)
    (auto simp: bind_res_Inr keys_map_set split: if_splits)

lemma collect_tools_get:
  "collect_tools reg vs tools = Inr tools' \<Longrightarrow> distinct (map pv_id vs) \<Longrightarrow>
   map_get tools' i = (case map_of (map (\<lambda>v. (pv_id v, v)) vs) i of
      Some v \<Rightarrow> if pv_kind v = KTool \<and> present (pv_tool v) then map_get reg (the (pv_tool v)) else map_get tools i
    | None \<Rightarrow> map_get tools i)"
proof (induction vs arbitrary: tools)
  case Nil
  then show ?case by simp
next
  case (Cons v vs)
  have fresh: "map_of (map (\<lambda>v. (pv_id v, v)) vs) (pv_id v) = None"
    using Cons(3) by (auto simp: map_of_eq_None_iff)
  show ?case
  proof (cases "pv_kind v = KTool \<and> present (pv_tool v)")
    case True
    with Cons(2) obtain d where d: "map_get reg (the (pv_tool v)) = Some d"
      and rest: "collect_tools reg vs (map_set (pv_id v) d tools) = Inr tools'"
      by (auto simp: bind_res_Inr registry_get_def split: option.splits)
    show ?thesis using Cons(1) [OF rest] Cons(3) True d fresh
      by (auto simp: map_get_map_set split: option.splits)
  next
    case False
    then have rest: "collect_tools reg vs tools = Inr tools'" using Cons(2) by (auto split: if_splits)
    show ?thesis using Cons(1) [OF rest] Cons(3) False fresh by (auto split: option.splits)
  qed
qed

definition unique_ids :: "sub_dag_proposal \<Rightarrow> bool" where
  "unique_ids p \<longleftrightarrow> distinct (map pv_id (sd_vertices p)) \<and> distinct (map ps_id (sd_scopes p))"

lemma vertex_of_in:
  "distinct (map pv_id (sd_vertices p)) \<Longrightarrow> vertex_of p i = Some v \<longleftrightarrow> v \<in> set (sd_vertices p) \<and> pv_id v = i"
  by (auto simp: vertex_of_def proposal_vertices_def map_get_new_map_distinct comp_def)

lemma vertex_of_map:
  "distinct (map pv_id (sd_vertices p)) \<Longrightarrow> vertex_of p i = map_of (map (\<lambda>v. (pv_id v, v)) (sd_vertices p)) i"
  by (simp add: vertex_of_def proposal_vertices_def map_get_new_map_distinct comp_def)

lemma context_tools:
  assumes "buildContext p reg = Inr c" and "distinct (map pv_id (sd_vertices p))"
  shows "map_get (gc_tools c) i = declared_tool p reg i"
  using collect_tools_get [OF buildContextD(4) [OF assms(1)] assms(2), of i]
  by (simp add: vertex_of_map [OF assms(2)] declared_tool_def js_map.get_empty split: option.splits)

section \<open>What the rules demand\<close>

definition scope_of :: "sub_dag_proposal \<Rightarrow> string \<Rightarrow> string option" where
  "scope_of p i = Option.bind (vertex_of p i) pv_scopeId"

definition pivot :: "sub_dag_proposal \<Rightarrow> tool_registry \<Rightarrow> string \<Rightarrow> bool" where
  "pivot p reg i \<longleftrightarrow> (\<exists>t. declared_tool p reg i = Some t \<and> td_effectClass t = Irreversible)"

definition parallel :: "sub_dag_proposal \<Rightarrow> string \<Rightarrow> string \<Rightarrow> bool" where
  "parallel p x y \<longleftrightarrow> x \<noteq> y \<and> \<not> before p x y \<and> \<not> before p y x"

definition barrier :: "sub_dag_proposal \<Rightarrow> string \<Rightarrow> bool" where
  "barrier p b \<longleftrightarrow> (\<exists>v. vertex_of p b = Some v \<and> pv_kind v = KBarrier)"

definition kind_of :: "sub_dag_proposal \<Rightarrow> string \<Rightarrow> vertex_kind option" where
  "kind_of p i = map_option pv_kind (vertex_of p i)"

text \<open>One scope is a saga: at most one pivot, everything before it undoable, everything after it
  retryable, and every reversible predecessor on its footprint inside the scope.\<close>

definition spec_scope :: "sub_dag_proposal \<Rightarrow> tool_registry \<Rightarrow> string set \<Rightarrow> bool" where
  "spec_scope p reg M \<longleftrightarrow>
     (\<forall>x\<in>M. \<forall>y\<in>M. pivot p reg x \<longrightarrow> pivot p reg y \<longrightarrow> x = y) \<and>
     (\<forall>x\<in>M. pivot p reg x \<longrightarrow>
        (\<forall>m\<in>M. \<forall>t. declared_tool p reg m = Some t \<longrightarrow>
           (before p m x \<longrightarrow> td_effectClass t \<noteq> EffNone \<longrightarrow> isUndoable t) \<and>
           (before p x m \<longrightarrow> td_idempotentRetryable t)) \<and>
        (\<forall>a t xt. before p a x \<longrightarrow> declared_tool p reg a = Some t \<longrightarrow> declared_tool p reg x = Some xt \<longrightarrow>
           td_effectClass t = Reversible \<longrightarrow> set (td_footprint t) \<inter> set (td_footprint xt) \<noteq> {} \<longrightarrow> a \<in> M))"

definition spec_effects_scoped :: "sub_dag_proposal \<Rightarrow> tool_registry \<Rightarrow> bool" where
  "spec_effects_scoped p reg \<longleftrightarrow>
     (\<forall>i t. declared_tool p reg i = Some t \<longrightarrow> td_effectClass t \<noteq> EffNone \<longrightarrow> present (scope_of p i))"

definition spec_router_scopes ::
    "sub_dag_proposal \<Rightarrow> tool_registry \<Rightarrow> scope_snapshot list \<Rightarrow> bool" where
  "spec_router_scopes p reg existing \<longleftrightarrow>
     ((\<exists>i. kind_of p i = Some KRouter) \<longrightarrow>
      (\<forall>s\<in>set (sd_scopes p).
         ((\<exists>e\<in>set existing. ss_state e = SHalfOpen) \<longrightarrow> ps_id s \<in> ss_scopeId ` set existing) \<and>
         (\<forall>e. find (\<lambda>x. ss_scopeId x = ps_id s) existing = Some e \<longrightarrow>
            ss_pivotCount e + card {x \<in> set (ps_members s). pivot p reg x} \<le> 1)))"

definition spec_parallel_pivots :: "sub_dag_proposal \<Rightarrow> tool_registry \<Rightarrow> bool" where
  "spec_parallel_pivots p reg \<longleftrightarrow>
     (\<forall>x y. pivot p reg x \<longrightarrow> pivot p reg y \<longrightarrow> parallel p x y \<longrightarrow>
        (\<exists>b v. vertex_of p b = Some v \<and> pv_kind v = KBarrier \<and> length (pv_parents v) \<ge> 2 \<and>
           before p b x \<and> before p b y))"

definition spec_no_dirty_read :: "sub_dag_proposal \<Rightarrow> tool_registry \<Rightarrow> bool" where
  "spec_no_dirty_read p reg \<longleftrightarrow>
     (\<forall>i q v. (i, q) \<in> edges p \<longrightarrow> vertex_of p q = Some v \<longrightarrow> pv_kind v = KTool \<longrightarrow>
        present (scope_of p i) \<longrightarrow> present (scope_of p q) \<longrightarrow> scope_of p i \<noteq> scope_of p q \<longrightarrow>
        pv_confirmedOutput v \<or> (\<exists>t. declared_tool p reg q = Some t \<and> td_effectClass t = EffNone))"

definition spec_planner_edges :: "sub_dag_proposal \<Rightarrow> bool" where
  "spec_planner_edges p \<longleftrightarrow>
     (\<forall>i q. (i, q) \<in> edges p \<longrightarrow> kind_of p i = Some KPlanner \<longrightarrow> kind_of p q \<noteq> Some KTool)"

definition spec_control_unscoped :: "sub_dag_proposal \<Rightarrow> bool" where
  "spec_control_unscoped p \<longleftrightarrow>
     (\<forall>i. kind_of p i = Some KPlanner \<or> kind_of p i = Some KRouter \<longrightarrow>
        \<not> present (scope_of p i) \<and> (\<forall>s\<in>set (sd_scopes p). i \<notin> set (ps_members s)))"

definition spec_recovery_path :: "sub_dag_proposal \<Rightarrow> tool_registry \<Rightarrow> bool" where
  "spec_recovery_path p reg \<longleftrightarrow>
     (\<forall>x d t. pivot p reg x \<longrightarrow> before p x d \<longrightarrow> scope_of p d = scope_of p x \<longrightarrow>
        declared_tool p reg d = Some t \<longrightarrow> td_effectClass t = EffNone \<longrightarrow> (\<forall>e. \<not> before p d e))"

definition writes_of :: "sub_dag_proposal \<Rightarrow> tool_registry \<Rightarrow> string \<Rightarrow> string set" where
  "writes_of p reg i = (case declared_tool p reg i of None \<Rightarrow> {} | Some t \<Rightarrow> set (nullish (td_writes t) []))"

definition related :: "sub_dag_proposal \<Rightarrow> tool_registry \<Rightarrow> string \<Rightarrow> string \<Rightarrow> string \<Rightarrow> bool" where
  "related p reg x y z \<longleftrightarrow> pivot p reg z \<and> (z = x \<or> z = y \<or> before p x z \<or> before p y z)"

definition spec_parallel_writes :: "sub_dag_proposal \<Rightarrow> tool_registry \<Rightarrow> bool" where
  "spec_parallel_writes p reg \<longleftrightarrow>
     (\<forall>x y. parallel p x y \<longrightarrow> writes_of p reg x \<inter> writes_of p reg y \<noteq> {} \<longrightarrow>
        (\<exists>z. related p reg x y z) \<longrightarrow>
        (\<exists>b. barrier p b \<and> before p x b \<and> before p y b \<and> (\<forall>z. related p reg x y z \<longrightarrow> before p b z)))"

definition companion_ok :: "tool_registry \<Rightarrow> string option \<Rightarrow> bool" where
  "companion_ok reg n \<longleftrightarrow>
     (\<exists>t d. n = Some t \<and> t \<noteq> [] \<and> map_get reg t = Some d \<and> td_idempotentRetryable d)"

definition spec_registry :: "tool_registry \<Rightarrow> bool" where
  "spec_registry reg \<longleftrightarrow>
     (\<forall>(n, d)\<in>set reg.
        (td_mode d = Saga \<longrightarrow> companion_ok reg (td_compensateTool d)) \<and>
        (td_mode d = Tcc \<longrightarrow> companion_ok reg (td_confirmTool d) \<and> companion_ok reg (td_cancelTool d) \<and>
           (\<exists>s > 0. td_tryTimeoutS d = Some s)))"

definition admissible :: "sub_dag_proposal \<Rightarrow> tool_registry \<Rightarrow> scope_snapshot list \<Rightarrow> bool" where
  "admissible p reg existing \<longleftrightarrow>
     spec_registry reg \<and> spec_effects_scoped p reg \<and>
     (\<forall>s\<in>set (sd_scopes p). spec_scope p reg (set (ps_members s))) \<and>
     spec_router_scopes p reg existing \<and> spec_parallel_pivots p reg \<and> spec_no_dirty_read p reg \<and>
     spec_planner_edges p \<and> spec_control_unscoped p \<and> spec_recovery_path p reg \<and>
     spec_parallel_writes p reg"

section \<open>The rules read the context as intended\<close>

lemma registry_validate_empty: "registry_validate reg = [] \<longleftrightarrow> spec_registry reg"
proof -
  have comp: "companion_retryable reg n \<longleftrightarrow> companion_ok reg n" for n
    by (auto simp: companion_retryable_def companion_ok_def split: option.splits)
  have tmo: "(case s of None \<Rightarrow> True | Some t \<Rightarrow> t \<le> 0) \<longleftrightarrow> \<not> (\<exists>t > 0. s = Some t)" for s :: "int option"
    by (cases s) (simp, metis linorder_not_le option.inject option.simps(5))
  show ?thesis
    by (auto simp: registry_validate_def spec_registry_def validate_tool_def comp tmo fires)
qed

lemma foldl_add_violation_empty:
  "foldl add_violation vs us = [] \<longleftrightarrow> vs = [] \<and> us = []"
proof (induction us arbitrary: vs)
  case (Cons u us)
  have "add_violation vs u \<noteq> []" by (auto simp: add_violation_def)
  with Cons show ?case by simp
qed simp

lemma context_scope: "buildContext p reg = Inr c \<Longrightarrow> vertex_scope c i = scope_of p i"
  by (simp add: vertex_scope_def scope_of_def vertex_of_def buildContextD(1))

lemma context_pivots:
  assumes "buildContext p reg = Inr c" and "distinct (map pv_id (sd_vertices p))"
  shows "set (pivotIds c) = {i. pivot p reg i}" and "distinct (pivotIds c)"
proof -
  have d: "distinct (map fst (gc_tools c))"
    using collect_tools_distinct [OF buildContextD(4) [OF assms(1)]] by simp
  show "set (pivotIds c) = {i. pivot p reg i}"
    by (auto simp: pivotIds_def pivot_def context_tools [OF assms, symmetric]
        map_get_distinct [OF d, symmetric] image_iff)
  show "distinct (pivotIds c)" unfolding pivotIds_def using d by (rule distinct_map_filter)
qed
lemma context_tool_pairs:
  assumes "buildContext p reg = Inr c" and "distinct (map pv_id (sd_vertices p))"
  shows "(i, t) \<in> set (gc_tools c) \<longleftrightarrow> declared_tool p reg i = Some t"
  using collect_tools_distinct [OF buildContextD(4) [OF assms(1)]] context_tools [OF assms]
  by (simp add: map_get_distinct)

lemma proposal_vertex_pairs: "(i, v) \<in> set (proposal_vertices p) \<longleftrightarrow> vertex_of p i = Some v"
  unfolding vertex_of_def proposal_vertices_def by (rule map_get_distinct) (rule distinct_new_map)

lemma vertex_of_id: "vertex_of p i = Some v \<Longrightarrow> pv_id v = i"
proof -
  assume "vertex_of p i = Some v"
  then have "(i, v) \<in> set (rev (map (\<lambda>v. (pv_id v, v)) (sd_vertices p)))"
    unfolding vertex_of_def proposal_vertices_def map_get_new_map by (rule map_of_SomeD)
  then show "pv_id v = i" by auto
qed

lemma edges_iff: "(i, q) \<in> edges p \<longleftrightarrow> (\<exists>v. vertex_of p i = Some v \<and> q \<in> set (pv_parents v))"
  by (cases "map_get (proposal_vertices p) i")
    (simp_all add: edges_def parent_edges_def parents_in_def vertex_of_def)

lemma context_members:
  assumes "buildContext p reg = Inr c" and "distinct (map ps_id (sd_scopes p))" and "s \<in> set (sd_scopes p)"
  shows "scope_members c s = new_set (ps_members s)"
proof -
  have "map_get (gc_scopeMembers c) (ps_id s) = Some (new_set (ps_members s))"
    unfolding buildContextD(5) [OF assms(1)] using assms(2,3)
    by (subst map_get_new_map_distinct) (auto simp: comp_def intro!: map_of_is_SomeI)
  then show ?thesis by (simp add: scope_members_def)
qed

lemma rule_R10_empty:
  assumes "buildContext p reg = Inr c" and "distinct (map pv_id (sd_vertices p))"
  shows "rule_R10 c = [] \<longleftrightarrow> spec_effects_scoped p reg"
  by (auto simp: rule_R10_def fires context_tool_pairs [OF assms] context_scope [OF assms(1)]
      spec_effects_scoped_def)

lemma intersects_iff: "intersects xs ys \<longleftrightarrow> set xs \<inter> set ys \<noteq> {}"
  by (auto simp: intersects_def)

lemmas context_facts = buildContextD(1-3) reaches_entries context_tools context_pivots context_members
  context_scope

lemma length_gt_one: "distinct xs \<Longrightarrow> \<not> length xs > 1 \<longleftrightarrow> (\<forall>x\<in>set xs. \<forall>y\<in>set xs. x = y)"
  by (cases xs; cases "tl xs") auto

lemma rule_scope_empty:
  assumes "buildContext p reg = Inr c" and "unique_ids p" and "s \<in> set (sd_scopes p)"
  shows "rule_scope c s = [] \<longleftrightarrow> spec_scope p reg (set (ps_members s))"
proof -
  have v: "distinct (map pv_id (sd_vertices p))" and sc: "distinct (map ps_id (sd_scopes p))"
    using assms(2) by (simp_all add: unique_ids_def)
  note C = context_tools [OF assms(1) v] buildContextD(2,3) [OF assms(1)] reaches_entries intersects_iff
    context_members [OF assms(1) sc assms(3)]
  define M where "M = set (ps_members s)"
  have piv: "set (scope_pivots c s) = {x \<in> M. pivot p reg x}" and d: "distinct (scope_pivots c s)"
    using context_pivots [OF assms(1) v] by (auto simp: scope_pivots_def C M_def)
  have R3: "\<not> length (scope_pivots c s) > 1 \<longleftrightarrow> (\<forall>x\<in>M. \<forall>y\<in>M. pivot p reg x \<longrightarrow> pivot p reg y \<longrightarrow> x = y)"
    using length_gt_one [OF d] piv by auto
  have R12: "rule_member c x m = [] \<longleftrightarrow> (\<forall>t. declared_tool p reg m = Some t \<longrightarrow>
      (before p m x \<longrightarrow> td_effectClass t \<noteq> EffNone \<longrightarrow> isUndoable t) \<and>
      (before p x m \<longrightarrow> td_idempotentRetryable t))" for x m
    by (cases "declared_tool p reg m") (auto simp: rule_member_def C)
  have R11: "rule_R11 c s x = [] \<longleftrightarrow> (\<forall>a t xt. before p a x \<longrightarrow> declared_tool p reg a = Some t \<longrightarrow>
      declared_tool p reg x = Some xt \<longrightarrow> td_effectClass t = Reversible \<longrightarrow>
      set (td_footprint t) \<inter> set (td_footprint xt) \<noteq> {} \<longrightarrow> a \<in> M)" for x
    by (cases "declared_tool p reg x") (fastforce simp: rule_R11_def fires C M_def split: option.splits)+
  have "rule_scope c s = [] \<longleftrightarrow> \<not> length (scope_pivots c s) > 1 \<and>
      (\<forall>x\<in>{x \<in> M. pivot p reg x}. (\<forall>m\<in>M. rule_member c x m = []) \<and> rule_R11 c s x = [])"
    by (auto simp: rule_scope_def Let_def fires piv C(6) M_def)
  then show ?thesis unfolding spec_scope_def M_def [symmetric] R3 R12 R11 by blast
qed
lemma ball_vertices:
  "(\<forall>x\<in>set (proposal_vertices p). Q x) \<longleftrightarrow> (\<forall>i v. vertex_of p i = Some v \<longrightarrow> Q (i, v))"
  by (auto simp: proposal_vertex_pairs [symmetric])

lemma bex_vertices:
  "(\<exists>x\<in>set (proposal_vertices p). Q x) \<longleftrightarrow> (\<exists>i v. vertex_of p i = Some v \<and> Q (i, v))"
  by (auto simp: proposal_vertex_pairs [symmetric])

lemma rule_routers_empty:
  assumes "buildContext p reg = Inr c" and "unique_ids p"
  shows "rule_routers c p existing = [] \<longleftrightarrow> spec_router_scopes p reg existing"
proof -
  have v: "distinct (map pv_id (sd_vertices p))" and sc: "distinct (map ps_id (sd_scopes p))"
    using assms(2) by (simp_all add: unique_ids_def)
  have router: "routerIds c \<noteq> [] \<longleftrightarrow> (\<exists>i. kind_of p i = Some KRouter)"
    by (simp add: routerIds_def buildContextD(1) [OF assms(1)] filter_empty_conv bex_vertices kind_of_def)
  have len: "length (scope_pivots c s) = card {x \<in> set (ps_members s). pivot p reg x}"
    if "s \<in> set (sd_scopes p)" for s
  proof -
    have "set (scope_pivots c s) = {x \<in> set (ps_members s). pivot p reg x}"
      and "distinct (scope_pivots c s)"
      using context_pivots [OF assms(1) v]
      by (auto simp: scope_pivots_def context_members [OF assms(1) sc that])
    then show ?thesis by (metis distinct_card)
  qed
  have half: "filter (\<lambda>x. ss_state x = SHalfOpen) existing \<noteq> [] \<longleftrightarrow>
      (\<exists>e\<in>set existing. ss_state e = SHalfOpen)"
    by (simp add: filter_empty_conv)
  have one: "rule_router_scope c existing s = [] \<longleftrightarrow>
      ((\<exists>e\<in>set existing. ss_state e = SHalfOpen) \<longrightarrow> ps_id s \<in> ss_scopeId ` set existing) \<and>
      (\<forall>e. find (\<lambda>x. ss_scopeId x = ps_id s) existing = Some e \<longrightarrow>
         ss_pivotCount e + card {x \<in> set (ps_members s). pivot p reg x} \<le> 1)"
    if "s \<in> set (sd_scopes p)" for s
    unfolding rule_router_scope_def Let_def half len [OF that]
    by (cases "find (\<lambda>x. ss_scopeId x = ps_id s) existing") auto
  show ?thesis
    unfolding rule_routers_def spec_router_scopes_def router by (simp add: fires one)
qed

lemma rule_R5_empty:
  assumes "buildContext p reg = Inr c" and "distinct (map pv_id (sd_vertices p))"
  shows "rule_R5 c = [] \<longleftrightarrow> spec_parallel_pivots p reg"
proof -
  define safe where "safe x y \<longleftrightarrow> (\<not> before p x y \<longrightarrow> \<not> before p y x \<longrightarrow>
      (\<exists>b v. vertex_of p b = Some v \<and> pv_kind v = KBarrier \<and> length (pv_parents v) \<ge> 2 \<and>
         before p b x \<and> before p b y))" for x y
  have sym: "safe x y \<longleftrightarrow> safe y x" for x y by (auto simp: safe_def)
  have bar: "hasConfirmationBarrier c [x, y] \<longleftrightarrow>
      (\<exists>b v. vertex_of p b = Some v \<and> pv_kind v = KBarrier \<and> length (pv_parents v) \<ge> 2 \<and>
         before p b x \<and> before p b y)" for x y
    using vertex_of_id [of p]
    by (fastforce simp: hasConfirmationBarrier_def buildContextD(1,2) [OF assms(1)] reaches_entries
        proposal_vertex_pairs)
  have "rule_R5 c = [] \<longleftrightarrow> (\<forall>q\<in>set (index_pairs (pivotIds c)). safe (fst q) (snd q))"
    by (auto simp: rule_R5_def fires reaches_entries buildContextD(2) [OF assms(1)] bar safe_def)
  also have "\<dots> \<longleftrightarrow> (\<forall>x\<in>{x. pivot p reg x}. \<forall>y\<in>{x. pivot p reg x}. x \<noteq> y \<longrightarrow> safe x y)"
    using index_pairs_sym [OF context_pivots(2) [OF assms], of safe] sym context_pivots(1) [OF assms]
    by simp
  finally show ?thesis by (auto simp: spec_parallel_pivots_def parallel_def safe_def)
qed

lemma rule_R7_empty:
  assumes "buildContext p reg = Inr c" and "distinct (map pv_id (sd_vertices p))"
  shows "rule_R7 c = [] \<longleftrightarrow> spec_no_dirty_read p reg"
proof -
  have dirty: "dirty_edge c v q \<longleftrightarrow> (\<exists>w. vertex_of p q = Some w \<and> pv_kind w = KTool \<and>
      present (pv_scopeId w) \<and> present (pv_scopeId v) \<and> pv_scopeId w \<noteq> pv_scopeId v \<and>
      \<not> pv_confirmedOutput w \<and> \<not> (\<exists>t. declared_tool p reg q = Some t \<and> td_effectClass t = EffNone))" for v q
    unfolding dirty_edge_def buildContextD(1) [OF assms(1)] vertex_of_def [symmetric] tool_effect_def
      context_tools [OF assms]
    by (cases "vertex_of p q"; cases "declared_tool p reg q") auto
  have "rule_R7 c = [] \<longleftrightarrow>
      (\<forall>i v. vertex_of p i = Some v \<longrightarrow> (\<forall>q\<in>set (pv_parents v). \<not> dirty_edge c v q))"
    by (simp add: rule_R7_def fires buildContextD(1) [OF assms(1)] ball_vertices)
  then show ?thesis
    unfolding spec_no_dirty_read_def edges_iff dirty scope_of_def by fastforce
qed

lemma rule_R14_empty:
  assumes "buildContext p reg = Inr c"
  shows "rule_R14 c = [] \<longleftrightarrow> spec_planner_edges p"
proof -
  have k: "vertex_kind_is c KTool q \<longleftrightarrow> kind_of p q = Some KTool" for q
    unfolding vertex_kind_is_def buildContextD(1) [OF assms] kind_of_def vertex_of_def
    by (cases "map_get (proposal_vertices p) q") auto
  have "rule_R14 c = [] \<longleftrightarrow> (\<forall>i v. vertex_of p i = Some v \<longrightarrow> pv_kind v = KPlanner \<longrightarrow>
      (\<forall>q\<in>set (pv_parents v). kind_of p q \<noteq> Some KTool))"
    by (simp add: rule_R14_def fires buildContextD(1) [OF assms] ball_vertices k)
  then show ?thesis
    unfolding spec_planner_edges_def edges_iff by (auto simp: kind_of_def)
qed

lemma rule_R12_empty:
  assumes "buildContext p reg = Inr c"
  shows "rule_R12 c p = [] \<longleftrightarrow> spec_control_unscoped p"
proof -
  have "rule_R12 c p = [] \<longleftrightarrow> (\<forall>i v. vertex_of p i = Some v \<longrightarrow> pv_kind v \<noteq> KTool \<longrightarrow> pv_kind v \<noteq> KBarrier \<longrightarrow>
      \<not> present (pv_scopeId v) \<and> (\<forall>s\<in>set (sd_scopes p). i \<notin> set (ps_members s)))"
    by (auto simp: rule_R12_def fires buildContextD(1) [OF assms] ball_vertices)
  moreover have "k \<noteq> KTool \<and> k \<noteq> KBarrier \<longleftrightarrow> k = KPlanner \<or> k = KRouter" for k by (cases k) auto
  ultimately show ?thesis by (fastforce simp: spec_control_unscoped_def kind_of_def scope_of_def)
qed

lemma rule_R8_empty:
  assumes "buildContext p reg = Inr c" and "distinct (map pv_id (sd_vertices p))"
  shows "rule_R8 c = [] \<longleftrightarrow> spec_recovery_path p reg"
proof -
  have "length (entries (gc_descendants c) d) > 0 \<longleftrightarrow> (\<exists>e. before p d e)" for d
    using buildContextD(3) [OF assms(1), of d] by (metis empty_Collect_eq length_greater_0_conv set_empty)
  then show ?thesis
    by (auto simp: rule_R8_def fires context_pivots(1) [OF assms] buildContextD(3) [OF assms(1)]
        context_scope [OF assms(1)] tool_effect_def context_tools [OF assms] spec_recovery_path_def)
qed

lemma rule_R9_empty:
  assumes "buildContext p reg = Inr c" and "distinct (map pv_id (sd_vertices p))"
  shows "rule_R9 c = [] \<longleftrightarrow> spec_parallel_writes p reg"
proof -
  have rel: "set (related_pivots c x y) = {z. related p reg x y z}" for x y
    by (auto simp: related_pivots_def related_def context_pivots(1) [OF assms] reaches_entries
        buildContextD(3) [OF assms(1)])
  then have some: "related_pivots c x y \<noteq> [] \<longleftrightarrow> (\<exists>z. related p reg x y z)" for x y
    by (metis (mono_tags, lifting) empty_Collect_eq set_empty)
  have bar: "protectedByBarrier c x y \<longleftrightarrow> (\<exists>b. barrier p b \<and> before p x b \<and> before p y b \<and>
      (\<forall>z. related p reg x y z \<longrightarrow> before p b z))" for x y
    using vertex_of_id [of p]
    by (fastforce simp: protectedByBarrier_def buildContextD(1,2) [OF assms(1)] reaches_entries
        proposal_vertex_pairs rel barrier_def)
  have w: "intersects (tool_writes c x) (tool_writes c y) \<longleftrightarrow> writes_of p reg x \<inter> writes_of p reg y \<noteq> {}" for x y
    unfolding intersects_iff tool_writes_def writes_of_def context_tools [OF assms]
    by (cases "declared_tool p reg x"; cases "declared_tool p reg y") simp_all
  define safe where "safe x y \<longleftrightarrow> \<not> write_conflict c x y" for x y
  have wc: "write_conflict c x y \<longleftrightarrow> writes_of p reg x \<inter> writes_of p reg y \<noteq> {} \<and>
      \<not> before p y x \<and> \<not> before p x y \<and> (\<exists>z. related p reg x y z) \<and>
      \<not> (\<exists>b. barrier p b \<and> before p x b \<and> before p y b \<and> (\<forall>z. related p reg x y z \<longrightarrow> before p b z))" for x y
    unfolding write_conflict_def w some bar by (simp add: reaches_entries buildContextD(2) [OF assms(1)])
  have relsym: "related p reg x y z \<longleftrightarrow> related p reg y x z" for x y z by (auto simp: related_def)
  have sym: "safe x y \<longleftrightarrow> safe y x" for x y
    unfolding safe_def wc relsym [of x y] by blast
  have keys: "set (map fst (gc_tools c)) = {i. declared_tool p reg i \<noteq> None}"
    using context_tool_pairs [OF assms] by force
  have d: "distinct (map fst (gc_tools c))"
    using collect_tools_distinct [OF buildContextD(4) [OF assms(1)]] by simp
  have out: "writes_of p reg x = {}" if "declared_tool p reg x = None" for x
    using that by (simp add: writes_of_def)
  have "rule_R9 c = [] \<longleftrightarrow> (\<forall>q\<in>set (index_pairs (map fst (gc_tools c))). safe (fst q) (snd q))"
    by (auto simp: rule_R9_def fires safe_def)
  also have "\<dots> \<longleftrightarrow> (\<forall>x y. declared_tool p reg x \<noteq> None \<longrightarrow> declared_tool p reg y \<noteq> None \<longrightarrow> x \<noteq> y \<longrightarrow> safe x y)"
    by (subst index_pairs_sym [OF d, of safe, OF sym]) (unfold keys, blast)
  finally show ?thesis
    unfolding safe_def wc spec_parallel_writes_def parallel_def using out by (metis Int_empty_left Int_empty_right)
qed


section \<open>Freeze admission\<close>

definition placement_ok :: "slot_placement_context \<Rightarrow> scope_snapshot list \<Rightarrow> admissible_branch \<Rightarrow> bool" where
  "placement_ok slot existing b \<longleftrightarrow>
     (if sp_placement slot = InsideScope then
        \<not> ab_opensScope b \<and>
        (ab_hasPivot b \<longrightarrow> (\<forall>e. find (\<lambda>s. ss_state s = SHalfOpen) existing = Some e \<longrightarrow> ss_pivotCount e = 0))
      else ab_maxEffect b \<noteq> EffNone \<longrightarrow> ab_opensScope b)"

definition branch_admissible ::
    "slot_placement_context \<Rightarrow> scope_snapshot list \<Rightarrow> admissible_branch \<Rightarrow> bool" where
  "branch_admissible slot existing b \<longleftrightarrow>
     (sp_isReadOnlyContext slot \<longrightarrow> ab_maxEffect b = EffNone) \<and>
     missing_tools (sp_roleToolView slot) (ab_subDag b) = [] \<and> placement_ok slot existing b \<and>
     admissible (ab_subDag b) (sp_roleToolView slot) existing"

lemma placement_violations_empty:
  "placement_violations slot existing i b = [] \<longleftrightarrow> placement_ok slot existing b"
  by (cases "find (\<lambda>s. ss_state s = SHalfOpen) existing")
    (auto simp: placement_violations_def placement_ok_def)

lemma derivePlacement_savepoint:
  "derivePlacement existing = AtSavepoint \<Longrightarrow> find unclosed existing = None"
  by (auto simp: derivePlacement_def find_None_iff split: if_splits)

lemma checkSubDag_decides:
  assumes "checkSubDag p reg existing = Inr r" and "unique_ids p"
  shows "cr_accepted r \<longleftrightarrow> admissible p reg existing" and "cr_accepted r \<longleftrightarrow> cr_violations r = []"
proof -
  obtain c where c: "buildContext p reg = Inr c"
    and r: "r = check_result_of (foldl add_violation (registry_validate reg) (rule_reports c p existing))"
    using assms(1) by (auto simp: checkSubDag_def bind_res_Inr)
  have v: "distinct (map pv_id (sd_vertices p))" using assms(2) by (simp add: unique_ids_def)
  show "cr_accepted r \<longleftrightarrow> admissible p reg existing"
    unfolding r admissible_def
    by (simp add: check_result_of_def foldl_add_violation_empty rule_reports_def fires
        registry_validate_empty rule_R10_empty [OF c v] rule_scope_empty [OF c assms(2)]
        rule_routers_empty [OF c assms(2)] rule_R5_empty [OF c v] rule_R7_empty [OF c v]
        rule_R14_empty [OF c] rule_R12_empty [OF c] rule_R8_empty [OF c v] rule_R9_empty [OF c v])
  show "cr_accepted r \<longleftrightarrow> cr_violations r = []" by (simp add: r check_result_of_def)
qed

lemma branch_violations_empty:
  assumes "branch_violations slot existing (i, b) = Inr vs" and "unique_ids (ab_subDag b)"
  shows "vs = [] \<longleftrightarrow> branch_admissible slot existing b"
proof (cases "sp_isReadOnlyContext slot \<and> ab_maxEffect b \<noteq> EffNone \<or>
    missing_tools (sp_roleToolView slot) (ab_subDag b) \<noteq> []")
  case True
  then show ?thesis using assms(1)
    by (auto simp: branch_violations_def branch_admissible_def split: if_splits)
next
  case False
  then obtain r where r: "checkSubDag (ab_subDag b) (sp_roleToolView slot) existing = Inr r"
    and vs: "vs = placement_violations slot existing i b @
      map (\<lambda>v. v\<lparr>cv_message := branch_prefix i @ '': '' @ cv_message v\<rparr>) (cr_violations r)"
    using assms(1) by (auto simp: branch_violations_def bind_res_Inr)
  show ?thesis using False checkSubDag_decides [OF r assms(2)]
    by (auto simp: vs placement_violations_empty branch_admissible_def)
qed

section \<open>A concrete bracket\<close>

text \<open>A reservation that is tried, a payment that is its pivot and a retryable notification, in one
  scope behind one another, over a registry with the try's companions.\<close>

definition wit_tool :: "string \<Rightarrow> effect_class \<Rightarrow> tool_mode \<Rightarrow> string list \<Rightarrow> tool_definition" where
  "wit_tool n e m fp =
     \<lparr>td_name = n, td_effectClass = e, td_mode = m, td_idempotentRetryable = True, td_footprint = fp,
      td_writes = Some fp, td_compensateTool = None,
      td_confirmTool = (if m = Tcc then Some ''confirm'' else None),
      td_cancelTool = (if m = Tcc then Some ''cancel'' else None),
      td_tryTimeoutS = (if m = Tcc then Some 30 else None)\<rparr>"

definition wit_registry :: tool_registry where
  "wit_registry =
     [(''confirm'', wit_tool ''confirm'' Bufferable Plain [''seat'']),
      (''cancel'', wit_tool ''cancel'' Reversible Plain [''seat'']),
      (''reserve'', wit_tool ''reserve'' Reversible Tcc [''seat'']),
      (''pay'', wit_tool ''pay'' Irreversible Plain [''seat'']),
      (''notify'', wit_tool ''notify'' Bufferable Plain [''mail''])]"

definition wit_vertex :: "string \<Rightarrow> string \<Rightarrow> string list \<Rightarrow> proposal_vertex" where
  "wit_vertex i n ps =
     \<lparr>pv_id = i, pv_parents = ps, pv_kind = KTool, pv_tool = Some n, pv_scopeId = Some ''s'',
      pv_confirmedOutput = False, pv_templateRef = None\<rparr>"

definition wit_proposal :: sub_dag_proposal where
  "wit_proposal =
     \<lparr>sd_vertices = [wit_vertex ''a'' ''reserve'' [], wit_vertex ''b'' ''pay'' [''a''],
                     wit_vertex ''c'' ''notify'' [''b'']],
      sd_scopes = [\<lparr>ps_id = ''s'', ps_members = [''a'', ''b'', ''c'']\<rparr>]\<rparr>"

lemma wit_accepted: "checkSubDag wit_proposal wit_registry [] = Inr (check_result_of [])"
  by code_simp

lemma wit_unique: "unique_ids wit_proposal"
  by (simp add: unique_ids_def wit_proposal_def wit_vertex_def)

definition wit_slot :: slot_placement_context where
  "wit_slot = \<lparr>sp_placement = AtSavepoint, sp_isReadOnlyContext = False, sp_roleToolView = wit_registry\<rparr>"

definition wit_branch :: admissible_branch where
  "wit_branch = \<lparr>ab_condition = ''seats == 1'', ab_subDag = wit_proposal, ab_opensScope = True,
     ab_hasPivot = True, ab_maxEffect = Irreversible\<rparr>"

section \<open>Properties\<close>

text \<open>C1: the checker decides the declarative admission rules.  For a proposal with unique vertex and
  scope ids that the checker does not throw on, it accepts exactly when the registry satisfies R4 and
  R6 and the graph satisfies R1-R3, R5, R7-R12 and R14 as stated over the transitive closure of its
  parent edges.\<close>

theorem checkSubDag_accepts:
  assumes "checkSubDag p reg existing = Inr r" and "unique_ids p"
  shows "cr_accepted r \<longleftrightarrow> admissible p reg existing"
  using checkSubDag_decides(1) [OF assms] .

theorem checkSubDag_accepts_witness: "admissible wit_proposal wit_registry []"
  using checkSubDag_accepts [OF wit_accepted wit_unique] by (simp add: check_result_of_def)

text \<open>C2: the checker returns a verdict exactly on a well-formed proposal: every named tool is
  registered and named by a tool vertex, every parent is a vertex of the proposal, and the parent
  edges have no cycle.  In every other case it throws.\<close>

theorem checkSubDag_returns_iff:
  "(\<exists>r. checkSubDag p reg existing = Inr r) \<longleftrightarrow> well_formed p reg"
  by (simp add: checkSubDag_def bind_res_Inr buildContext_iff [symmetric])

lemma collect_tools_error:
  "collect_tools reg vs tools = Inl e \<Longrightarrow> \<exists>v\<in>set vs. present (pv_tool v) \<and>
     (pv_kind v \<noteq> KTool \<and> e = Error (pv_id v @ '' is a '' @ kind_str (pv_kind v) @ '' and must not name a tool'') \<or>
      \<not> map_has reg (the (pv_tool v)) \<and> e = Error (''unknown tool: '' @ the (pv_tool v)))"
  by (induction vs arbitrary: tools)
    (auto simp: registry_get_def map_has_iff split: option.splits if_splits)

text \<open>Every error the checker throws names a real defect of the proposal: a non-tool vertex with
  a tool, a tool the registry does not hold, a vertex that is its own ancestor, or a parent that is no
  vertex.\<close>

lemma checkSubDag_error_sound:
  assumes "checkSubDag p reg existing = Inl e"
  shows "(\<exists>v\<in>set (sd_vertices p). present (pv_tool v) \<and> pv_kind v \<noteq> KTool \<and>
            e = Error (pv_id v @ '' is a '' @ kind_str (pv_kind v) @ '' and must not name a tool'')) \<or>
         (\<exists>v\<in>set (sd_vertices p). present (pv_tool v) \<and> \<not> registry_has reg (the (pv_tool v)) \<and>
            e = Error (''unknown tool: '' @ the (pv_tool v))) \<or>
         (\<exists>i. before p i i \<and> e = Error (''proposal contains a cycle at '' @ i)) \<or>
         (\<exists>i q. (i, q) \<in> edges p \<and> q \<notin> pv_id ` set (sd_vertices p) \<and>
            e = Error (''unknown parent '' @ q @ '' for '' @ i))"
proof (cases "collect_tools reg (sd_vertices p) []")
  case (Inl e')
  then have "e' = e" using assms by (simp add: checkSubDag_def buildContext_def Let_def)
  with collect_tools_error [OF Inl] show ?thesis unfolding registry_has_def by blast
next
  case (Inr t)
  then have "visit_all (proposal_vertices p) (map fst (proposal_vertices p)) [] = Inl e"
    using assms by (auto simp: checkSubDag_def buildContext_def Let_def bind_res_def split: sum.splits)
  then have "graph_error (proposal_vertices p) e" by (rule visit_all_errors)
  then show ?thesis
    unfolding graph_error_def before_def edges_def mkeys_proposal_vertices by blast
qed

definition wit_loop :: sub_dag_proposal where
  "wit_loop = \<lparr>sd_vertices = [wit_vertex ''a'' ''notify'' [''a'']], sd_scopes = []\<rparr>"

lemma wit_loop_throws:
  "checkSubDag wit_loop wit_registry [] = Inl (Error ''proposal contains a cycle at a'')"
  by code_simp

text \<open>A pivot never runs beside a conflicting write.  In an accepted proposal two unordered
  vertices that write a common resource are both non-pivots: no barrier can stand between a pivot and
  itself, so the exception R9 makes for a barrier does not apply.\<close>

lemma accepted_pivot_writes_ordered:
  assumes "checkSubDag p reg existing = Inr r" and "cr_accepted r" and "unique_ids p"
    and "pivot p reg x" and "x \<noteq> y" and "writes_of p reg x \<inter> writes_of p reg y \<noteq> {}"
  shows "before p x y \<or> before p y x"
proof (rule ccontr)
  assume par: "\<not> (before p x y \<or> before p y x)"
  have "spec_parallel_writes p reg"
    using checkSubDag_decides(1) [OF assms(1,3)] assms(2) by (simp add: admissible_def)
  then obtain b where b: "before p x b" "before p b x"
    using par assms(4-6) unfolding spec_parallel_writes_def parallel_def related_def by metis
  have "acyclic (edges p)"
    using assms(1) buildContext_iff [of p reg] by (auto simp: checkSubDag_def bind_res_Inr well_formed_def)
  with b show False unfolding before_def acyclic_def by (meson trancl_trans)
qed

lemma wit_tools:
  "declared_tool wit_proposal wit_registry ''a'' = Some (wit_tool ''reserve'' Reversible Tcc [''seat''])"
  "declared_tool wit_proposal wit_registry ''b'' = Some (wit_tool ''pay'' Irreversible Plain [''seat''])"
  by code_simp+

text \<open>C3: with the placement derived from the recorded scopes, freeze admission accepts a template
  exactly when every branch is admissible where its router sits: no effect in a read-only context, no
  tool outside the role's view, no fresh scope or second pivot inside an open scope, a scope around
  any effect at a savepoint, and the rules of its own sub-DAG.\<close>

theorem checkFreezeAdmission_accepts:
  assumes "checkFreezeAdmission branches slot existing = Inr r"
    and "sp_placement slot = derivePlacement existing"
    and "\<forall>b\<in>set branches. unique_ids (ab_subDag b)"
  shows "cr_accepted r \<longleftrightarrow> (\<forall>b\<in>set branches. branch_admissible slot existing b)"
proof -
  obtain vss where vss: "map_res (branch_violations slot existing) (enumerate 0 branches) = Inr vss"
    and r: "r = check_result_of (concat vss)"
    using assms(1,2) derivePlacement_savepoint [of existing]
    by (auto simp: checkFreezeAdmission_def bind_res_Inr split: option.splits if_splits)
  have len: "length vss = length branches"
    using vss by (auto simp: map_res_Inr dest: list_all2_lengthD)
  have nth: "vss ! i = [] \<longleftrightarrow> branch_admissible slot existing (branches ! i)" if "i < length branches" for i
    using vss that branch_violations_empty [of slot existing i "branches ! i" "vss ! i"] assms(3)
    by (auto simp: map_res_Inr list_all2_conv_all_nth nth_enumerate_eq)
  have "concat vss = [] \<longleftrightarrow> (\<forall>i < length branches. vss ! i = [])"
    by (simp add: len [symmetric] all_set_conv_all_nth)
  also have "\<dots> \<longleftrightarrow> (\<forall>b\<in>set branches. branch_admissible slot existing b)"
    using nth by (simp add: all_set_conv_all_nth)
  finally show ?thesis by (simp add: r check_result_of_def)
qed

theorem checkFreezeAdmission_accepts_witness: "branch_admissible wit_slot [] wit_branch"
proof -
  have "checkFreezeAdmission [wit_branch] wit_slot [] = Inr (check_result_of [])" by code_simp
  moreover have "sp_placement wit_slot = derivePlacement []" by code_simp
  moreover have "\<forall>b\<in>set [wit_branch]. unique_ids (ab_subDag b)"
    using wit_unique by (simp add: wit_branch_def)
  ultimately show ?thesis
    using checkFreezeAdmission_accepts by (fastforce simp: check_result_of_def)
qed

text \<open>The runtime gate admits a freeze exactly when no scope of the snapshot is blocked, and
  otherwise reports one R12 violation per blocked scope, in the snapshot's order.\<close>

lemma checkScopeAdmission_blocks:
  "(cr_accepted (checkScopeAdmission existing) \<longleftrightarrow> list_all (\<lambda>s. ss_admissionBlock s = None) existing) \<and>
   map cv_message (cr_violations (checkScopeAdmission existing)) =
     map (\<lambda>s. ''scope '' @ ss_scopeId s @ '' admits no new work: '' @ blockReason (the (ss_admissionBlock s)))
       (filter (\<lambda>s. ss_admissionBlock s \<noteq> None) existing) \<and>
   list_all (\<lambda>v. cv_rule v = R12) (cr_violations (checkScopeAdmission existing))"
proof -
  have eq: "cr_violations (checkScopeAdmission existing) =
    map (\<lambda>s. violation R12 (''scope '' @ ss_scopeId s @ '' admits no new work: '' @
      blockReason (the (ss_admissionBlock s))) []) (filter (\<lambda>s. ss_admissionBlock s \<noteq> None) existing)"
    by (auto simp: checkScopeAdmission_def check_result_of_def List.map_filter_def comp_def
        intro: filter_cong)
  have "cr_accepted (checkScopeAdmission existing) \<longleftrightarrow> cr_violations (checkScopeAdmission existing) = []"
    by (simp add: checkScopeAdmission_def check_result_of_def)
  then show ?thesis by (auto simp: eq violation_def filter_empty_conv list_all_iff)
qed

end
