(* ===== verification/Tool_View.thy ===== *)
theory Tool_View
  imports Event_Log Check_Rules
begin

text \<open>
  Published tool views (engine/src/gateway/tool-view.ts): the contract records, the integer-only
  canonical encoding a view is digested by, and the registry the checker receives.  A document is the
  JSON value the gateway served; its typed fields are read from it, as the casts of the source do.
  The hash function is a parameter.
\<close>

section \<open>Contracts\<close>

record tool_view_transaction =
  tx_effect_class :: effect_class
  tx_mode :: tool_mode
  tx_idempotency_key_path :: "string option"
  tx_idempotent_retryable :: bool
  tx_try_timeout_s :: "int option"
  tx_confirm_tool :: "string option"
  tx_cancel_tool :: "string option"
  tx_compensate_tool :: "string option"
  tx_status_tool :: "string option"
  tx_confirm_arguments :: "(string \<times> string) list option"
  tx_cancel_arguments :: "(string \<times> string) list option"
  tx_compensate_arguments :: "(string \<times> string) list option"

record tool_view_retry =
  rt_max_attempts :: int
  rt_initial_backoff_ms :: int
  rt_multiplier_milli :: int
  rt_max_backoff_ms :: int

record tool_view_tool =
  tv_tool_id :: string
  tv_tool_version :: string
  tv_txn :: tool_view_transaction
  tv_footprint :: "string list"
  tv_writes :: "string list"
  tv_retry_constraints :: tool_view_retry
  tv_log_fields :: "string list option"

type_synonym tool_view_document = js

record tool_view_identity =
  vi_tool_view_ref :: string
  vi_tool_view_digest :: string

record resolved_tool_view =
  rv_identity :: tool_view_identity
  rv_document :: tool_view_document
  rv_registry :: tool_registry

subsection \<open>Reading a document\<close>

definition get_member :: "js \<Rightarrow> string \<Rightarrow> js" where
  "get_member v k = (case v of JObj ob \<Rightarrow> member ob k | _ \<Rightarrow> JUndef)"

definition as_int :: "js \<Rightarrow> int option" where
  "as_int v = (case v of JNum r \<Rightarrow> Some \<lfloor>r\<rfloor> | _ \<Rightarrow> None)"

definition effect_of_str :: "string \<Rightarrow> effect_class" where
  "effect_of_str s =
     (if s = ''bufferable'' then Bufferable else if s = ''reversible'' then Reversible
      else if s = ''irreversible'' then Irreversible else EffNone)"

definition effect_str :: "effect_class \<Rightarrow> string" where
  "effect_str e = (case e of EffNone \<Rightarrow> ''none'' | Bufferable \<Rightarrow> ''bufferable''
     | Reversible \<Rightarrow> ''reversible'' | Irreversible \<Rightarrow> ''irreversible'')"

definition mode_of_str :: "string \<Rightarrow> tool_mode" where
  "mode_of_str s = (if s = ''tcc'' then Tcc else if s = ''saga'' then Saga else Plain)"

definition mode_str :: "tool_mode \<Rightarrow> string" where
  "mode_str m = (case m of Plain \<Rightarrow> ''plain'' | Tcc \<Rightarrow> ''tcc'' | Saga \<Rightarrow> ''saga'')"

definition str_field :: "js \<Rightarrow> string \<Rightarrow> string" where
  "str_field v k = nullish (as_string (get_member v k)) []"

definition int_field :: "js \<Rightarrow> string \<Rightarrow> int" where
  "int_field v k = nullish (as_int (get_member v k)) 0"

text \<open>\<open>Object.entries\<close> of a member that maps parameters to argument paths.\<close>

definition arguments_field :: "js \<Rightarrow> string \<Rightarrow> (string \<times> string) list option" where
  "arguments_field v k = (case get_member v k of
     JObj ob \<Rightarrow> Some (List.map_filter (\<lambda>(p, w). map_option (Pair p) (as_string w)) ob) | _ \<Rightarrow> None)"

definition read_txn :: "js \<Rightarrow> tool_view_transaction" where
  "read_txn v =
     \<lparr>tx_effect_class = effect_of_str (str_field v ''effect_class''),
      tx_mode = mode_of_str (str_field v ''mode''),
      tx_idempotency_key_path = as_string (get_member v ''idempotency_key_path''),
      tx_idempotent_retryable = (get_member v ''idempotent_retryable'' = JBool True),
      tx_try_timeout_s = as_int (get_member v ''try_timeout_s''),
      tx_confirm_tool = as_string (get_member v ''confirm_tool''),
      tx_cancel_tool = as_string (get_member v ''cancel_tool''),
      tx_compensate_tool = as_string (get_member v ''compensate_tool''),
      tx_status_tool = as_string (get_member v ''status_tool''),
      tx_confirm_arguments = arguments_field v ''confirm_arguments'',
      tx_cancel_arguments = arguments_field v ''cancel_arguments'',
      tx_compensate_arguments = arguments_field v ''compensate_arguments''\<rparr>"

definition read_retry :: "js \<Rightarrow> tool_view_retry" where
  "read_retry v =
     \<lparr>rt_max_attempts = int_field v ''max_attempts'',
      rt_initial_backoff_ms = int_field v ''initial_backoff_ms'',
      rt_multiplier_milli = int_field v ''multiplier_milli'',
      rt_max_backoff_ms = int_field v ''max_backoff_ms''\<rparr>"

definition read_tool :: "js \<Rightarrow> tool_view_tool" where
  "read_tool v =
     \<lparr>tv_tool_id = str_field v ''tool_id'', tv_tool_version = str_field v ''tool_version'',
      tv_txn = read_txn (get_member v ''txn''), tv_footprint = stringArray (get_member v ''footprint''),
      tv_writes = stringArray (get_member v ''writes''),
      tv_retry_constraints = read_retry (get_member v ''retry_constraints''),
      tv_log_fields = (case get_member v ''log_fields'' of JArr xs \<Rightarrow> Some (stringArray (JArr xs)) | _ \<Rightarrow> None)\<rparr>"

definition document_tools :: "tool_view_document \<Rightarrow> tool_view_tool list" where
  "document_tools d = (case get_member d ''tools'' of JArr xs \<Rightarrow> map read_tool xs | _ \<Rightarrow> [])"

section \<open>The canonical encoding of a view\<close>

definition safe_integer :: "rat \<Rightarrow> bool" where
  "safe_integer r = (of_int \<lfloor>r\<rfloor> = r \<and> \<bar>r\<bar> \<le> 2 ^ 53 - 1)"

text \<open>\<open>codePointAt(0).toString(16).padStart(4, '0')\<close> of a control character.\<close>

definition canonicalizeChar :: "char \<Rightarrow> string" where
  "canonicalizeChar c =
     (let n = of_char c :: nat in
      if c = CHR 0x22 then [CHR 0x5C, CHR 0x22]
      else if c = CHR 0x5C then [CHR 0x5C, CHR 0x5C]
      else if n = 8 then [CHR 0x5C, CHR ''b'']
      else if n = 12 then [CHR 0x5C, CHR ''f'']
      else if n = 10 then [CHR 0x5C, CHR ''n'']
      else if n = 13 then [CHR 0x5C, CHR ''r'']
      else if n = 9 then [CHR 0x5C, CHR ''t'']
      else if n < 32 then
        [CHR 0x5C, CHR ''u''] @
        (let h = (if n < 16 then [hex_char n] else [hex_char (n div 16), hex_char (n mod 16)]) in
         replicate (4 - length h) CHR ''0'' @ h)
      else [c])"

definition canonicalizeString :: "string \<Rightarrow> string" where
  "canonicalizeString s = [CHR 0x22] @ concat (map canonicalizeChar s) @ [CHR 0x22]"

definition defined_members :: "json_object \<Rightarrow> json_object" where
  "defined_members ob = filter (\<lambda>(_, v). v \<noteq> JUndef) ob"

function canonicalize :: "js \<Rightarrow> string res" where
  "canonicalize JUndef = Inl (Error ''canonicalize: unsupported value of type undefined'')"
| "canonicalize JNull = Inr ''null''"
| "canonicalize (JBool b) = Inr (if b then ''true'' else ''false'')"
| "canonicalize (JNum r) =
     (if safe_integer r then Inr (int_str \<lfloor>r\<rfloor>)
      else Inl (Error (''canonicalize: '' @ number_str r @ '' is not a safe integer; tool views are integer-valued'')))"
| "canonicalize (JStr s) = Inr (canonicalizeString s)"
| "canonicalize (JArr xs) =
     bind_res (map_res (\<lambda>x. canonicalize x) xs) (\<lambda>ss. Inr (''['' @ js_join '','' ss @ '']''))"
| "canonicalize (JObj ob) =
     bind_res (map_res (\<lambda>(k, v). bind_res (canonicalize v) (\<lambda>s. Inr (canonicalizeString k @ '':'' @ s)))
                 (sort_key fst (defined_members ob)))
       (\<lambda>ss. Inr (''{'' @ js_join '','' ss @ ''}''))"
  by pat_completeness auto
termination
proof (relation "measure size")
  show "wf (measure size)" by simp
next
  fix xs :: "js list" and x
  assume "x \<in> set xs"
  then have "size x \<le> size_list size xs" by (rule size_list_estimation') simp
  then show "(x, JArr xs) \<in> measure size" by simp
next
  fix ob :: json_object and p k v
  assume p: "p \<in> set (sort_key fst (defined_members ob))" and kv: "(k, v) = p"
  then have "(k, v) \<in> set ob" by (auto simp: defined_members_def)
  then have "size v \<le> size_list (size_prod (\<lambda>_. 0) size) ob"
    by (rule size_list_estimation') simp
  then show "(v, JObj ob) \<in> measure size" by simp
qed

text \<open>The content address and the object name of a view; \<open>sha256\<close> is the hexadecimal hash.\<close>

definition digestOf :: "(string \<Rightarrow> string) \<Rightarrow> string \<Rightarrow> string" where
  "digestOf sha256 canonical = ''sha256:'' @ sha256 canonical"

definition canonicalizeToolView :: "tool_view_document \<Rightarrow> string res" where
  "canonicalizeToolView d = canonicalize d"

definition toolViewDigest :: "(string \<Rightarrow> string) \<Rightarrow> tool_view_document \<Rightarrow> string res" where
  "toolViewDigest sha256 d = bind_res (canonicalizeToolView d) (\<lambda>c. Inr (digestOf sha256 c))"

text \<open>\<open>digest.replace(':', '-')\<close> replaces the first colon only.\<close>

fun replace_first :: "char \<Rightarrow> char \<Rightarrow> string \<Rightarrow> string" where
  "replace_first a b [] = []"
| "replace_first a b (c # cs) = (if c = a then b # cs else c # replace_first a b cs)"

definition toolViewRef :: "string \<Rightarrow> string" where
  "toolViewRef digest = ''tool-views/'' @ replace_first CHR '':'' CHR ''-'' digest @ ''.json''"

definition parseToolView ::
    "(string \<Rightarrow> string) \<Rightarrow> (string \<Rightarrow> js res) \<Rightarrow> string \<Rightarrow> string option \<Rightarrow>
     (tool_view_document \<times> tool_view_identity) res" where
  "parseToolView sha256 json_parse canonical expectedDigest =
     bind_res (json_parse canonical) (\<lambda>document.
     bind_res (toolViewDigest sha256 document) (\<lambda>digest.
     if expectedDigest \<noteq> None \<and> Some digest \<noteq> expectedDigest
     then Inl (Error (''parseToolView: document canonicalises to '' @ digest @ '', not '' @ the expectedDigest))
     else Inr (document, \<lparr>vi_tool_view_ref = toolViewRef digest, vi_tool_view_digest = digest\<rparr>)))"

section \<open>The registry of a view\<close>

definition is_lower_hex :: "char \<Rightarrow> bool" where
  "is_lower_hex c = (is_digit c \<or> (97 \<le> (of_char c :: nat) \<and> (of_char c :: nat) \<le> 102))"

text \<open>\<open>/^sha256:[0-9a-f]{64}$/\<close>.\<close>

definition is_sha256_digest :: "string \<Rightarrow> bool" where
  "is_sha256_digest s =
     (take 7 s = ''sha256:'' \<and> length (drop 7 s) = 64 \<and> list_all is_lower_hex (drop 7 s))"

definition versionsByTool :: "tool_view_tool list \<Rightarrow> (string, string list) js_map" where
  "versionsByTool tools = foldl (\<lambda>m t. map_set (tv_tool_id t)
     (nullish (map_get m (tv_tool_id t)) [] @ [tv_tool_version t]) m) [] tools"

text \<open>\<open>...(x ? {k: x} : {})\<close> on a string field and on a number field.\<close>

definition truthy_string :: "string option \<Rightarrow> string option" where
  "truthy_string s = (if present s then s else None)"

definition truthy_int :: "int option \<Rightarrow> int option" where
  "truthy_int n = (if n = Some 0 then None else n)"

definition definition_of :: "tool_view_tool \<Rightarrow> tool_definition" where
  "definition_of t =
     \<lparr>td_name = tv_tool_id t, td_effectClass = tx_effect_class (tv_txn t), td_mode = tx_mode (tv_txn t),
      td_idempotentRetryable = tx_idempotent_retryable (tv_txn t), td_footprint = tv_footprint t,
      td_writes = Some (tv_writes t), td_compensateTool = truthy_string (tx_compensate_tool (tv_txn t)),
      td_confirmTool = truthy_string (tx_confirm_tool (tv_txn t)),
      td_cancelTool = truthy_string (tx_cancel_tool (tv_txn t)),
      td_tryTimeoutS = truthy_int (tx_try_timeout_s (tv_txn t))\<rparr>"

fun register_all :: "tool_registry \<Rightarrow> tool_view_tool list \<Rightarrow> tool_registry res" where
  "register_all reg [] = Inr reg"
| "register_all reg (t # ts) = bind_res (register reg (definition_of t)) (\<lambda>reg'. register_all reg' ts)"

definition build_registry :: "tool_view_tool list \<Rightarrow> tool_registry res" where
  "build_registry tools =
     (case find (\<lambda>(_, vs). length vs > 1) (versionsByTool tools) of
        Some (toolId, versions) \<Rightarrow> Inl (Error (''loadToolRegistry: '' @ toolId @ '' is published at '' @
          js_join '', '' (sort versions) @
          ''; the checker's registry cannot represent more than one version of a tool''))
      | None \<Rightarrow> register_all [] tools)"

definition loadToolRegistry ::
    "(string \<Rightarrow> string) \<Rightarrow> tool_view_document \<Rightarrow> string option \<Rightarrow> tool_registry res" where
  "loadToolRegistry sha256 document expectedDigest =
     (case expectedDigest of
        None \<Rightarrow> build_registry (document_tools document)
      | Some expected \<Rightarrow>
          if \<not> is_sha256_digest expected
          then Inl (Error (''loadToolRegistry: '' @ expected @ '' is not a sha256 digest''))
          else bind_res (toolViewDigest sha256 document) (\<lambda>digest.
            if digest \<noteq> expected
            then Inl (Error (''loadToolRegistry: view canonicalises to '' @ digest @ '', not '' @ expected))
            else build_registry (document_tools document)))"

section \<open>Lemmas\<close>

lemma canonicalizeChar_escape: "canonicalizeChar = escape_char"
proof (rule ext)
  fix c
  have zero: "hex_char 0 = CHR ''0''" by code_simp
  have low: "replicate (4 - length [hex_char n]) CHR ''0'' @ [hex_char n] =
      [CHR ''0'', CHR ''0'', hex_char (n div 16), hex_char (n mod 16)]" if "n < 16" for n
    using that by (simp add: zero numeral_3_eq_3)
  have high: "replicate (4 - length [hex_char m, hex_char n]) CHR ''0'' @ [hex_char m, hex_char n] =
      [CHR ''0'', CHR ''0'', hex_char m, hex_char n]" for m n
    by (simp add: numeral_2_eq_2)
  show "canonicalizeChar c = escape_char c"
    unfolding canonicalizeChar_def escape_char_def Let_def
    by (cases "(of_char c :: nat) < 16") (simp_all only: low high if_True if_False append_Cons append_Nil)
qed

lemma canonicalizeString_quote: "canonicalizeString s = quote s"
  by (simp add: canonicalizeString_def quote_def canonicalizeChar_escape)

text \<open>A value with no undefined member anywhere.\<close>

fun no_undefined :: "js \<Rightarrow> bool" where
  "no_undefined JUndef = False"
| "no_undefined (JArr xs) = (\<forall>x\<in>set xs. no_undefined x)"
| "no_undefined (JObj ob) = (\<forall>p\<in>set ob. no_undefined (snd p))"
| "no_undefined _ = True"

lemma defined_members_id: "no_undefined (JObj ob) \<Longrightarrow> defined_members ob = ob"
  unfolding defined_members_def by (rule filter_True) (auto split: prod.splits)

lemma canonicalize_canonicalJson:
  "canonicalize v = Inr s \<Longrightarrow> no_undefined v \<Longrightarrow> canonicalJson v = Some s"
proof (induction v arbitrary: s rule: canonicalize.induct)
  case (6 xs)
  then obtain ss where ss: "list_all2 (\<lambda>x y. canonicalize x = Inr y) xs ss"
    and s: "s = ''['' @ js_join '','' ss @ '']''" by (auto simp: bind_res_Inr map_res_Inr)
  have "map (\<lambda>x. nullish (canonicalJson x) []) xs = ss"
    using ss 6(1,3) by (induction rule: list_all2_induct) auto
  then show ?case by (simp add: s)
next
  case (7 ob)
  have all: "\<forall>p\<in>set (sort_key fst ob). no_undefined (snd p)" using 7(3) by simp
  from 7(2) obtain ss where ss: "list_all2 (\<lambda>p y. (\<lambda>(k, v). bind_res (canonicalize v)
      (\<lambda>s. Inr (canonicalizeString k @ '':'' @ s))) p = Inr y) (sort_key fst ob) ss"
    and s: "s = ''{'' @ js_join '','' ss @ ''}''"
    by (auto simp: bind_res_Inr map_res_Inr defined_members_id [OF 7(3)])
  have IH: "\<forall>p\<in>set (sort_key fst ob). \<forall>t. canonicalize (snd p) = Inr t \<longrightarrow> canonicalJson (snd p) = Some t"
    using 7(1) all defined_members_id [OF 7(3)] by (metis prod.collapse)
  have "map (\<lambda>(k, v). quote k @ '':'' @ nullish (canonicalJson v) ''undefined'') (sort_key fst ob) = ss"
    using ss IH
    by (induction rule: list_all2_induct) (auto simp: bind_res_Inr canonicalizeString_quote)
  then show ?case by (simp add: s)
qed (auto simp: number_str_def safe_integer_def canonicalizeString_quote split: if_splits)

subsection \<open>The registry\<close>

definition group_version :: "(string, string list) js_map \<Rightarrow> tool_view_tool \<Rightarrow> (string, string list) js_map" where
  "group_version m t = map_set (tv_tool_id t) (nullish (map_get m (tv_tool_id t)) [] @ [tv_tool_version t]) m"

lemma group_versions_get:
  "map_get (foldl group_version m ts) i =
     (if i \<in> mkeys m \<or> i \<in> tv_tool_id ` set ts
      then Some (nullish (map_get m i) [] @ map tv_tool_version (filter (\<lambda>t. tv_tool_id t = i) ts))
      else None)"
proof (induction ts arbitrary: m)
  case Nil
  then show ?case using map_get_mkeys [of m i] by (cases "map_get m i") auto
next
  case (Cons t ts)
  then show ?case
    using map_get_mkeys [of m "tv_tool_id t"] by (auto simp: group_version_def map_get_map_set)
qed

lemma distinct_group_versions:
  "distinct (map fst m) \<Longrightarrow> distinct (map fst (foldl group_version m ts))"
  by (induction ts arbitrary: m) (auto simp: group_version_def keys_map_set)

lemma distinct_filter_le:
  "distinct (map f xs) \<longleftrightarrow> (\<forall>i\<in>f ` set xs. length (filter (\<lambda>x. f x = i) xs) \<le> 1)"
proof (induction xs)
  case (Cons x xs)
  have "f x \<in> f ` set xs \<longleftrightarrow> filter (\<lambda>y. f y = f x) xs \<noteq> []"
    by (simp add: filter_empty_conv image_iff) metis
  then show ?case using Cons by (auto simp: le_Suc_eq)
qed simp

lemma one_version_each:
  "find (\<lambda>(_, vs). length vs > 1) (versionsByTool ts) = None \<longleftrightarrow> distinct (map tv_tool_id ts)"
proof -
  have v: "versionsByTool ts = foldl group_version [] ts"
    by (simp add: versionsByTool_def group_version_def [abs_def])
  have mem: "(i, vs) \<in> set (versionsByTool ts) \<longleftrightarrow>
      i \<in> tv_tool_id ` set ts \<and> vs = map tv_tool_version (filter (\<lambda>t. tv_tool_id t = i) ts)" for i vs
    using distinct_group_versions [of "[]" ts]
    by (auto simp: v map_get_distinct group_versions_get js_map.get_empty)
  have "find (\<lambda>(_, vs). length vs > 1) (versionsByTool ts) = None \<longleftrightarrow>
      (\<forall>i vs. (i, vs) \<in> set (versionsByTool ts) \<longrightarrow> length vs \<le> 1)"
    by (fastforce simp: find_None_iff linorder_not_less)
  then show ?thesis unfolding mem distinct_filter_le by auto
qed

lemma register_all_fresh:
  "distinct (map fst reg @ map tv_tool_id ts) \<Longrightarrow>
   register_all reg ts = Inr (reg @ map (\<lambda>t. (tv_tool_id t, definition_of t)) ts)"
proof (induction ts arbitrary: reg)
  case (Cons t ts)
  then have "register reg (definition_of t) = Inr (reg @ [(tv_tool_id t, definition_of t)])"
    by (simp add: register_def map_has_def definition_of_def map_set_fresh)
  with Cons show ?case by simp
qed simp

section \<open>Properties\<close>

text \<open>A view becomes a registry exactly when no tool is published at two versions.  The registry
  then holds one definition per published tool, in the view's order, with the contract the view
  declares; otherwise loading throws.\<close>

lemma loadToolRegistry_tools:
  "loadToolRegistry sha256 d None = Inr reg \<longleftrightarrow>
     distinct (map tv_tool_id (document_tools d)) \<and>
     reg = map (\<lambda>t. (tv_tool_id t, definition_of t)) (document_tools d)"
proof (cases "find (\<lambda>(_, vs). length vs > 1) (versionsByTool (document_tools d))")
  case None
  then have "distinct (map tv_tool_id (document_tools d))" by (simp only: one_version_each)
  then show ?thesis using None register_all_fresh [of "[]" "document_tools d"]
    by (auto simp: loadToolRegistry_def build_registry_def)
next
  case (Some p)
  then have "\<not> distinct (map tv_tool_id (document_tools d))"
    by (metis one_version_each option.distinct(1))
  then show ?thesis using Some by (auto simp: loadToolRegistry_def build_registry_def split: prod.splits)
qed

text \<open>The two canonical encoders agree.  Whenever the integer-only encoder of tool views accepts a
  value without undefined members, it writes what the event log's encoder writes, so a view has one
  canonical text whichever side encodes it.\<close>

lemma canonicalize_agrees:
  "canonicalize v = Inr s \<Longrightarrow> no_undefined v \<Longrightarrow> canonicalJson v = Some s"
  by (rule canonicalize_canonicalJson)

end
