(* ===== verification/Rule_Template.thy ===== *)
theory Rule_Template
  imports Tool_View Admission_Spec
begin

text \<open>
  Rule templates (engine/src/router/rule-template.ts): the derived traits of a branch and of a
  template, the publication gate Q1-Q6, the content digest, the patch between two versions, the slot
  coordinate, and the template store with its configuration stream.
\<close>

section \<open>Data\<close>

record rule_branch =
  rb_condition :: string
  rb_subDag :: sub_dag_proposal

record rule_template_draft =
  rd_templateRef :: string
  rd_author :: string
  rd_branches :: "rule_branch list"
  rd_slotId :: "string option"

record template_capability =
  tc_maxEffectClass :: effect_class
  tc_canOpenScope :: bool
  tc_canProvidePivot :: bool
  tc_isPureReadOnly :: bool

record published_rule_template =
  pt_templateRef :: string
  pt_digest :: string
  pt_author :: string
  pt_branches :: "admissible_branch list"
  pt_capability :: template_capability
  pt_slotId :: "string option"

datatype publication_code = Q1 | Q2 | Q3 | Q4 | Q5 | Q6

record publication_violation =
  pn_code :: publication_code
  pn_message :: string
  pn_branch :: int

datatype publication_result = Admitted published_rule_template | Refused "publication_violation list"

definition refusal :: "publication_code \<Rightarrow> string \<Rightarrow> int \<Rightarrow> publication_violation" where
  "refusal c m b = \<lparr>pn_code = c, pn_message = m, pn_branch = b\<rparr>"

section \<open>Effects\<close>

definition EFFECT_ORDER :: "effect_class list" where
  "EFFECT_ORDER = [EffNone, Bufferable, Reversible, Irreversible]"

fun index_of :: "'a list \<Rightarrow> 'a \<Rightarrow> int" where
  "index_of [] x = -1"
| "index_of (y # ys) x = (if x = y then 0 else (let i = index_of ys x in if i = -1 then -1 else i + 1))"

definition higherEffect :: "effect_class \<Rightarrow> effect_class \<Rightarrow> effect_class" where
  "higherEffect a b = (if index_of EFFECT_ORDER a \<ge> index_of EFFECT_ORDER b then a else b)"

text \<open>The order the list spells out.\<close>

instantiation effect_class :: linorder
begin

definition less_eq_effect_class :: "effect_class \<Rightarrow> effect_class \<Rightarrow> bool" where
  "less_eq_effect_class a b = (index_of EFFECT_ORDER a \<le> index_of EFFECT_ORDER b)"

definition less_effect_class :: "effect_class \<Rightarrow> effect_class \<Rightarrow> bool" where
  "less_effect_class a b = (index_of EFFECT_ORDER a < index_of EFFECT_ORDER b)"

instance
proof
  fix x y z :: effect_class
  show "x < y \<longleftrightarrow> x \<le> y \<and> \<not> y \<le> x"
    by (auto simp: less_eq_effect_class_def less_effect_class_def)
  show "x \<le> x" by (simp add: less_eq_effect_class_def)
  show "x \<le> y \<Longrightarrow> y \<le> z \<Longrightarrow> x \<le> z" by (simp add: less_eq_effect_class_def)
  show "x \<le> y \<Longrightarrow> y \<le> x \<Longrightarrow> x = y"
    by (cases x; cases y) (simp_all add: less_eq_effect_class_def EFFECT_ORDER_def)
  show "x \<le> y \<or> y \<le> x" by (auto simp: less_eq_effect_class_def)
qed

end

text \<open>The effect a vertex contributes to its branch, when it is a tool the registry knows.\<close>

definition vertex_effect :: "tool_registry \<Rightarrow> proposal_vertex \<Rightarrow> effect_class option" where
  "vertex_effect reg v =
     (if pv_kind v \<noteq> KTool \<or> \<not> present (pv_tool v) then None
      else map_option td_effectClass (map_get reg (the (pv_tool v))))"

definition traitsOf :: "rule_branch \<Rightarrow> resolved_tool_view \<Rightarrow> admissible_branch" where
  "traitsOf b resolved =
     (let (maxEffect, hasPivot) = foldl (\<lambda>(mx, pv) v.
            case vertex_effect (rv_registry resolved) v of None \<Rightarrow> (mx, pv)
            | Some e \<Rightarrow> (higherEffect mx e, pv \<or> e = Irreversible))
          (EffNone, False) (sd_vertices (rb_subDag b)) in
      \<lparr>ab_condition = rb_condition b, ab_subDag = rb_subDag b,
       ab_opensScope = (length (sd_scopes (rb_subDag b)) > 0), ab_hasPivot = hasPivot,
       ab_maxEffect = maxEffect\<rparr>)"

definition capabilityOf :: "admissible_branch list \<Rightarrow> template_capability" where
  "capabilityOf branches =
     (let maxEffectClass = foldl (\<lambda>highest b. higherEffect highest (ab_maxEffect b)) EffNone branches in
      \<lparr>tc_maxEffectClass = maxEffectClass, tc_canOpenScope = list_ex ab_opensScope branches,
       tc_canProvidePivot = list_ex ab_hasPivot branches, tc_isPureReadOnly = (maxEffectClass = EffNone)\<rparr>)"

definition logFieldsOf :: "string \<Rightarrow> resolved_tool_view \<Rightarrow> string list option" where
  "logFieldsOf toolId resolved =
     Option.bind (find (\<lambda>t. tv_tool_id t = toolId) (document_tools (rv_document resolved))) tv_log_fields"

section \<open>The regular expressions of a condition\<close>

definition is_alpha :: "char \<Rightarrow> bool" where
  "is_alpha c = (let n = of_char c :: nat in (65 \<le> n \<and> n \<le> 90) \<or> (97 \<le> n \<and> n \<le> 122))"

text \<open>\<open>\w\<close>, \<open>\s\<close> and the two character classes of \<open>FIELD_REFERENCE\<close>.\<close>

definition is_word :: "char \<Rightarrow> bool" where
  "is_word c = (is_alpha c \<or> is_digit c \<or> c = CHR ''_'')"

definition is_space :: "char \<Rightarrow> bool" where
  "is_space c = (let n = of_char c :: nat in (9 \<le> n \<and> n \<le> 13) \<or> n = 32 \<or> n = 160)"

definition is_tool_char :: "char \<Rightarrow> bool" where
  "is_tool_char c = (is_word c \<or> c = CHR ''.'' \<or> c = CHR ''-'')"

definition is_path_char :: "char \<Rightarrow> bool" where
  "is_path_char c = (is_word c \<or> c = CHR ''.'')"

definition starts_word :: "string \<Rightarrow> bool" where
  "starts_word s = (case s of [] \<Rightarrow> False | c # _ \<Rightarrow> is_word c)"

text \<open>\<open>\b(w1|...|wn)\b\<close> somewhere in the string; \<open>prev\<close> tells whether the previous character is a word
  character.\<close>

fun has_word :: "string list \<Rightarrow> bool \<Rightarrow> string \<Rightarrow> bool" where
  "has_word ws prev [] = False"
| "has_word ws prev (c # cs) =
     ((\<not> prev \<and> list_ex (\<lambda>w. startsWith (c # cs) w \<and> \<not> starts_word (drop (length w) (c # cs))) ws) \<or>
      has_word ws (is_word c) cs)"

text \<open>\<open>\(\s*\)\<close> somewhere in the string.\<close>

fun has_empty_call :: "string \<Rightarrow> bool" where
  "has_empty_call [] = False"
| "has_empty_call (c # cs) =
     ((c = CHR ''('' \<and> (case dropWhile is_space cs of [] \<Rightarrow> False | d # _ \<Rightarrow> d = CHR '')'')) \<or>
      has_empty_call cs)"

definition IMPURE_WORDS :: "string list" where
  "IMPURE_WORDS = [''now'', ''Date'', ''fetch'', ''require'', ''import'', ''blob'', ''await'']"

definition IMPURE :: "string \<Rightarrow> bool" where
  "IMPURE s = (has_word IMPURE_WORDS False s \<or> has_empty_call s)"

definition lower_char :: "char \<Rightarrow> char" where
  "lower_char c = (let n = of_char c :: nat in if 65 \<le> n \<and> n \<le> 90 then char_of (n + 32) else c)"

text \<open>\<open>/\bfallback\b/i\<close>.\<close>

definition names_fallback :: "string \<Rightarrow> bool" where
  "names_fallback s = has_word [''fallback''] False (map lower_char s)"

text \<open>
  One match of \<open>([A-Za-z_][\w.-]*)\.output\.([\w.]+)\<close> at the start of a string: the tool part is the
  longest that still leaves \<open>.output.\<close> and a path behind it.  The result is the tool, the path and
  the rest.
\<close>

fun match_split :: "nat \<Rightarrow> string \<Rightarrow> (string \<times> string \<times> string) option" where
  "match_split n cs =
     (let r = drop n cs; p = takeWhile is_path_char (drop 8 r) in
      if startsWith r ''.output.'' \<and> p \<noteq> [] then Some (take n cs, p, drop (8 + length p) r)
      else case n of 0 \<Rightarrow> None | Suc k \<Rightarrow> match_split k cs)"

declare match_split.simps [simp del]

definition match_field :: "string \<Rightarrow> (string \<times> string \<times> string) option" where
  "match_field s =
     (case s of [] \<Rightarrow> None
      | c # cs \<Rightarrow>
          if is_alpha c \<or> c = CHR ''_''
          then map_option (\<lambda>(t, p, r). (c # t, p, r)) (match_split (length (takeWhile is_tool_char cs)) cs)
          else None)"

lemma match_split_rest: "match_split n cs = Some (t, p, r) \<Longrightarrow> length r \<le> length cs"
  by (induction n cs rule: match_split.induct)
    (subst (asm) (2) match_split.simps, auto simp: Let_def split: if_splits nat.splits)

lemma match_field_rest: "match_field s = Some (t, p, r) \<Longrightarrow> length r < length s"
  by (auto simp: match_field_def less_Suc_eq_le dest: match_split_rest split: list.splits if_splits)

text \<open>\<open>matchAll\<close>: leftmost matches, each continuing behind the previous one.\<close>

function field_references :: "string \<Rightarrow> (string \<times> string) list" where
  "field_references s =
     (case s of [] \<Rightarrow> []
      | c # cs \<Rightarrow>
          (case match_field s of
             Some (t, p, r) \<Rightarrow> (t, p) # field_references r
           | None \<Rightarrow> field_references cs))"
  by pat_completeness auto
termination
  by (relation "measure length") (auto dest: match_field_rest)

declare field_references.simps [simp del]

section \<open>Publication\<close>

definition branch_name :: "nat \<Rightarrow> string" where
  "branch_name i = ''branch '' @ nat_str i"

definition checkConditionPurity ::
    "rule_branch \<Rightarrow> nat \<Rightarrow> resolved_tool_view \<Rightarrow> publication_violation list" where
  "checkConditionPurity b i resolved =
     (if IMPURE (rb_condition b)
      then [refusal Q1 (branch_name i @ '' condition is not a pure predicate over summary fields'') (int i)]
      else concat (map (\<lambda>(toolId, path).
        if \<not> registry_has (rv_registry resolved) toolId
        then [refusal Q1 (branch_name i @ '' condition reads '' @ toolId @
                '', which the published tool view does not know'') (int i)]
        else if path \<notin> set (nullish (logFieldsOf toolId resolved) [])
        then [refusal Q1 (branch_name i @ '' condition reads '' @ toolId @ ''.output.'' @ path @
                '', which '' @ toolId @ '' does not declare as a log field'') (int i)]
        else []) (field_references (rb_condition b))))"

definition unresolved_tools :: "resolved_tool_view \<Rightarrow> nat \<Rightarrow> rule_branch \<Rightarrow> publication_violation list" where
  "unresolved_tools resolved i b = report
     (\<lambda>v. pv_kind v = KTool \<and> present (pv_tool v) \<and> \<not> registry_has (rv_registry resolved) (the (pv_tool v)))
     (\<lambda>v. refusal Q2 (branch_name i @ '' names '' @ the (pv_tool v) @ '', absent from the published tool view'')
            (int i))
     (sd_vertices (rb_subDag b))"

text \<open>The loop over the branches; \<open>conditions\<close> are those of the earlier ones.\<close>

fun branch_refusals ::
    "resolved_tool_view \<Rightarrow> string js_set \<Rightarrow> (nat \<times> rule_branch) list \<Rightarrow> publication_violation list" where
  "branch_refusals resolved conditions [] = []"
| "branch_refusals resolved conditions ((i, b) # bs) =
     (if rb_condition b \<in> set conditions
      then [refusal Q5 (branch_name i @ '' repeats an earlier condition, so first-match order is ambiguous'') (int i)]
      else []) @
     (if names_fallback (rb_condition b)
      then [refusal Q6 (branch_name i @
              '' declares a fallback; fall-through to the downstream planner is structural'') (int i)]
      else []) @
     checkConditionPurity b i resolved @ unresolved_tools resolved i b @
     branch_refusals resolved (set_add conditions (rb_condition b)) bs"

definition rule_str :: "rule_code \<Rightarrow> string" where
  "rule_str r = (case r of R1 \<Rightarrow> ''R1'' | R2 \<Rightarrow> ''R2'' | R3 \<Rightarrow> ''R3'' | R4 \<Rightarrow> ''R4'' | R5 \<Rightarrow> ''R5''
     | R6 \<Rightarrow> ''R6'' | R7 \<Rightarrow> ''R7'' | R8 \<Rightarrow> ''R8'' | R9 \<Rightarrow> ''R9'' | R10 \<Rightarrow> ''R10'' | R11 \<Rightarrow> ''R11''
     | R12 \<Rightarrow> ''R12'' | R13 \<Rightarrow> ''R13'' | R14 \<Rightarrow> ''R14'')"

definition isolation_refusals :: "resolved_tool_view \<Rightarrow> nat \<times> rule_branch \<Rightarrow> publication_violation list res" where
  "isolation_refusals resolved ib =
     bind_res (checkSubDag (rb_subDag (snd ib)) (rv_registry resolved) []) (\<lambda>r.
       Inr (map (\<lambda>v. refusal Q4 (branch_name (fst ib) @ '' is not admissible in isolation: '' @
                        rule_str (cv_rule v) @ '' '' @ cv_message v) (int (fst ib)))
              (cr_violations r)))"

text \<open>The JSON an author writes for a branch; absent optional members are omitted.\<close>

definition optional :: "string \<Rightarrow> js option \<Rightarrow> json_object" where
  "optional k v = (case v of None \<Rightarrow> [] | Some w \<Rightarrow> [(k, w)])"

definition vertex_json :: "proposal_vertex \<Rightarrow> js" where
  "vertex_json v = JObj ([(''id'', JStr (pv_id v)), (''parents'', JArr (map JStr (pv_parents v))),
     (''kind'', JStr (kind_str (pv_kind v)))] @
     optional ''tool'' (map_option JStr (pv_tool v)) @ optional ''scopeId'' (map_option JStr (pv_scopeId v)) @
     optional ''confirmedOutput'' (if pv_confirmedOutput v then Some (JBool True) else None) @
     optional ''templateRef'' (map_option JStr (pv_templateRef v)))"

definition scope_json :: "proposal_scope \<Rightarrow> js" where
  "scope_json s = JObj [(''id'', JStr (ps_id s)), (''members'', JArr (map JStr (ps_members s)))]"

definition proposal_json :: "sub_dag_proposal \<Rightarrow> js" where
  "proposal_json p = JObj [(''vertices'', JArr (map vertex_json (sd_vertices p))),
                           (''scopes'', JArr (map scope_json (sd_scopes p)))]"

definition branch_json :: "rule_branch \<Rightarrow> js" where
  "branch_json b = JObj [(''condition'', JStr (rb_condition b)), (''subDag'', proposal_json (rb_subDag b))]"

definition template_content :: "rule_template_draft \<Rightarrow> js" where
  "template_content d = JObj [(''templateRef'', JStr (rd_templateRef d)),
                              (''branches'', JArr (map branch_json (rd_branches d)))]"

definition digestOfTemplate :: "(string \<Rightarrow> string) \<Rightarrow> rule_template_draft \<Rightarrow> string" where
  "digestOfTemplate sha256 d = ''sha256:'' @ sha256 (nullish (canonicalJson (template_content d)) ''undefined'')"

definition publishRuleTemplate ::
    "(string \<Rightarrow> string) \<Rightarrow> rule_template_draft \<Rightarrow> resolved_tool_view \<Rightarrow> publication_result res" where
  "publishRuleTemplate sha256 d resolved =
     (let early = (if rd_branches d = [] then [refusal Q5 ''a template requires at least one ordered branch'' (-1)]
                   else []) @ branch_refusals resolved [] (enumerate 0 (rd_branches d)) in
      if early \<noteq> [] then Inr (Refused early)
      else
        (let branches = map (\<lambda>b. traitsOf b resolved) (rd_branches d) in
         bind_res (map_res (isolation_refusals resolved) (enumerate 0 (rd_branches d))) (\<lambda>vss.
           if concat vss \<noteq> [] then Inr (Refused (concat vss))
           else Inr (Admitted
             \<lparr>pt_templateRef = rd_templateRef d, pt_digest = digestOfTemplate sha256 d,
              pt_author = rd_author d, pt_branches = branches, pt_capability = capabilityOf branches,
              pt_slotId = truthy_string (rd_slotId d)\<rparr>))))"

section \<open>Patches\<close>

datatype patch_op = PAdd | PRemove | PReplace

record patch_operation =
  po_op :: patch_op
  po_path :: string
  po_value :: "js option"

definition branch_path :: "nat \<Rightarrow> string" where
  "branch_path i = ''/branches/'' @ nat_str i"

definition branch_patch :: "rule_branch list \<Rightarrow> rule_branch list \<Rightarrow> nat \<Rightarrow> patch_operation list" where
  "branch_patch previous next i =
     (if i < length previous \<and> \<not> i < length next
      then [\<lparr>po_op = PRemove, po_path = branch_path i, po_value = None\<rparr>]
      else if \<not> i < length previous \<and> i < length next
      then [\<lparr>po_op = PAdd, po_path = branch_path i, po_value = Some (branch_json (next ! i))\<rparr>]
      else if i < length previous \<and> i < length next \<and>
              canonicalJson (branch_json (previous ! i)) \<noteq> canonicalJson (branch_json (next ! i))
      then [\<lparr>po_op = PReplace, po_path = branch_path i, po_value = Some (branch_json (next ! i))\<rparr>]
      else [])"

definition diffTemplates :: "rule_template_draft option \<Rightarrow> rule_template_draft \<Rightarrow> patch_operation list" where
  "diffTemplates previous next =
     (case previous of
        None \<Rightarrow> [\<lparr>po_op = PAdd, po_path = [], po_value = Some (template_content next)\<rparr>]
      | Some p \<Rightarrow>
          concat (map (branch_patch (rd_branches p) (rd_branches next))
            [0..<max (length (rd_branches p)) (length (rd_branches next))]))"

section \<open>Slots\<close>

definition slot_coordinate :: "string \<Rightarrow> string list \<Rightarrow> string \<Rightarrow> string" where
  "slot_coordinate workflowType upstream target =
     nullish (canonicalJson
       (JObj [(''workflowType'', JStr workflowType), (''upstream'', JArr (map JStr (sort upstream))),
              (''target'', JStr target)])) ''undefined''"

definition slotIdOf :: "(string \<Rightarrow> string) \<Rightarrow> string \<Rightarrow> string list \<Rightarrow> string \<Rightarrow> string" where
  "slotIdOf sha256 workflowType upstream target =
     ''slot:'' @ take 32 (sha256 (slot_coordinate workflowType upstream target))"

section \<open>The template store\<close>

text \<open>The store's four indexes and the configuration stream its sink appends to, oldest first.\<close>

definition CONFIGURATION_STREAM_ID :: string where
  "CONFIGURATION_STREAM_ID = ''config:rule-templates''"

record config_event =
  ce_stream :: string
  ce_type :: event_type
  ce_payload :: json_object

record template_store =
  ts_byRef :: "(string, published_rule_template) js_map"
  ts_byDigest :: "(string, published_rule_template) js_map"
  ts_drafts :: "(string, rule_template_draft) js_map"
  ts_bySlot :: "(string, string) js_map"
  ts_stream :: "config_event list"

definition empty_template_store :: template_store where
  "empty_template_store = \<lparr>ts_byRef = [], ts_byDigest = [], ts_drafts = [], ts_bySlot = [], ts_stream = []\<rparr>"

definition patch_json :: "patch_operation \<Rightarrow> js" where
  "patch_json o' = JObj ([(''op'', JStr (case po_op o' of PAdd \<Rightarrow> ''add'' | PRemove \<Rightarrow> ''remove'' | PReplace \<Rightarrow> ''replace'')),
     (''path'', JStr (po_path o'))] @ optional ''value'' (po_value o'))"

definition capability_json :: "template_capability \<Rightarrow> js" where
  "capability_json c = JObj [(''max_effect_class'', JStr (effect_str (tc_maxEffectClass c))),
     (''can_open_scope'', JBool (tc_canOpenScope c)), (''can_provide_pivot'', JBool (tc_canProvidePivot c)),
     (''is_pure_read_only'', JBool (tc_isPureReadOnly c))]"

definition publication_event ::
    "(string \<Rightarrow> string) \<Rightarrow> template_store \<Rightarrow> rule_template_draft \<Rightarrow> published_rule_template \<Rightarrow> config_event" where
  "publication_event sha256 s d t =
     (let previous = map_get (ts_drafts s) (rd_templateRef d) in
      \<lparr>ce_stream = CONFIGURATION_STREAM_ID, ce_type = RuleTemplatePublished,
       ce_payload = [(''template_ref'', JStr (rd_templateRef d)), (''digest'', JStr (pt_digest t))] @
         optional ''predecessor_digest'' (map_option (\<lambda>p. JStr (digestOfTemplate sha256 p)) previous) @
         [(''diff'', JArr (map patch_json (diffTemplates previous d))), (''author'', JStr (rd_author d))] @
         optional ''slot_id'' (map_option JStr (truthy_string (rd_slotId d))) @
         [(''capability'', capability_json (pt_capability t))]\<rparr>)"

definition publish ::
    "(string \<Rightarrow> string) \<Rightarrow> template_store \<Rightarrow> rule_template_draft \<Rightarrow> resolved_tool_view \<Rightarrow>
     (template_store \<times> publication_result) res" where
  "publish sha256 s d resolved =
     bind_res (publishRuleTemplate sha256 d resolved) (\<lambda>result.
       case result of
         Refused vs \<Rightarrow> Inr (s, Refused vs)
       | Admitted t \<Rightarrow> Inr
           (s\<lparr>ts_stream := ts_stream s @ [publication_event sha256 s d t],
              ts_drafts := map_set (rd_templateRef d) d (ts_drafts s),
              ts_byRef := map_set (rd_templateRef d) t (ts_byRef s),
              ts_byDigest := map_set (pt_digest t) t (ts_byDigest s),
              ts_bySlot := (if present (rd_slotId d)
                            then map_set (the (rd_slotId d)) (rd_templateRef d) (ts_bySlot s)
                            else ts_bySlot s)\<rparr>, Admitted t))"

definition resolve :: "template_store \<Rightarrow> string \<Rightarrow> published_rule_template option" where
  "resolve s reference =
     (case map_get (ts_byRef s) reference of Some t \<Rightarrow> Some t | None \<Rightarrow> map_get (ts_byDigest s) reference)"

definition resolveSlot :: "template_store \<Rightarrow> string \<Rightarrow> published_rule_template option" where
  "resolveSlot s slotId =
     (case map_get (ts_bySlot s) slotId of
        None \<Rightarrow> None
      | Some reference \<Rightarrow> if reference = [] then None else map_get (ts_byRef s) reference)"

section \<open>What publication admits\<close>

definition condition_ok :: "resolved_tool_view \<Rightarrow> string \<Rightarrow> bool" where
  "condition_ok resolved c \<longleftrightarrow>
     \<not> names_fallback c \<and> \<not> IMPURE c \<and>
     (\<forall>(toolId, path)\<in>set (field_references c).
        registry_has (rv_registry resolved) toolId \<and> path \<in> set (nullish (logFieldsOf toolId resolved) []))"

definition tools_known :: "resolved_tool_view \<Rightarrow> sub_dag_proposal \<Rightarrow> bool" where
  "tools_known resolved p \<longleftrightarrow>
     (\<forall>v\<in>set (sd_vertices p). pv_kind v = KTool \<longrightarrow> present (pv_tool v) \<longrightarrow>
        registry_has (rv_registry resolved) (the (pv_tool v)))"

lemma checkConditionPurity_empty:
  "checkConditionPurity b i resolved = [] \<longleftrightarrow> \<not> IMPURE (rb_condition b) \<and>
     (\<forall>(toolId, path)\<in>set (field_references (rb_condition b)).
        registry_has (rv_registry resolved) toolId \<and> path \<in> set (nullish (logFieldsOf toolId resolved) []))"
  by (auto simp: checkConditionPurity_def fires split: if_splits)

lemma unresolved_tools_empty:
  "unresolved_tools resolved i b = [] \<longleftrightarrow> tools_known resolved (rb_subDag b)"
  by (auto simp: unresolved_tools_def tools_known_def fires)

lemma branch_refusals_empty:
  "branch_refusals resolved cs ibs = [] \<longleftrightarrow>
     distinct (map (rb_condition \<circ> snd) ibs) \<and> set cs \<inter> (rb_condition \<circ> snd) ` set ibs = {} \<and>
     (\<forall>(i, b)\<in>set ibs. condition_ok resolved (rb_condition b) \<and> tools_known resolved (rb_subDag b))"
  by (induction resolved cs ibs rule: branch_refusals.induct)
    (auto simp: fires checkConditionPurity_empty unresolved_tools_empty condition_ok_def)

lemma isolation_refusals_empty:
  "isolation_refusals resolved (i, b) = Inr vs \<Longrightarrow>
   vs = [] \<longleftrightarrow> (\<exists>r. checkSubDag (rb_subDag b) (rv_registry resolved) [] = Inr r \<and> cr_accepted r)"
  by (auto simp: isolation_refusals_def bind_res_Inr checkSubDag_def check_result_of_def)

definition branch_publishable :: "resolved_tool_view \<Rightarrow> rule_branch \<Rightarrow> bool" where
  "branch_publishable resolved b \<longleftrightarrow>
     condition_ok resolved (rb_condition b) \<and> tools_known resolved (rb_subDag b) \<and>
     (\<exists>r. checkSubDag (rb_subDag b) (rv_registry resolved) [] = Inr r \<and> cr_accepted r)"

definition published_form ::
    "(string \<Rightarrow> string) \<Rightarrow> rule_template_draft \<Rightarrow> resolved_tool_view \<Rightarrow> published_rule_template" where
  "published_form sha256 d resolved =
     (let branches = map (\<lambda>b. traitsOf b resolved) (rd_branches d) in
      \<lparr>pt_templateRef = rd_templateRef d, pt_digest = digestOfTemplate sha256 d, pt_author = rd_author d,
       pt_branches = branches, pt_capability = capabilityOf branches, pt_slotId = truthy_string (rd_slotId d)\<rparr>)"

lemma enumerate_ball: "(\<forall>(i, b)\<in>set (enumerate n bs). P b) \<longleftrightarrow> (\<forall>b\<in>set bs. P b)"
  by (induction bs arbitrary: n) auto

lemma map_snd_enumerate: "map (f \<circ> snd) (enumerate n bs) = map f bs"
  by (induction bs arbitrary: n) auto

lemma isolation_all:
  "(\<exists>vss. map_res (isolation_refusals resolved) (enumerate n bs) = Inr vss \<and> concat vss = []) \<longleftrightarrow>
   (\<forall>b\<in>set bs. \<exists>r. checkSubDag (rb_subDag b) (rv_registry resolved) [] = Inr r \<and> cr_accepted r)"
proof (induction bs arbitrary: n)
  case (Cons b bs)
  show ?case
  proof (cases "isolation_refusals resolved (n, b)")
    case (Inl e)
    then show ?thesis by (auto simp: isolation_refusals_def bind_res_def split: sum.splits)
  next
    case (Inr vs)
    from isolation_refusals_empty [OF this] Cons [of "Suc n"] show ?thesis
      by (auto simp: Inr bind_res_Inr)
  qed
qed simp

lemma publishRuleTemplate_iff:
  "publishRuleTemplate sha256 d resolved = Inr (Admitted t) \<longleftrightarrow>
     rd_branches d \<noteq> [] \<and> distinct (map rb_condition (rd_branches d)) \<and>
     (\<forall>b\<in>set (rd_branches d). branch_publishable resolved b) \<and> t = published_form sha256 d resolved"
proof -
  let ?bs = "rd_branches d"
  have early: "branch_refusals resolved [] (enumerate 0 ?bs) = [] \<longleftrightarrow> distinct (map rb_condition ?bs) \<and>
      (\<forall>b\<in>set ?bs. condition_ok resolved (rb_condition b) \<and> tools_known resolved (rb_subDag b))"
    by (simp add: branch_refusals_empty map_snd_enumerate enumerate_ball)
  have "publishRuleTemplate sha256 d resolved = Inr (Admitted t) \<longleftrightarrow>
      ?bs \<noteq> [] \<and> branch_refusals resolved [] (enumerate 0 ?bs) = [] \<and>
      (\<exists>vss. map_res (isolation_refusals resolved) (enumerate 0 ?bs) = Inr vss \<and> concat vss = []) \<and>
      t = published_form sha256 d resolved"
    by (auto simp: publishRuleTemplate_def Let_def bind_res_Inr published_form_def split: if_splits)
  also have "\<dots> \<longleftrightarrow> ?bs \<noteq> [] \<and> distinct (map rb_condition ?bs) \<and>
      (\<forall>b\<in>set ?bs. branch_publishable resolved b) \<and> t = published_form sha256 d resolved"
    unfolding early isolation_all by (auto simp: branch_publishable_def)
  finally show ?thesis .
qed

section \<open>Derived traits\<close>

lemma higherEffect_max: "higherEffect a b = max a b"
  by (cases a; cases b) (simp_all add: higherEffect_def max_def less_eq_effect_class_def EFFECT_ORDER_def)

lemma EffNone_least [simp]: "EffNone \<le> e"
  by (cases e) (simp_all add: less_eq_effect_class_def EFFECT_ORDER_def)

lemma Irreversible_greatest [simp]: "e \<le> Irreversible"
  by (cases e) (simp_all add: less_eq_effect_class_def EFFECT_ORDER_def)

definition branch_effects :: "resolved_tool_view \<Rightarrow> rule_branch \<Rightarrow> effect_class set" where
  "branch_effects resolved b =
     {e. \<exists>v\<in>set (sd_vertices (rb_subDag b)). vertex_effect (rv_registry resolved) v = Some e}"

lemma Max_insert_max:
  fixes m :: "'a::linorder"
  shows "finite A \<Longrightarrow> Max (insert (max m e) A) = Max (insert m (insert e A))"
  by (cases "A = {}") (simp_all add: max.assoc)

lemma traits_fold:
  "foldl (\<lambda>(mx, pv) v. case f v of None \<Rightarrow> (mx, pv) | Some e \<Rightarrow> (higherEffect mx e, pv \<or> e = Irreversible))
     (m, p) vs =
   (Max (insert m {e. \<exists>v\<in>set vs. f v = Some e}), p \<or> (\<exists>v\<in>set vs. f v = Some Irreversible))"
proof (induction vs arbitrary: m p)
  case (Cons v vs)
  have fin: "finite {e. \<exists>v\<in>set vs. f v = Some e}"
    by (rule finite_subset [of _ "(the \<circ> f) ` set vs"]) force+
  show ?case
  proof (cases "f v")
    case None
    then show ?thesis by (simp add: Cons)
  next
    case (Some e)
    then have "{e. \<exists>v\<in>set (v # vs). f v = Some e} = insert e {e. \<exists>v\<in>set vs. f v = Some e}" by auto
    then show ?thesis using Some Max_insert_max [OF fin, of m e] by (auto simp: Cons higherEffect_max)
  qed
qed simp

lemma traitsOf_effects:
  "ab_maxEffect (traitsOf b resolved) = Max (insert EffNone (branch_effects resolved b))"
  "ab_hasPivot (traitsOf b resolved) \<longleftrightarrow> Irreversible \<in> branch_effects resolved b"
  "ab_subDag (traitsOf b resolved) = rb_subDag b"
  by (simp_all add: traitsOf_def traits_fold branch_effects_def)

lemma capability_max:
  "foldl (\<lambda>h b. higherEffect h (ab_maxEffect b)) m bs = Max (insert m (ab_maxEffect ` set bs))"
proof (induction bs arbitrary: m)
  case (Cons b bs)
  then show ?case using Max_insert_max [of "ab_maxEffect ` set bs" m "ab_maxEffect b"]
    by (simp add: higherEffect_max)
qed simp

lemma finite_effects [simp]: "finite (A :: effect_class set)"
proof (rule finite_subset)
  show "A \<subseteq> {EffNone, Bufferable, Reversible, Irreversible}" using effect_class.exhaust by blast
qed simp

lemma Max_effects_none: "Max (insert EffNone A) = EffNone \<longleftrightarrow> A \<subseteq> {EffNone}"
proof
  assume m: "Max (insert EffNone A) = EffNone"
  show "A \<subseteq> {EffNone}"
  proof
    fix e assume "e \<in> A"
    then have "e \<le> EffNone" using m Max_ge [of "insert EffNone A" e] by simp
    then show "e \<in> {EffNone}" by (simp add: order_antisym)
  qed
next
  assume "A \<subseteq> {EffNone}"
  then show "Max (insert EffNone A) = EffNone" by (intro Max_eqI) auto
qed

lemma Max_effects_pivot: "Max (insert EffNone A) = Irreversible \<longleftrightarrow> Irreversible \<in> A"
proof
  assume "Max (insert EffNone A) = Irreversible"
  then have "Irreversible \<in> insert EffNone A" using Max_in [of "insert EffNone A"] by simp
  then show "Irreversible \<in> A" by simp
next
  assume "Irreversible \<in> A"
  then show "Max (insert EffNone A) = Irreversible" by (intro Max_eqI) auto
qed

section \<open>Applying a patch\<close>

text \<open>RFC 6902 on the array \<open>/branches\<close>: operations apply one after the other; an addition inserts, a
  removal closes the gap, and an index outside the array is an error.\<close>

definition path_index :: "string \<Rightarrow> nat" where
  "path_index path = nat_of_str (drop (length ''/branches/'') path)"

definition apply_operation :: "js list \<Rightarrow> patch_operation \<Rightarrow> js list option" where
  "apply_operation bs o' =
     (let i = path_index (po_path o') in
      case po_op o' of
        PAdd \<Rightarrow> if i \<le> length bs then Some (take i bs @ [the (po_value o')] @ drop i bs) else None
      | PRemove \<Rightarrow> if i < length bs then Some (take i bs @ drop (Suc i) bs) else None
      | PReplace \<Rightarrow> if i < length bs then Some (bs[i := the (po_value o')]) else None)"

fun apply_patch :: "js list \<Rightarrow> patch_operation list \<Rightarrow> js list option" where
  "apply_patch bs [] = Some bs"
| "apply_patch bs (o' # os) = Option.bind (apply_operation bs o') (\<lambda>bs'. apply_patch bs' os)"

lemma apply_patch_append:
  "apply_patch bs (xs @ ys) = Option.bind (apply_patch bs xs) (\<lambda>bs'. apply_patch bs' ys)"
proof (induction xs arbitrary: bs)
  case (Cons x xs)
  then show ?case by (cases "apply_operation bs x") simp_all
qed simp

lemma path_index_branch_path [simp]: "path_index (branch_path i) = i"
  unfolding path_index_def branch_path_def by (simp only: drop_append drop_all) simp

definition patch_upto :: "rule_branch list \<Rightarrow> rule_branch list \<Rightarrow> nat \<Rightarrow> js list option" where
  "patch_upto p n k = apply_patch (map branch_json p) (concat (map (branch_patch p n) [0..<k]))"

lemma patch_upto_0: "patch_upto p n 0 = Some (map branch_json p)"
  by (simp add: patch_upto_def)

lemma patch_upto_Suc:
  "patch_upto p n (Suc k) = Option.bind (patch_upto p n k) (\<lambda>bs. apply_patch bs (branch_patch p n k))"
  by (simp add: patch_upto_def apply_patch_append)

text \<open>Up to the length of the new version the patch overwrites and appends.\<close>

lemma patch_common:
  "k \<le> length n \<Longrightarrow> \<exists>bs. patch_upto p n k = Some bs \<and> length bs = max (length p) k \<and>
     (\<forall>j<k. canonicalJson (bs ! j) = canonicalJson (branch_json (n ! j))) \<and>
     (\<forall>j. k \<le> j \<longrightarrow> j < length p \<longrightarrow> bs ! j = branch_json (p ! j))"
proof (induction k)
  case 0
  then show ?case by (simp add: patch_upto_0)
next
  case (Suc k)
  then obtain bs where bs: "patch_upto p n k = Some bs" "length bs = max (length p) k"
    "\<forall>j<k. canonicalJson (bs ! j) = canonicalJson (branch_json (n ! j))"
    "\<forall>j. k \<le> j \<longrightarrow> j < length p \<longrightarrow> bs ! j = branch_json (p ! j)" by auto
  have kn: "k < length n" using Suc(2) by simp
  show ?case
  proof (cases "k < length p")
    case True
    then show ?thesis using bs kn
      by (auto simp: patch_upto_Suc branch_patch_def apply_operation_def Let_def nth_list_update less_Suc_eq)
  next
    case False
    then have "length bs = k" using bs(2) by simp
    then show ?thesis using bs kn False
      by (auto simp: patch_upto_Suc branch_patch_def apply_operation_def Let_def nth_append less_Suc_eq)
  qed
qed

text \<open>Behind it every operation removes one branch, so the index of the next removal is off by one more.\<close>

lemma patch_removals:
  "length n \<le> k \<Longrightarrow> k \<le> length p \<Longrightarrow> patch_upto p n k = Some bs \<Longrightarrow> length bs = length p - (k - length n)"
proof (induction k arbitrary: bs rule: dec_induct)
  case base
  then show ?case using patch_common [of "length n" n p] by auto
next
  case (step k)
  then obtain bs' where bs': "patch_upto p n k = Some bs'" and ap: "apply_patch bs' (branch_patch p n k) = Some bs"
    by (auto simp: patch_upto_Suc bind_eq_Some_conv)
  have "length bs' = length p - (k - length n)" using step bs' by simp
  moreover have "branch_patch p n k = [\<lparr>po_op = PRemove, po_path = branch_path k, po_value = None\<rparr>]"
    using step by (simp add: branch_patch_def)
  ultimately show ?case using ap step(1,4) by (auto simp: apply_operation_def Let_def split: if_splits)
qed

lemma diffTemplates_patch:
  "apply_patch (map branch_json (rd_branches p)) (diffTemplates (Some p) n) =
   patch_upto (rd_branches p) (rd_branches n) (max (length (rd_branches p)) (length (rd_branches n)))"
  by (simp add: diffTemplates_def patch_upto_def)

lemma diff_reconstructs:
  assumes "length (rd_branches p) \<le> Suc (length (rd_branches n))"
  shows "\<exists>bs. apply_patch (map branch_json (rd_branches p)) (diffTemplates (Some p) n) = Some bs \<and>
     map canonicalJson bs = map (canonicalJson \<circ> branch_json) (rd_branches n)"
proof -
  let ?p = "rd_branches p" and ?n = "rd_branches n"
  obtain bs where bs: "patch_upto ?p ?n (length ?n) = Some bs" "length bs = max (length ?p) (length ?n)"
    "\<forall>j<length ?n. canonicalJson (bs ! j) = canonicalJson (branch_json (?n ! j))"
    using patch_common [of "length ?n" ?n ?p] by auto
  show ?thesis
  proof (cases "length ?p \<le> length ?n")
    case True
    then show ?thesis using bs by (auto simp: diffTemplates_patch max_def intro!: nth_equalityI)
  next
    case False
    then have l: "length ?p = Suc (length ?n)" using assms by simp
    then have "patch_upto ?p ?n (Suc (length ?n)) = Some (take (length ?n) bs)"
      using bs by (simp add: patch_upto_Suc branch_patch_def apply_operation_def Let_def)
    then show ?thesis using bs l by (auto simp: diffTemplates_patch max_def intro!: nth_equalityI)
  qed
qed

lemma diff_two_removals:
  assumes "length (rd_branches p) \<ge> length (rd_branches n) + 2"
  shows "apply_patch (map branch_json (rd_branches p)) (diffTemplates (Some p) n) = None"
proof -
  let ?p = "rd_branches p" and ?n = "rd_branches n"
  obtain k where k: "length ?p = Suc k" "Suc (length ?n) \<le> k" using assms by (cases "length ?p") auto
  have "patch_upto ?p ?n (Suc k) = None"
  proof (cases "patch_upto ?p ?n k")
    case (Some bs)
    then have "length bs = Suc (length ?n)" using patch_removals [of ?n k ?p bs] k by simp
    then show ?thesis using Some k by (simp add: patch_upto_Suc branch_patch_def apply_operation_def Let_def)
  qed (simp add: patch_upto_Suc)
  then show ?thesis using k by (simp add: diffTemplates_patch max_def)
qed

section \<open>The store as a resolver\<close>

text \<open>What the submission path and the router executor rely on: a store evolves by publications, a
  lookup returns a template that carries the reference it was asked for, as its name or as its
  digest, and a slot resolves to a template its own name resolves to.\<close>

locale template_resolver =
  fixes ok :: "'s \<Rightarrow> bool" and start :: "'s" and publication :: "'s \<Rightarrow> 's \<Rightarrow> bool"
    and lookup :: "'s \<Rightarrow> string \<Rightarrow> published_rule_template option"
    and slot_lookup :: "'s \<Rightarrow> string \<Rightarrow> published_rule_template option"
    and pinned :: "'s \<Rightarrow> string \<Rightarrow> bool"
  assumes start_ok: "ok start"
    and publication_ok: "ok s \<Longrightarrow> publication s s' \<Longrightarrow> ok s'"
    and lookup_named: "ok s \<Longrightarrow> lookup s ref = Some t \<Longrightarrow> pt_templateRef t = ref \<or> pt_digest t = ref"
    and slot_named: "ok s \<Longrightarrow> slot_lookup s slot = Some t \<Longrightarrow> lookup s (pt_templateRef t) = Some t"
    and pinned_lookup: "ok s \<Longrightarrow> pinned s g \<Longrightarrow> lookup s g \<noteq> None"
    and pinned_kept: "ok s \<Longrightarrow> publication s s' \<Longrightarrow> pinned s g \<Longrightarrow> pinned s' g"
begin

lemma reachable_ok: "publication\<^sup>*\<^sup>* s s' \<Longrightarrow> ok s \<Longrightarrow> ok s'"
  by (induction rule: rtranclp_induct) (auto intro: publication_ok)

lemma reachable_pinned: "publication\<^sup>*\<^sup>* s s' \<Longrightarrow> ok s \<Longrightarrow> pinned s g \<Longrightarrow> pinned s' g"
proof (induction rule: rtranclp_induct)
  case (step s' s'')
  then show ?case using reachable_ok pinned_kept by blast
qed simp

lemma pin_resolves:
  assumes "publication\<^sup>*\<^sup>* start s" and "publication\<^sup>*\<^sup>* s s'" and "pinned s g"
  shows "\<exists>t. lookup s' g = Some t \<and> (pt_templateRef t = g \<or> pt_digest t = g)"
proof -
  have ok: "ok s'" using reachable_ok [OF assms(1) start_ok] reachable_ok [OF assms(2)] by blast
  have "pinned s' g"
    using reachable_pinned [OF assms(2) _ assms(3)] reachable_ok [OF assms(1) start_ok] by blast
  then show ?thesis using pinned_lookup [OF ok] lookup_named [OF ok] by fastforce
qed

end

definition store_ok :: "template_store \<Rightarrow> bool" where
  "store_ok s \<longleftrightarrow>
     (\<forall>r t. map_get (ts_byRef s) r = Some t \<longrightarrow> pt_templateRef t = r) \<and>
     (\<forall>g t. map_get (ts_byDigest s) g = Some t \<longrightarrow> pt_digest t = g)"

definition published_step :: "(string \<Rightarrow> string) \<Rightarrow> template_store \<Rightarrow> template_store \<Rightarrow> bool" where
  "published_step sha256 s s' \<longleftrightarrow> (\<exists>d resolved r. publish sha256 s d resolved = Inr (s', r))"

lemma publish_cases:
  assumes "publish sha256 s d resolved = Inr (s', r)"
  obtains (refused) vs where "r = Refused vs" and "s' = s"
  | (admitted) t where "r = Admitted t" and "t = published_form sha256 d resolved"
      and "ts_byRef s' = map_set (rd_templateRef d) t (ts_byRef s)"
      and "ts_byDigest s' = map_set (pt_digest t) t (ts_byDigest s)"
      and "ts_stream s' = ts_stream s @ [publication_event sha256 s d t]"
      and "ts_drafts s' = map_set (rd_templateRef d) d (ts_drafts s)"
proof (cases "publishRuleTemplate sha256 d resolved")
  case (Inl e)
  then show ?thesis using assms by (simp add: publish_def)
next
  case (Inr x)
  show ?thesis
  proof (cases x)
    case (Refused vs)
    then show ?thesis using assms Inr by (intro refused [of vs]) (auto simp: publish_def)
  next
    case (Admitted t)
    then have "t = published_form sha256 d resolved" using Inr by (simp add: publishRuleTemplate_iff)
    then show ?thesis using assms Inr Admitted by (intro admitted) (auto simp: publish_def)
  qed
qed

lemma published_form_simps [simp]:
  "pt_templateRef (published_form sha256 d resolved) = rd_templateRef d"
  "pt_digest (published_form sha256 d resolved) = digestOfTemplate sha256 d"
  by (simp_all add: published_form_def Let_def)

lemma publish_store_ok:
  assumes "store_ok s" and "publish sha256 s d resolved = Inr (s', r)"
  shows "store_ok s'"
  using assms(2)
proof (cases rule: publish_cases)
  case refused
  then show ?thesis using assms(1) by simp
next
  case (admitted t)
  then show ?thesis using assms(1) by (auto simp: store_ok_def map_get_map_set)
qed

interpretation store: template_resolver store_ok empty_template_store "published_step sha256" resolve
    resolveSlot "\<lambda>s g. map_get (ts_byDigest s) g \<noteq> None"
  for sha256
proof
  show "store_ok empty_template_store" by (simp add: store_ok_def empty_template_store_def js_map.get_empty)
  show "store_ok s \<Longrightarrow> published_step sha256 s s' \<Longrightarrow> store_ok s'" for s s'
    by (auto simp: published_step_def intro: publish_store_ok)
  show "store_ok s \<Longrightarrow> resolve s ref = Some t \<Longrightarrow> pt_templateRef t = ref \<or> pt_digest t = ref" for s ref t
    by (auto simp: resolve_def store_ok_def split: option.splits)
  show "store_ok s \<Longrightarrow> resolveSlot s slot = Some t \<Longrightarrow> resolve s (pt_templateRef t) = Some t" for s slot t
    by (auto simp: resolve_def resolveSlot_def store_ok_def split: option.splits if_splits)
  show "store_ok s \<Longrightarrow> map_get (ts_byDigest s) g \<noteq> None \<Longrightarrow> resolve s g \<noteq> None" for s g
    by (auto simp: resolve_def split: option.splits)
  show "map_get (ts_byDigest s') g \<noteq> None"
    if "store_ok s" "published_step sha256 s s'" "map_get (ts_byDigest s) g \<noteq> None" for s s' g
  proof -
    from that(2) obtain d resolved r where "publish sha256 s d resolved = Inr (s', r)"
      by (auto simp: published_step_def)
    then show ?thesis using that(3) by (cases rule: publish_cases) (auto simp: map_get_map_set)
  qed
qed

section \<open>A concrete template\<close>

definition wit_resolved :: resolved_tool_view where
  "wit_resolved = \<lparr>rv_identity = \<lparr>vi_tool_view_ref = [], vi_tool_view_digest = []\<rparr>, rv_document = JObj [],
     rv_registry = wit_registry\<rparr>"

definition wit_draft :: "string \<Rightarrow> nat \<Rightarrow> rule_template_draft" where
  "wit_draft r n = \<lparr>rd_templateRef = r, rd_author = ''ops'',
     rd_branches = map (\<lambda>i. \<lparr>rb_condition = nat_str i, rb_subDag = wit_proposal\<rparr>) [0..<n], rd_slotId = None\<rparr>"

definition wit_hash :: "string \<Rightarrow> string" where
  "wit_hash s = ''00''"

lemma wit_published:
  "publishRuleTemplate wit_hash (wit_draft r (Suc 0)) wit_resolved =
   Inr (Admitted (published_form wit_hash (wit_draft r (Suc 0)) wit_resolved))"
proof -
  have "condition_ok wit_resolved (nat_str 0)" and "tools_known wit_resolved wit_proposal"
    and "rv_registry wit_resolved = wit_registry"
    by code_simp+
  then have "branch_publishable wit_resolved \<lparr>rb_condition = nat_str 0, rb_subDag = wit_proposal\<rparr>"
    using wit_accepted by (simp add: branch_publishable_def check_result_of_def)
  then show ?thesis by (simp add: publishRuleTemplate_iff wit_draft_def)
qed

lemma wit_store:
  obtains s where "publish wit_hash empty_template_store (wit_draft ''rule://a'' (Suc 0)) wit_resolved =
      Inr (s, Admitted (published_form wit_hash (wit_draft ''rule://a'' (Suc 0)) wit_resolved))"
    and "map_get (ts_byDigest s) ''sha256:00'' \<noteq> None"
  by (simp add: publish_def wit_published digestOfTemplate_def wit_hash_def map_get_map_set)

section \<open>Properties\<close>


text \<open>The capability of a template summarises its branches exactly.  Its maximal effect is the
  maximum over every known tool of every branch, it is read-only exactly when none of those tools has
  an effect, and it can provide a pivot exactly when one of them is irreversible.\<close>

lemma capability_exact:
  "tc_maxEffectClass (capabilityOf (map (\<lambda>b. traitsOf b resolved) bs)) =
     Max (insert EffNone (\<Union> (branch_effects resolved ` set bs))) \<and>
   (tc_isPureReadOnly (capabilityOf (map (\<lambda>b. traitsOf b resolved) bs)) \<longleftrightarrow>
     \<Union> (branch_effects resolved ` set bs) \<subseteq> {EffNone}) \<and>
   (tc_canProvidePivot (capabilityOf (map (\<lambda>b. traitsOf b resolved) bs)) \<longleftrightarrow>
     Irreversible \<in> \<Union> (branch_effects resolved ` set bs))"
proof -
  let ?E = "\<Union> (branch_effects resolved ` set bs)"
  have "Max (insert EffNone (ab_maxEffect ` set (map (\<lambda>b. traitsOf b resolved) bs))) = Max (insert EffNone ?E)"
  proof (induction bs)
    case (Cons b bs)
    have u: "Max (insert EffNone (A \<union> B)) = max (Max (insert EffNone A)) (Max (insert EffNone B))" for A B
      by (metis Max_Un Un_insert_left Un_insert_right finite_effects insert_absorb2 insert_not_empty)
    show ?case
      using Cons u [of "branch_effects resolved b" "\<Union> (branch_effects resolved ` set bs)"]
        u [of "{ab_maxEffect (traitsOf b resolved)}" "ab_maxEffect ` set (map (\<lambda>b. traitsOf b resolved) bs)"]
      by (simp add: traitsOf_effects)
  qed simp
  then have max: "tc_maxEffectClass (capabilityOf (map (\<lambda>b. traitsOf b resolved) bs)) = Max (insert EffNone ?E)"
    by (simp add: capabilityOf_def Let_def capability_max)
  have "tc_isPureReadOnly (capabilityOf (map (\<lambda>b. traitsOf b resolved) bs)) \<longleftrightarrow>
      tc_maxEffectClass (capabilityOf (map (\<lambda>b. traitsOf b resolved) bs)) = EffNone"
    by (simp add: capabilityOf_def Let_def)
  moreover have "tc_canProvidePivot (capabilityOf (map (\<lambda>b. traitsOf b resolved) bs)) \<longleftrightarrow> Irreversible \<in> ?E"
    by (auto simp: capabilityOf_def Let_def list_ex_iff traitsOf_effects)
  ultimately show ?thesis using max Max_effects_none [of ?E] by simp
qed

text \<open>C10: when at most one branch is dropped, applying the recorded patch of a publication to the
  branches of its predecessor, one operation after the other, gives the branches of the new version,
  up to the order of object members.\<close>

theorem diffTemplates_reconstructs:
  assumes "length (rd_branches p) \<le> Suc (length (rd_branches n))"
  shows "\<exists>bs. apply_patch (map branch_json (rd_branches p)) (diffTemplates (Some p) n) = Some bs \<and>
     map canonicalJson bs = map (canonicalJson \<circ> branch_json) (rd_branches n)"
  by (rule diff_reconstructs [OF assms])

theorem diffTemplates_reconstructs_witness:
  "\<exists>bs. apply_patch (map branch_json (rd_branches (wit_draft ''r'' 2)))
       (diffTemplates (Some (wit_draft ''r'' 2)) (wit_draft ''r'' (Suc 0))) = Some bs \<and>
     map canonicalJson bs = map (canonicalJson \<circ> branch_json) (rd_branches (wit_draft ''r'' (Suc 0)))"
  by (rule diffTemplates_reconstructs) (simp add: wit_draft_def)

text \<open>When two or more branches are dropped, the recorded patch is not applicable: the removals
  are numbered by the predecessor's indexes, and each one shifts the branches behind it, so the last
  removal is outside the array.  The predecessor and the patch do not determine the new version.\<close>

lemma diffTemplates_two_removals_inapplicable:
  assumes "length (rd_branches p) \<ge> length (rd_branches n) + 2"
  shows "apply_patch (map branch_json (rd_branches p)) (diffTemplates (Some p) n) = None"
  by (rule diff_two_removals [OF assms])

text \<open>C9: a pin stays resolvable.  From an empty store, after any publications, a digest that was ever
  published resolves, and it resolves to a template with that digest unless some template is named by
  the digest itself.\<close>

theorem pinned_digest_resolves:
  assumes "(published_step sha256)\<^sup>*\<^sup>* empty_template_store s" and "(published_step sha256)\<^sup>*\<^sup>* s s'"
    and "map_get (ts_byDigest s) g \<noteq> None"
  shows "\<exists>t. resolve s' g = Some t \<and> (pt_templateRef t = g \<or> pt_digest t = g)"
  using store.pin_resolves [OF assms(1,2)] assms(3) by blast

theorem pinned_digest_resolves_witness:
  "\<exists>s t. (published_step wit_hash)\<^sup>*\<^sup>* empty_template_store s \<and> resolve s ''sha256:00'' = Some t \<and>
     (pt_templateRef t = ''sha256:00'' \<or> pt_digest t = ''sha256:00'')"
proof -
  obtain s where "publish wit_hash empty_template_store (wit_draft ''rule://a'' (Suc 0)) wit_resolved =
      Inr (s, Admitted (published_form wit_hash (wit_draft ''rule://a'' (Suc 0)) wit_resolved))"
    and pin: "map_get (ts_byDigest s) ''sha256:00'' \<noteq> None" by (rule wit_store)
  then have "(published_step wit_hash)\<^sup>*\<^sup>* empty_template_store s"
    by (intro r_into_rtranclp) (auto simp: published_step_def)
  then show ?thesis using pinned_digest_resolves [OF _ rtranclp.rtrancl_refl pin] by blast
qed

text \<open>A template published under a name that is a live digest takes over that pin: the digest then
  resolves to the new template, whose content hashes to something else.\<close>

lemma digest_pin_shadowed:
  assumes "publish sha256 s d resolved = Inr (s', Admitted t)"
    and "map_get (ts_byDigest s) (rd_templateRef d) \<noteq> None"
    and "digestOfTemplate sha256 d \<noteq> rd_templateRef d"
  shows "resolve s' (rd_templateRef d) = Some t \<and> pt_digest t \<noteq> rd_templateRef d"
  using assms(1)
proof (cases rule: publish_cases)
  case (admitted t')
  then show ?thesis using assms(3) by (simp add: resolve_def map_get_map_set)
qed simp

text \<open>The slot of a junction does not depend on the order in which its upstream tools are listed.\<close>

lemma slotIdOf_order_free:
  assumes "mset us = mset vs"
  shows "slotIdOf sha256 w us t = slotIdOf sha256 w vs t"
proof -
  have "sort us = sort vs" using assms by (metis mset_sort properties_for_sort sorted_sort)
  then show ?thesis by (simp add: slotIdOf_def slot_coordinate_def)
qed

text \<open>The slot depends on how often an upstream tool occurs: a junction behind two calls of one
  tool and a junction behind one have different coordinates.\<close>

lemma slot_coordinate_counts_tools:
  "slot_coordinate ''order'' [''quote'', ''quote''] ''plan'' \<noteq> slot_coordinate ''order'' [''quote''] ''plan''"
  by code_simp

end
