(* ===== verification/Workflow.thy ===== *)
theory Workflow
  imports Rule_Template
begin

text \<open>
  Workflow submissions (engine/src/admission/workflow.ts): the submitted vertices, the normalization
  that puts a router in front of every planner, the lowering to a proposal, the topological order, the
  idempotency keys and their generations, and the compilation to \<open>vertex/created\<close> drafts.
\<close>

section \<open>Data\<close>

datatype vertex_body =
    ToolBody (body_tool: string) (body_input: "json_object option") (body_key: "string option")
      (body_confirmed: "bool option")
  | PlannerBody (body_goal: "string option")
  | RouterBody (body_template: "string option")
  | BarrierBody

record submitted_vertex =
  sv_id :: string
  sv_parents :: "string list option"
  sv_scope :: "string option"
  sv_body :: vertex_body

datatype submission_source = FromSubmitted | FromRouter

record workflow_submission =
  ws_submissionId :: string
  ws_schemaVersion :: string
  ws_vertices :: "submitted_vertex list"
  ws_scopes :: "proposal_scope list option"
  ws_workflowType :: "string option"
  ws_attachTo :: "string list option"
  ws_source :: "submission_source option"

record normalized_workflow =
  nw_workflow :: workflow_submission
  nw_interposed :: "string list"

record compiled_subgraph =
  cs_vertexIds :: "(string, string) js_map"
  cs_scopeIds :: "(string, string) js_map"
  cs_drafts :: "event_draft list"

record router_binding =
  bi_placement :: router_placement
  bi_pinVersion :: "string option"

definition sv_kind :: "submitted_vertex \<Rightarrow> vertex_kind" where
  "sv_kind v = (case sv_body v of ToolBody _ _ _ _ \<Rightarrow> KTool | PlannerBody _ \<Rightarrow> KPlanner
     | RouterBody _ \<Rightarrow> KRouter | BarrierBody \<Rightarrow> KBarrier)"

text \<open>\<open>vertex.parents ?? []\<close>.\<close>

definition parents_of :: "submitted_vertex \<Rightarrow> string list" where
  "parents_of v = nullish (sv_parents v) []"

definition by_id :: "submitted_vertex list \<Rightarrow> (string, submitted_vertex) js_map" where
  "by_id vs = new_map (map (\<lambda>v. (sv_id v, v)) vs)"

section \<open>Normalization\<close>

definition INTERPOSED_ROUTER_SUFFIX :: string where
  "INTERPOSED_ROUTER_SUFFIX = ''#router''"

definition needsInterposedRouter :: "string list \<Rightarrow> (string, submitted_vertex) js_map \<Rightarrow> bool" where
  "needsInterposedRouter parents byId =
     (if parents = [] then False
      else \<not> (length parents = 1 \<and>
        (case map_get byId (hd parents) of None \<Rightarrow> False | Some v \<Rightarrow> sv_kind v = KRouter)))"

definition unknown_parent ::
    "(string, submitted_vertex) js_map \<Rightarrow> submitted_vertex list \<Rightarrow> (string \<times> string) option" where
  "unknown_parent byId vs =
     find (\<lambda>(p, _). \<not> map_has byId p) (concat (map (\<lambda>v. map (\<lambda>p. (p, sv_id v)) (parents_of v)) vs))"

definition interposed_router :: "string \<Rightarrow> string list \<Rightarrow> submitted_vertex" where
  "interposed_router i parents =
     \<lparr>sv_id = i, sv_parents = Some parents, sv_scope = None, sv_body = RouterBody None\<rparr>"

fun interpose ::
    "(string, submitted_vertex) js_map \<Rightarrow> submitted_vertex list \<Rightarrow> (submitted_vertex list \<times> string list) res" where
  "interpose byId [] = Inr ([], [])"
| "interpose byId (v # vs) =
     (if sv_kind v \<noteq> KPlanner \<or> \<not> needsInterposedRouter (parents_of v) byId
      then bind_res (interpose byId vs) (\<lambda>(ws, is). Inr (v # ws, is))
      else
        (let routerId = sv_id v @ INTERPOSED_ROUTER_SUFFIX in
         if map_has byId routerId
         then Inl (Error (''cannot interpose a router for '' @ sv_id v @ '': '' @ routerId @ '' already exists''))
         else bind_res (interpose byId vs) (\<lambda>(ws, is).
           Inr (interposed_router routerId (parents_of v) # v\<lparr>sv_parents := Some [routerId]\<rparr> # ws,
                routerId # is))))"

definition normalizeWorkflow :: "workflow_submission \<Rightarrow> normalized_workflow res" where
  "normalizeWorkflow s =
     (let byId = by_id (ws_vertices s) in
      case unknown_parent byId (ws_vertices s) of
        Some (p, v) \<Rightarrow> Inl (Error (''workflow names unknown parent '' @ p @ '' for '' @ v))
      | None \<Rightarrow>
          bind_res (interpose byId (ws_vertices s)) (\<lambda>(vs, is).
            Inr \<lparr>nw_workflow = s\<lparr>ws_vertices := vs\<rparr>, nw_interposed = is\<rparr>))"

section \<open>Lowering\<close>

definition lower_vertex :: "submitted_vertex \<Rightarrow> proposal_vertex" where
  "lower_vertex v =
     \<lparr>pv_id = sv_id v, pv_parents = parents_of v, pv_kind = sv_kind v,
      pv_tool = (case sv_body v of ToolBody t _ _ _ \<Rightarrow> Some t | _ \<Rightarrow> None),
      pv_scopeId = truthy_string (sv_scope v),
      pv_confirmedOutput = (case sv_body v of ToolBody _ _ _ c \<Rightarrow> c = Some True | _ \<Rightarrow> False),
      pv_templateRef = (case sv_body v of RouterBody r \<Rightarrow> truthy_string r | _ \<Rightarrow> None)\<rparr>"

definition lowerToProposal :: "workflow_submission \<Rightarrow> sub_dag_proposal" where
  "lowerToProposal w =
     \<lparr>sd_vertices = map lower_vertex (ws_vertices w), sd_scopes = nullish (ws_scopes w) []\<rparr>"

section \<open>Topological order\<close>

text \<open>
  \<open>visit\<close> with the set of placed ids and the order built so far.  \<open>visiting\<close> is the path of the calls
  in progress: the source adds an id before the parents and deletes it after them, so every call
  returns it as it found it.  An id that is no vertex fails on \<open>vertex.parents\<close>.
\<close>

type_synonym topo_state = "string js_set \<times> submitted_vertex list"

function (sequential)
  visit :: "(string, submitted_vertex) js_map \<Rightarrow> string \<Rightarrow> string list \<Rightarrow> topo_state \<Rightarrow> topo_state res"
and visit_list :: "(string, submitted_vertex) js_map \<Rightarrow> string list \<Rightarrow> string list \<Rightarrow> topo_state \<Rightarrow> topo_state res"
where
  "visit byId i visiting (placed, ordered) =
     (if i \<in> set placed then Inr (placed, ordered)
      else if i \<in> set visiting then Inl (Error (''workflow contains a cycle at '' @ i))
      else case map_get byId i of
             None \<Rightarrow> Inl (Error ''Cannot read properties of undefined (reading 'parents')'')
           | Some v \<Rightarrow>
               (case visit_list byId (parents_of v) (i # visiting) (placed, ordered) of
                  Inl e \<Rightarrow> Inl e
                | Inr (placed', ordered') \<Rightarrow> Inr (set_add placed' i, ordered' @ [v])))"
| "visit_list byId [] visiting st = Inr st"
| "visit_list byId (p # ps) visiting st =
     (case visit byId p visiting st of Inl e \<Rightarrow> Inl e | Inr st' \<Rightarrow> visit_list byId ps visiting st')"
  by pat_completeness auto
termination
proof (relation "measures
    [case_sum (\<lambda>(m, i, visiting, st). card (fst ` set m - set visiting))
              (\<lambda>(m, ps, visiting, st). card (fst ` set m - set visiting)),
     case_sum (\<lambda>_. 1) (\<lambda>(m, ps, visiting, st). 2 * length ps)]", goal_cases)
  case 1
  then show ?case by simp
next
  case (2 byId i visiting placed ordered v)
  then have "i \<in> fst ` set byId" using map_get_None [of byId i] by simp
  then show ?case using 2 card_path_less [of i byId visiting] by (simp del: card_Diff_insert)
next
  case 3
  then show ?case by simp
next
  case 4
  then show ?case by simp
qed

declare visit.simps [simp del]

definition topologicalOrder :: "submitted_vertex list \<Rightarrow> submitted_vertex list res" where
  "topologicalOrder vs =
     bind_res (visit_list (by_id vs) (map sv_id vs) [] ([], [])) (\<lambda>(_, ordered). Inr ordered)"

section \<open>Idempotency keys\<close>

text \<open>\<open>path.replace(/^\$\.?/, '').split('.').filter(Boolean)\<close>.\<close>

definition path_segments :: "string \<Rightarrow> string list" where
  "path_segments path =
     filter (\<lambda>seg. seg \<noteq> []) (js_split CHR ''.''
       (if startsWith path ''$.'' then drop 2 path else if startsWith path ''$'' then drop 1 path else path))"

fun walk_path :: "js \<Rightarrow> string list \<Rightarrow> js" where
  "walk_path current [] = current"
| "walk_path current (seg # segs) =
     (case current of JObj ob \<Rightarrow> walk_path (member ob seg) segs | _ \<Rightarrow> JUndef)"

definition valueAtArgumentPath :: "json_object \<Rightarrow> string \<Rightarrow> js" where
  "valueAtArgumentPath input path = walk_path (JObj input) (path_segments path)"

definition derivedIdempotencyKey ::
    "string \<Rightarrow> json_object option \<Rightarrow> tool_view_tool \<Rightarrow> string option res" where
  "derivedIdempotencyKey vertexId input contract =
     (if \<not> present (tx_idempotency_key_path (tv_txn contract)) then Inr None
      else
        (let path = the (tx_idempotency_key_path (tv_txn contract)) in
         case walk_path (JObj (nullish input [])) (path_segments path) of
           JStr s \<Rightarrow> Inr (Some (tv_tool_id contract @ '':'' @ s))
         | JNum r \<Rightarrow> Inr (Some (tv_tool_id contract @ '':'' @ number_str r))
         | _ \<Rightarrow> Inl (Error (vertexId @ '' calls '' @ tv_tool_id contract @ '', whose idempotency key path '' @ path @
                 '' resolves to nothing in its input''))))"

definition baseIdempotencyKey ::
    "string \<Rightarrow> json_object option \<Rightarrow> string option \<Rightarrow> tool_view_tool \<Rightarrow> string option res" where
  "baseIdempotencyKey vertexId input key contract =
     (case key of Some k \<Rightarrow> Inr (Some k) | None \<Rightarrow> derivedIdempotencyKey vertexId input contract)"

datatype bracket_state = Sealed | Confirmed | BracketCancelled

record bracket_record =
  br_idempotencyKey :: string
  br_state :: bracket_state

definition GENERATION_SEPARATOR :: string where
  "GENERATION_SEPARATOR = ''#''"

text \<open>\<open>/^[1-9][0-9]*$/\<close>.\<close>

definition is_generation_suffix :: "string \<Rightarrow> bool" where
  "is_generation_suffix s = (s \<noteq> [] \<and> hd s \<noteq> CHR ''0'' \<and> list_all is_digit s)"

definition generationOf :: "string \<Rightarrow> string \<Rightarrow> nat option" where
  "generationOf base key =
     (if key = base then Some 1
      else if \<not> startsWith key (base @ GENERATION_SEPARATOR) then None
      else
        (let suffix = drop (length base + length GENERATION_SEPARATOR) key in
         if is_generation_suffix suffix then Some (nat_of_str suffix) else None))"

definition nextIdempotencyKey :: "string \<Rightarrow> bracket_record list \<Rightarrow> string" where
  "nextIdempotencyKey base existing =
     (let generations = List.map_filter (\<lambda>r. map_option (Pair r) (generationOf base (br_idempotencyKey r))) existing in
      if generations = [] then base
      else case find (\<lambda>(r, _). br_state r \<noteq> BracketCancelled) generations of
             Some (r, _) \<Rightarrow> br_idempotencyKey r
           | None \<Rightarrow> base @ GENERATION_SEPARATOR @ nat_str (Max (set (map snd generations)) + 1))"

section \<open>Compilation\<close>

fun companion_arguments ::
    "string \<Rightarrow> json_object \<Rightarrow> tool_view_tool \<Rightarrow> string \<Rightarrow> (string \<times> string) list \<Rightarrow> json_object \<Rightarrow> json_object res" where
  "companion_arguments vertexId input contract field [] resolved = Inr resolved"
| "companion_arguments vertexId input contract field ((parameter, path) # ps) resolved =
     (let value = valueAtArgumentPath input path in
      if value = JUndef
      then Inl (Error (vertexId @ '' calls '' @ tv_tool_id contract @ '', whose '' @ field @ '' reads '' @ path @
                       '', absent from its frozen arguments''))
      else companion_arguments vertexId input contract field ps (map_set parameter value resolved))"

definition companion_mappings :: "tool_view_tool \<Rightarrow> (string \<times> (string \<times> string) list option) list" where
  "companion_mappings contract =
     [(''confirm_input'', tx_confirm_arguments (tv_txn contract)),
      (''cancel_input'', tx_cancel_arguments (tv_txn contract)),
      (''compensate_input'', tx_compensate_arguments (tv_txn contract))]"

fun companion_fields ::
    "string \<Rightarrow> json_object \<Rightarrow> tool_view_tool \<Rightarrow> (string \<times> (string \<times> string) list option) list \<Rightarrow> json_object res" where
  "companion_fields vertexId input contract [] = Inr []"
| "companion_fields vertexId input contract ((field, mapping) # ms) =
     (case mapping of
        None \<Rightarrow> companion_fields vertexId input contract ms
      | Some ps \<Rightarrow>
          bind_res (companion_arguments vertexId input contract field ps []) (\<lambda>resolved.
          bind_res (companion_fields vertexId input contract ms) (\<lambda>rest.
          Inr ((field, JObj resolved) # rest))))"

definition companionInputs :: "string \<Rightarrow> json_object option \<Rightarrow> tool_view_tool \<Rightarrow> json_object res" where
  "companionInputs vertexId input contract =
     companion_fields vertexId (nullish input []) contract (companion_mappings contract)"

definition placement_str :: "router_placement \<Rightarrow> string" where
  "placement_str p = (case p of AtSavepoint \<Rightarrow> ''at_savepoint'' | InsideScope \<Rightarrow> ''inside_scope'')"

definition optional_str :: "string \<Rightarrow> string option \<Rightarrow> json_object" where
  "optional_str k v = optional k (map_option JStr (truthy_string v))"

definition retry_json :: "tool_view_retry \<Rightarrow> js" where
  "retry_json r = JObj [(''max_attempts'', JNum (of_int (rt_max_attempts r))),
     (''initial_backoff_ms'', JNum (of_int (rt_initial_backoff_ms r))),
     (''multiplier'', JNum (of_int (rt_multiplier_milli r) / 1000)),
     (''max_backoff_ms'', JNum (of_int (rt_max_backoff_ms r)))]"

definition txn_json :: "tool_view_transaction \<Rightarrow> string option \<Rightarrow> json_object \<Rightarrow> js" where
  "txn_json t key companions = JObj ([(''effect_class'', JStr (effect_str (tx_effect_class t))),
     (''mode'', JStr (mode_str (tx_mode t)))] @ optional_str ''idempotency_key'' key @
     optional ''try_timeout_s'' (map_option (\<lambda>n. JNum (of_int n)) (truthy_int (tx_try_timeout_s t))) @
     optional_str ''confirm_tool'' (tx_confirm_tool t) @ optional_str ''cancel_tool'' (tx_cancel_tool t) @
     optional_str ''compensate_tool'' (tx_compensate_tool t) @ optional_str ''status_tool'' (tx_status_tool t) @
     companions)"

type_synonym bracket_index = "(string, bracket_record list) js_map"

definition tool_payload ::
    "string \<Rightarrow> string \<Rightarrow> json_object option \<Rightarrow> string option \<Rightarrow> (string, tool_view_tool) js_map \<Rightarrow>
     resolved_tool_view \<Rightarrow> bracket_index \<Rightarrow> json_object res" where
  "tool_payload vertexId tool input key contracts resolved brackets =
     (case map_get contracts tool of
        None \<Rightarrow> Inl (Error (vertexId @ '' names '' @ tool @ '', absent from the resolved tool view''))
      | Some contract \<Rightarrow>
          bind_res (baseIdempotencyKey vertexId input key contract) (\<lambda>base.
          bind_res (companionInputs vertexId input contract) (\<lambda>companions.
          Inr [(''role'', JStr ''tool''), (''tool'', JStr (tv_tool_id contract)),
               (''tool_version'', JStr (tv_tool_version contract)),
               (''tool_view_digest'', JStr (vi_tool_view_digest (rv_identity resolved))),
               (''input'', JObj (nullish input [])),
               (''retry_policy'', retry_json (tv_retry_constraints contract)),
               (''txn'', txn_json (tv_txn contract)
                  (map_option (\<lambda>b. nextIdempotencyKey b (nullish (map_get brackets b) [])) base) companions)])))"

definition vertexPayload ::
    "submitted_vertex \<Rightarrow> (string, tool_view_tool) js_map \<Rightarrow> resolved_tool_view \<Rightarrow> string option \<Rightarrow>
     router_binding option \<Rightarrow> bracket_index \<Rightarrow> json_object res" where
  "vertexPayload v contracts resolved slotId binding brackets =
     (case sv_body v of
        PlannerBody goal \<Rightarrow> Inr ([(''role'', JStr ''planner'')] @ optional_str ''goal'' goal)
      | BarrierBody \<Rightarrow> Inr [(''role'', JStr ''confirmation-barrier'')]
      | RouterBody templateRef \<Rightarrow>
          Inr ([(''role'', JStr ''router''),
                (''origin'', JStr (if endsWith (sv_id v) INTERPOSED_ROUTER_SUFFIX then ''interposed'' else ''declared''))] @
               optional_str ''template_ref'' templateRef @ optional_str ''slot_id'' slotId @
               optional ''placement'' (map_option (\<lambda>b. JStr (placement_str (bi_placement b))) binding))
      | ToolBody tool input key _ \<Rightarrow> tool_payload (sv_id v) tool input key contracts resolved brackets)"

definition upstream_tools :: "(string, submitted_vertex) js_map \<Rightarrow> submitted_vertex \<Rightarrow> string list" where
  "upstream_tools byId v = List.map_filter (\<lambda>p. case map_get byId p of
     Some w \<Rightarrow> (case sv_body w of ToolBody t _ _ _ \<Rightarrow> Some t | _ \<Rightarrow> None) | None \<Rightarrow> None) (parents_of v)"

definition has_slot :: "submitted_vertex \<Rightarrow> bool" where
  "has_slot v = (case sv_body v of
     RouterBody r \<Rightarrow> \<not> present r \<and> endsWith (sv_id v) INTERPOSED_ROUTER_SUFFIX | _ \<Rightarrow> False)"

definition routerSlotIds :: "(string \<Rightarrow> string) \<Rightarrow> workflow_submission \<Rightarrow> (string, string) js_map" where
  "routerSlotIds sha256 w =
     (let byId = by_id (ws_vertices w) in
      foldl (\<lambda>slots v. map_set (sv_id v)
          (slotIdOf sha256 (nullish (ws_workflowType w) ''default'') (upstream_tools byId v)
             (dropEnd (length INTERPOSED_ROUTER_SUFFIX) (sv_id v))) slots)
        [] (filter has_slot (ws_vertices w)))"

definition contracts_of :: "resolved_tool_view \<Rightarrow> (string, tool_view_tool) js_map" where
  "contracts_of resolved = new_map (map (\<lambda>t. (tv_tool_id t, t)) (document_tools (rv_document resolved)))"

text \<open>One turn of the loop of \<open>compileVertexDrafts\<close>.\<close>

definition compile_vertex ::
    "workflow_submission \<Rightarrow> resolved_tool_view \<Rightarrow> (string, router_binding) js_map \<Rightarrow> bracket_index \<Rightarrow>
     (string, string) js_map \<Rightarrow> (string, string) js_map \<Rightarrow> (string, string) js_map \<Rightarrow> submitted_vertex \<Rightarrow>
     event_draft res" where
  "compile_vertex w resolved bindings brackets vertexIds scopeIds slotIds v =
     (let declared = parents_of v;
          parentRefs = (if declared \<noteq> [] then map (\<lambda>p. nullish (map_get vertexIds p) []) declared
                        else nullish (ws_attachTo w) []);
          scopeId = (if present (sv_scope v) then map_get scopeIds (the (sv_scope v)) else None) in
      if present (sv_scope v) \<and> \<not> present scopeId
      then Inl (Error (sv_id v @ '' names undeclared scope '' @ the (sv_scope v)))
      else
        bind_res (vertexPayload v (contracts_of resolved) resolved (map_get slotIds (sv_id v))
                    (map_get bindings (sv_id v)) brackets) (\<lambda>payload.
        Inr \<lparr>dr_event_type = VertexCreated, dr_vertex_id = map_get vertexIds (sv_id v),
             dr_parent_refs = Some parentRefs, dr_planner_id = None,
             dr_scope_id = truthy_string scopeId,
             dr_pin_version = truthy_string (Option.bind (map_get bindings (sv_id v)) bi_pinVersion),
             dr_ignorable = None, dr_payload = JObj payload\<rparr>))"

text \<open>\<open>newId n\<close> is the \<open>n\<close>-th identifier the generator returns.\<close>

definition compileVertexDrafts ::
    "(string \<Rightarrow> string) \<Rightarrow> workflow_submission \<Rightarrow> resolved_tool_view \<Rightarrow> (string, router_binding) js_map \<Rightarrow>
     (nat \<Rightarrow> string) \<Rightarrow> bracket_index \<Rightarrow> compiled_subgraph res" where
  "compileVertexDrafts sha256 w resolved bindings newId brackets =
     (let vertexIds = new_map (map (\<lambda>(n, v). (sv_id v, newId n)) (enumerate 0 (ws_vertices w)));
          scopeIds = new_map (map (\<lambda>(n, s). (ps_id s, newId n))
                       (enumerate (length (ws_vertices w)) (nullish (ws_scopes w) [])));
          slotIds = routerSlotIds sha256 w in
      bind_res (topologicalOrder (ws_vertices w)) (\<lambda>ordered.
      bind_res (map_res (compile_vertex w resolved bindings brackets vertexIds scopeIds slotIds) ordered) (\<lambda>drafts.
      Inr \<lparr>cs_vertexIds = vertexIds, cs_scopeIds = scopeIds, cs_drafts = drafts\<rparr>)))"

section \<open>The digest of a submission\<close>

definition body_json :: "vertex_body \<Rightarrow> json_object" where
  "body_json b =
     (case b of
        ToolBody t input key c \<Rightarrow> [(''kind'', JStr ''tool''), (''tool'', JStr t)] @
          optional ''input'' (map_option JObj input) @ optional ''idempotencyKey'' (map_option JStr key) @
          optional ''confirmedOutput'' (map_option JBool c)
      | PlannerBody goal \<Rightarrow> [(''kind'', JStr ''planner'')] @ optional ''goal'' (map_option JStr goal)
      | RouterBody r \<Rightarrow> [(''kind'', JStr ''router'')] @ optional ''templateRef'' (map_option JStr r)
      | BarrierBody \<Rightarrow> [(''kind'', JStr ''confirmation-barrier'')])"

definition submission_json :: "workflow_submission \<Rightarrow> js" where
  "submission_json s = JObj ([(''submissionId'', JStr (ws_submissionId s)),
     (''schemaVersion'', JStr (ws_schemaVersion s)),
     (''vertices'', JArr (map (\<lambda>v. JObj ([(''id'', JStr (sv_id v))] @
        optional ''parents'' (map_option (\<lambda>ps. JArr (map JStr ps)) (sv_parents v)) @
        optional ''scope'' (map_option JStr (sv_scope v)) @ body_json (sv_body v))) (ws_vertices s)))] @
     optional ''scopes'' (map_option (\<lambda>ss. JArr (map scope_json ss)) (ws_scopes s)) @
     optional ''workflowType'' (map_option JStr (ws_workflowType s)) @
     optional ''attachTo'' (map_option (\<lambda>xs. JArr (map JStr xs)) (ws_attachTo s)) @
     optional ''source'' (map_option (\<lambda>x. JStr (case x of FromSubmitted \<Rightarrow> ''submitted'' | FromRouter \<Rightarrow> ''router''))
       (ws_source s)))"

definition submissionDigest :: "(string \<Rightarrow> string) \<Rightarrow> workflow_submission \<Rightarrow> string" where
  "submissionDigest sha256 s = ''sha256:'' @ sha256 (nullish (canonicalJson (submission_json s)) ''undefined'')"

end
