(* ===== verification/Workflow_Spec.thy ===== *)
theory Workflow_Spec
  imports Workflow
begin

text \<open>
  Correctness of the workflow compiler: normalization leaves every planner behind at most one router,
  is idempotent and keeps the order of the author's vertices; the topological order is a permutation
  with parents first and exists exactly for closed acyclic graphs; a new idempotency key is either the
  key of a live bracket or new; compiled drafts name their parents before their children.
\<close>

section \<open>Normalization\<close>

lemma by_id_Cons:
  "map_get (by_id (v # vs)) i =
     (case map_get (by_id vs) i of Some w \<Rightarrow> Some w | None \<Rightarrow> if i = sv_id v then Some v else None)"
  by (auto simp: by_id_def map_get_new_map map_add_def split: option.splits)

lemma by_id_Nil [simp]: "map_get (by_id []) i = None"
  by (simp add: by_id_def new_map_def js_map.get_empty)

lemma by_id_None: "map_get (by_id vs) i = None \<longleftrightarrow> i \<notin> sv_id ` set vs"
  by (induction vs) (auto simp: by_id_Cons split: option.splits)

lemma map_has_by_id: "map_has (by_id vs) i \<longleftrightarrow> i \<in> sv_id ` set vs"
  using by_id_None [of vs i] by (auto simp: map_has_iff)

lemma by_id_in: "map_get (by_id vs) i = Some v \<Longrightarrow> v \<in> set vs \<and> sv_id v = i"
  by (induction vs) (auto simp: by_id_Cons split: option.splits if_splits)

definition kind_at :: "submitted_vertex list \<Rightarrow> string \<Rightarrow> vertex_kind option" where
  "kind_at vs i = map_option sv_kind (map_get (by_id vs) i)"

lemma kind_at_Cons:
  "kind_at (v # vs) i = (case kind_at vs i of Some k \<Rightarrow> Some k | None \<Rightarrow> if i = sv_id v then Some (sv_kind v) else None)"
  by (auto simp: kind_at_def by_id_Cons split: option.splits)

lemma sv_kind_router [simp]: "sv_kind (interposed_router i ps) = KRouter"
  by (simp add: sv_kind_def interposed_router_def)

lemma sv_id_router [simp]: "sv_id (interposed_router i ps) = i"
  by (simp add: interposed_router_def)

lemma sv_kind_parents [simp]: "sv_kind (v\<lparr>sv_parents := ps\<rparr>) = sv_kind v"
  by (simp add: sv_kind_def)

definition needs_router :: "(string, submitted_vertex) js_map \<Rightarrow> submitted_vertex \<Rightarrow> bool" where
  "needs_router byId v \<longleftrightarrow> sv_kind v = KPlanner \<and> needsInterposedRouter (parents_of v) byId"

definition router_id :: "submitted_vertex \<Rightarrow> string" where
  "router_id v = sv_id v @ INTERPOSED_ROUTER_SUFFIX"

text \<open>What the loop of \<open>normalizeWorkflow\<close> emits for one vertex.\<close>

definition expand :: "(string, submitted_vertex) js_map \<Rightarrow> submitted_vertex \<Rightarrow> submitted_vertex list" where
  "expand byId v =
     (if needs_router byId v
      then [interposed_router (router_id v) (parents_of v), v\<lparr>sv_parents := Some [router_id v]\<rparr>] else [v])"

lemma interpose_Inr:
  "interpose byId vs = Inr (ws, is) \<longleftrightarrow>
     ws = concat (map (expand byId) vs) \<and> is = map router_id (filter (needs_router byId) vs) \<and>
     (\<forall>v\<in>set vs. needs_router byId v \<longrightarrow> \<not> map_has byId (router_id v))"
  by (induction vs arbitrary: ws "is")
    (auto simp: expand_def needs_router_def router_id_def bind_res_Inr Let_def)

lemma unknown_parent_None:
  "unknown_parent byId vs = None \<longleftrightarrow> (\<forall>v\<in>set vs. \<forall>p\<in>set (parents_of v). map_has byId p)"
  by (auto simp: unknown_parent_def find_None_iff)

lemma normalizeWorkflow_Inr:
  "normalizeWorkflow s = Inr n \<longleftrightarrow>
     (let byId = by_id (ws_vertices s) in
      (\<forall>v\<in>set (ws_vertices s). \<forall>p\<in>set (parents_of v). map_has byId p) \<and>
      (\<forall>v\<in>set (ws_vertices s). needs_router byId v \<longrightarrow> \<not> map_has byId (router_id v)) \<and>
      n = \<lparr>nw_workflow = s\<lparr>ws_vertices := concat (map (expand byId) (ws_vertices s))\<rparr>,
           nw_interposed = map router_id (filter (needs_router byId) (ws_vertices s))\<rparr>)"
proof -
  have "normalizeWorkflow s = Inr n \<longleftrightarrow> unknown_parent (by_id (ws_vertices s)) (ws_vertices s) = None \<and>
    (\<exists>vs is. interpose (by_id (ws_vertices s)) (ws_vertices s) = Inr (vs, is) \<and>
       n = \<lparr>nw_workflow = s\<lparr>ws_vertices := vs\<rparr>, nw_interposed = is\<rparr>)"
    by (auto simp: normalizeWorkflow_def Let_def bind_res_Inr split: option.splits)
  then show ?thesis unfolding interpose_Inr unknown_parent_None Let_def by blast
qed

lemma expand_ids: "sv_id ` set (expand byId v) = (if needs_router byId v then {router_id v, sv_id v} else {sv_id v})"
  by (auto simp: expand_def)

lemma kind_at_expand_Cons:
  "kind_at (expand byId v @ ws) i =
     (case kind_at ws i of Some k \<Rightarrow> Some k
      | None \<Rightarrow> if i = sv_id v then Some (sv_kind v)
               else if needs_router byId v \<and> i = router_id v then Some KRouter else None)"
  by (cases "kind_at ws i") (auto simp: expand_def [of byId v] kind_at_Cons)

lemma kind_at_expand:
  assumes "\<forall>v\<in>set vs. needs_router byId v \<longrightarrow> router_id v \<noteq> i"
  shows "kind_at (concat (map (expand byId) vs)) i = kind_at vs i"
  using assms by (induction vs) (auto simp: kind_at_expand_Cons kind_at_Cons split: option.splits)

lemma kind_at_router:
  assumes "i \<notin> sv_id ` set vs" and "\<exists>v\<in>set vs. needs_router byId v \<and> router_id v = i"
  shows "kind_at (concat (map (expand byId) vs)) i = Some KRouter"
  using assms
proof (induction vs)
  case (Cons v vs)
  show ?case
  proof (cases "\<exists>v\<in>set vs. needs_router byId v \<and> router_id v = i")
    case True
    then have "kind_at (concat (map (expand byId) vs)) i = Some KRouter" using Cons by simp
    then show ?thesis by (simp add: kind_at_expand_Cons)
  next
    case False
    then have "kind_at (concat (map (expand byId) vs)) i = kind_at vs i"
      by (intro kind_at_expand) auto
    also have "\<dots> = None" using Cons(2) by (simp add: kind_at_def by_id_None)
    finally show ?thesis using False Cons(2,3) by (auto simp: kind_at_expand_Cons)
  qed
qed simp

lemma needsInterposedRouter_kind:
  "needsInterposedRouter ps (by_id vs) \<longleftrightarrow> ps \<noteq> [] \<and> \<not> (\<exists>p. ps = [p] \<and> kind_at vs p = Some KRouter)"
  by (cases ps; cases "tl ps") (auto simp: needsInterposedRouter_def kind_at_def split: option.splits)

text \<open>After one pass no planner needs a router any more.\<close>

lemma expand_canonical:
  assumes fresh: "\<forall>v\<in>set vs. needs_router (by_id vs) v \<longrightarrow> \<not> map_has (by_id vs) (router_id v)"
    and w: "w \<in> set (concat (map (expand (by_id vs)) vs))"
  shows "\<not> needs_router (by_id (concat (map (expand (by_id vs)) vs))) w"
proof -
  let ?ws = "concat (map (expand (by_id vs)) vs)"
  obtain v where v: "v \<in> set vs" "w \<in> set (expand (by_id vs) v)" using w by auto
  show ?thesis
  proof (cases "needs_router (by_id vs) v")
    case True
    then have "kind_at ?ws (router_id v) = Some KRouter"
      using fresh v(1) by (intro kind_at_router) (auto simp: map_has_by_id)
    then show ?thesis using v True
      by (auto simp: expand_def needs_router_def needsInterposedRouter_kind parents_of_def)
  next
    case False
    then have w: "w = v" using v by (simp add: expand_def)
    have "kind_at ?ws p = Some KRouter" if "kind_at vs p = Some KRouter" for p
    proof -
      have "p \<in> sv_id ` set vs" using that by (auto simp: kind_at_def dest: by_id_in)
      then have "\<forall>v\<in>set vs. needs_router (by_id vs) v \<longrightarrow> router_id v \<noteq> p"
        using fresh by (auto simp: map_has_by_id)
      then show ?thesis using that by (simp add: kind_at_expand)
    qed
    then show ?thesis using False w by (auto simp: needs_router_def needsInterposedRouter_kind)
  qed
qed

lemma expand_parents_known:
  assumes "\<forall>v\<in>set vs. \<forall>p\<in>set (parents_of v). map_has (by_id vs) p"
    and "w \<in> set (concat (map (expand byId) vs))" and "p \<in> set (parents_of w)"
  shows "p \<in> sv_id ` set (concat (map (expand byId) vs))"
proof -
  have keep: "sv_id ` set vs \<subseteq> sv_id ` set (concat (map (expand byId) vs))"
  proof
    fix i assume "i \<in> sv_id ` set vs"
    then obtain v where "v \<in> set vs" "i = sv_id v" by blast
    moreover have "sv_id v \<in> sv_id ` set (expand byId v)" by (simp add: expand_ids)
    ultimately show "i \<in> sv_id ` set (concat (map (expand byId) vs))" by auto
  qed
  obtain v where v: "v \<in> set vs" "w \<in> set (expand byId v)" using assms(2) by auto
  show ?thesis
  proof (cases "needs_router byId v \<and> parents_of w = [router_id v]")
    case True
    then have "router_id v \<in> sv_id ` set (expand byId v)" by (simp add: expand_ids)
    then show ?thesis using True assms(3) v(1) by auto
  next
    case False
    then have "parents_of w = parents_of v"
      using v(2) by (auto simp: expand_def parents_of_def interposed_router_def split: if_splits)
    then show ?thesis using assms(1,3) v(1) keep by (auto simp: map_has_by_id)
  qed
qed

lemma filter_needs_none: "(\<forall>w\<in>set ws. \<not> needs_router byId w) \<Longrightarrow> concat (map (expand byId) ws) = ws"
  by (induction ws) (auto simp: expand_def)

lemma normalizeWorkflow_twice:
  assumes "normalizeWorkflow s = Inr n"
  shows "normalizeWorkflow (nw_workflow n) = Inr \<lparr>nw_workflow = nw_workflow n, nw_interposed = []\<rparr>"
proof -
  let ?vs = "ws_vertices s" and ?ws = "concat (map (expand (by_id (ws_vertices s))) (ws_vertices s))"
  have p: "\<forall>v\<in>set ?vs. \<forall>p\<in>set (parents_of v). map_has (by_id ?vs) p"
    and fresh: "\<forall>v\<in>set ?vs. needs_router (by_id ?vs) v \<longrightarrow> \<not> map_has (by_id ?vs) (router_id v)"
    and n: "nw_workflow n = s\<lparr>ws_vertices := ?ws\<rparr>"
    using assms by (auto simp: normalizeWorkflow_Inr Let_def)
  have none: "\<forall>w\<in>set ?ws. \<not> needs_router (by_id ?ws) w" using expand_canonical [OF fresh] by blast
  moreover have "\<forall>w\<in>set ?ws. \<forall>p\<in>set (parents_of w). map_has (by_id ?ws) p"
    using expand_parents_known [OF p] unfolding map_has_by_id by blast
  ultimately show ?thesis
    unfolding normalizeWorkflow_Inr Let_def n by (simp add: filter_needs_none)
qed

lemma last_expand: "last (expand byId v) = (if needs_router byId v then v\<lparr>sv_parents := Some [router_id v]\<rparr> else v)"
  by (simp add: expand_def)

lemma by_id_expand_Cons:
  "map_get (by_id (expand byId v @ ws)) i =
     (case map_get (by_id ws) i of Some w \<Rightarrow> Some w
      | None \<Rightarrow> if i = sv_id v then Some (last (expand byId v))
               else if needs_router byId v \<and> i = router_id v
               then Some (interposed_router (router_id v) (parents_of v)) else None)"
  by (cases "map_get (by_id ws) i") (auto simp: expand_def [of byId v] by_id_Cons)

lemma by_id_expand:
  assumes "\<forall>v\<in>set vs. needs_router byId v \<longrightarrow> router_id v \<noteq> i"
  shows "map_get (by_id (concat (map (expand byId) vs))) i =
         map_option (\<lambda>v. last (expand byId v)) (map_get (by_id vs) i)"
  using assms by (induction vs) (auto simp: by_id_expand_Cons by_id_Cons split: option.splits)

lemma router_id_inj: "router_id v = router_id w \<longleftrightarrow> sv_id v = sv_id w"
  by (simp add: router_id_def)

lemma by_id_router:
  assumes "distinct (map sv_id vs)" and "v \<in> set vs" and "needs_router byId v" and "router_id v \<notin> sv_id ` set vs"
  shows "map_get (by_id (concat (map (expand byId) vs))) (router_id v) =
         Some (interposed_router (router_id v) (parents_of v))"
  using assms
proof (induction vs)
  case (Cons u vs)
  show ?case
  proof (cases "v \<in> set vs")
    case True
    then show ?thesis using Cons by (simp add: by_id_expand_Cons)
  next
    case False
    then have u: "u = v" using Cons(3) by simp
    have "sv_id v \<notin> sv_id ` set vs" using Cons(2) u by simp
    then have "\<forall>w\<in>set vs. needs_router byId w \<longrightarrow> router_id w \<noteq> router_id v"
      by (metis imageI router_id_inj)
    then have "map_get (by_id (concat (map (expand byId) vs))) (router_id v) = None"
      using Cons(5) by (simp add: by_id_expand by_id_None)
    then show ?thesis using u Cons(4,5) by (simp add: by_id_expand_Cons)
  qed
qed simp

lemma by_id_distinct: "distinct (map sv_id vs) \<Longrightarrow> v \<in> set vs \<Longrightarrow> map_get (by_id vs) (sv_id v) = Some v"
proof (induction vs)
  case (Cons u vs)
  have "map_get (by_id vs) (sv_id u) = None" using Cons(2) by (simp add: by_id_None)
  then show ?case using Cons by (auto simp: by_id_Cons)
qed simp

lemma vertex_of_lower:
  "vertex_of (lowerToProposal w) i = map_option lower_vertex (map_get (by_id (ws_vertices w)) i)"
proof -
  have "map_of (rev (map (\<lambda>v. (pv_id v, v)) (map lower_vertex vs))) i =
      map_option lower_vertex (map_of (rev (map (\<lambda>v. (sv_id v, v)) vs)) i)" for vs
    by (induction vs) (auto simp: map_add_def lower_vertex_def split: option.splits)
  then show ?thesis
    by (simp add: vertex_of_def proposal_vertices_def by_id_def lowerToProposal_def map_get_new_map)
qed

lemma lower_vertex_simps [simp]:
  "pv_parents (lower_vertex v) = parents_of v" "pv_kind (lower_vertex v) = sv_kind v" "pv_id (lower_vertex v) = sv_id v"
  by (simp_all add: lower_vertex_def)

lemma edges_lower:
  "(i, q) \<in> edges (lowerToProposal w) \<longleftrightarrow>
     (\<exists>v. map_get (by_id (ws_vertices w)) i = Some v \<and> q \<in> set (parents_of v))"
  by (auto simp: edges_iff vertex_of_lower)

lemma kind_of_lower: "kind_of (lowerToProposal w) i = kind_at (ws_vertices w) i"
  by (simp add: kind_of_def kind_at_def vertex_of_lower option.map_comp comp_def)

lemma normalized_planner_edges:
  assumes "normalizeWorkflow s = Inr n"
  shows "spec_planner_edges (lowerToProposal (nw_workflow n))"
proof -
  let ?vs = "ws_vertices s" and ?ws = "concat (map (expand (by_id (ws_vertices s))) (ws_vertices s))"
  have fresh: "\<forall>v\<in>set ?vs. needs_router (by_id ?vs) v \<longrightarrow> \<not> map_has (by_id ?vs) (router_id v)"
    and n: "ws_vertices (nw_workflow n) = ?ws"
    using assms by (auto simp: normalizeWorkflow_Inr Let_def)
  have "kind_at ?ws q = Some KRouter" if v: "map_get (by_id ?ws) i = Some v" and "q \<in> set (parents_of v)"
    and "kind_at ?ws i = Some KPlanner" for i q v
  proof -
    have "\<not> needs_router (by_id ?ws) v" using expand_canonical [OF fresh] by_id_in [OF v] by blast
    then show ?thesis using that by (auto simp: needs_router_def needsInterposedRouter_kind kind_at_def)
  qed
  then show ?thesis by (fastforce simp: spec_planner_edges_def edges_lower kind_of_lower n)
qed

text \<open>A router is contracted onto the planner it was interposed for.\<close>

definition contract :: "submitted_vertex list \<Rightarrow> string \<Rightarrow> string" where
  "contract vs i = (if i \<in> sv_id ` set vs then i else dropEnd (length INTERPOSED_ROUTER_SUFFIX) i)"

lemma contract_router: "router_id v \<notin> sv_id ` set vs \<Longrightarrow> contract vs (router_id v) = sv_id v"
  by (simp add: contract_def router_id_def)

lemma normalized_known:
  assumes "normalizeWorkflow s = Inr n"
  shows "\<forall>v\<in>set (ws_vertices s). \<forall>p\<in>set (parents_of v). p \<in> sv_id ` set (ws_vertices s)"
    and "\<forall>v\<in>set (ws_vertices s). needs_router (by_id (ws_vertices s)) v \<longrightarrow> router_id v \<notin> sv_id ` set (ws_vertices s)"
    and "ws_vertices (nw_workflow n) = concat (map (expand (by_id (ws_vertices s))) (ws_vertices s))"
  using assms by (auto simp: normalizeWorkflow_Inr Let_def map_has_by_id)

lemma lower_edge:
  "distinct (map sv_id (ws_vertices s)) \<Longrightarrow> v \<in> set (ws_vertices s) \<Longrightarrow> q \<in> set (parents_of v) \<Longrightarrow>
   (sv_id v, q) \<in> edges (lowerToProposal s)"
  using by_id_distinct by (auto simp: edges_lower)

lemma normalized_edge:
  assumes norm: "normalizeWorkflow s = Inr n" and ids: "distinct (map sv_id (ws_vertices s))"
    and e: "(x, y) \<in> edges (lowerToProposal (nw_workflow n))"
  shows "(contract (ws_vertices s) y = contract (ws_vertices s) x \<and> y \<notin> sv_id ` set (ws_vertices s)) \<or>
         (contract (ws_vertices s) x, y) \<in> edges (lowerToProposal s)"
proof -
  let ?vs = "ws_vertices s"
  note known = normalized_known [OF norm]
  obtain w where w: "w \<in> set (concat (map (expand (by_id ?vs)) ?vs))" "sv_id w = x" "y \<in> set (parents_of w)"
    using e by_id_in by (fastforce simp: edges_lower known(3))
  then obtain v where v: "v \<in> set ?vs" "w \<in> set (expand (by_id ?vs) v)" by auto
  have c: "contract ?vs (sv_id v) = sv_id v" using v(1) by (simp add: contract_def)
  show ?thesis
  proof (cases "needs_router (by_id ?vs) v")
    case True
    then have r: "router_id v \<notin> sv_id ` set ?vs" using known(2) v(1) by blast
    consider "w = interposed_router (router_id v) (parents_of v)" | "w = v\<lparr>sv_parents := Some [router_id v]\<rparr>"
      using v(2) True by (auto simp: expand_def)
    then show ?thesis
    proof cases
      case 1
      then have "y \<in> set (parents_of v)" "x = router_id v"
        using w(2,3) by (auto simp: parents_of_def interposed_router_def)
      then show ?thesis using lower_edge [OF ids v(1)] contract_router [OF r] by simp
    next
      case 2
      then have "y = router_id v" "x = sv_id v" using w(2,3) by (auto simp: parents_of_def)
      then show ?thesis using r c contract_router [OF r] by simp
    qed
  next
    case False
    then have "w = v" using v(2) by (simp add: expand_def)
    then show ?thesis using lower_edge [OF ids v(1)] w c by auto
  qed
qed

lemma normalized_edge_back:
  assumes norm: "normalizeWorkflow s = Inr n" and ids: "distinct (map sv_id (ws_vertices s))"
    and e: "(x, y) \<in> edges (lowerToProposal s)"
  shows "(x, y) \<in> (edges (lowerToProposal (nw_workflow n)))\<^sup>+"
proof -
  let ?vs = "ws_vertices s" and ?F = "edges (lowerToProposal (nw_workflow n))"
  note known = normalized_known [OF norm]
  obtain v where v: "map_get (by_id ?vs) x = Some v" "y \<in> set (parents_of v)" using e by (auto simp: edges_lower)
  then have vin: "v \<in> set ?vs" "sv_id v = x" using by_id_in by blast+
  have "\<forall>v\<in>set ?vs. needs_router (by_id ?vs) v \<longrightarrow> router_id v \<noteq> x" using known(2) vin by fastforce
  then have x: "map_get (by_id (ws_vertices (nw_workflow n))) x = Some (last (expand (by_id ?vs) v))"
    unfolding known(3) by (simp add: by_id_expand v(1))
  show ?thesis
  proof (cases "needs_router (by_id ?vs) v")
    case True
    then have "(x, router_id v) \<in> ?F" using x by (simp add: edges_lower last_expand parents_of_def)
    moreover have "(router_id v, y) \<in> ?F"
      using by_id_router [OF ids vin(1) True] known(2) vin(1) True v(2)
      by (simp add: edges_lower known(3)) (simp add: parents_of_def interposed_router_def)
    ultimately show ?thesis by (blast intro: trancl_into_trancl2)
  next
    case False
    then have "(x, y) \<in> ?F" using x v(2) by (simp add: edges_lower last_expand)
    then show ?thesis by blast
  qed
qed

lemma normalized_before:
  assumes norm: "normalizeWorkflow s = Inr n" and ids: "distinct (map sv_id (ws_vertices s))"
    and i: "i \<in> sv_id ` set (ws_vertices s)" and j: "j \<in> sv_id ` set (ws_vertices s)"
  shows "before (lowerToProposal (nw_workflow n)) j i \<longleftrightarrow> before (lowerToProposal s) j i"
proof
  let ?E = "edges (lowerToProposal s)" and ?F = "edges (lowerToProposal (nw_workflow n))"
  let ?c = "contract (ws_vertices s)"
  have closed: "?c y = y" if "(x, y) \<in> ?E" for x y
    using that normalized_known(1) [OF norm] by_id_in by (fastforce simp: edges_lower contract_def)
  have path: "(?c x, ?c y) \<in> ?E\<^sup>*" if "(x, y) \<in> ?F\<^sup>*" for x y
    using that
  proof (induction rule: rtrancl_induct)
    case (step y z)
    then show ?case using normalized_edge [OF norm ids step(2)] closed
      by (metis rtrancl.rtrancl_into_rtrancl)
  qed simp
  assume "before (lowerToProposal (nw_workflow n)) j i"
  then obtain x where x: "(i, x) \<in> ?F\<^sup>*" "(x, j) \<in> ?F" unfolding before_def by (metis tranclD2)
  have "(?c x, j) \<in> ?E" using normalized_edge [OF norm ids x(2)] j by blast
  moreover have "(i, ?c x) \<in> ?E\<^sup>*" using path [OF x(1)] i by (simp add: contract_def)
  ultimately show "before (lowerToProposal s) j i" unfolding before_def by (rule rtrancl_into_trancl1 [rotated])
next
  assume "before (lowerToProposal s) j i"
  then show "before (lowerToProposal (nw_workflow n)) j i"
    unfolding before_def
  proof (induction rule: trancl_induct)
    case (base y)
    then show ?case by (rule normalized_edge_back [OF norm ids])
  next
    case (step y z)
    then show ?case using normalized_edge_back [OF norm ids] by (meson trancl_trans)
  qed
qed

section \<open>Topological order\<close>

definition sub_edges :: "(string, submitted_vertex) js_map \<Rightarrow> (string \<times> string) set" where
  "sub_edges byId = {(i, q). \<exists>v. map_get byId i = Some v \<and> q \<in> set (parents_of v)}"

lemma edges_lower_sub: "edges (lowerToProposal w) = sub_edges (by_id (ws_vertices w))"
  by (auto simp: edges_lower sub_edges_def)

definition parents_first :: "submitted_vertex list \<Rightarrow> bool" where
  "parents_first vs \<longleftrightarrow> (\<forall>k<length vs. set (parents_of (vs ! k)) \<subseteq> sv_id ` set (take k vs))"

lemma parents_first_snoc:
  "parents_first (vs @ [v]) \<longleftrightarrow> parents_first vs \<and> set (parents_of v) \<subseteq> sv_id ` set vs"
  by (auto simp: parents_first_def nth_append less_Suc_eq)

lemma parents_first_nth:
  assumes "parents_first vs" and "k < length vs" and "p \<in> set (parents_of (vs ! k))"
  shows "\<exists>l<k. p = sv_id (vs ! l)"
proof -
  have "p \<in> sv_id ` set (take k vs)" using assms by (auto simp: parents_first_def)
  then obtain u where "u \<in> set (take k vs)" "p = sv_id u" by blast
  then obtain l where "l < length (take k vs)" "p = sv_id (take k vs ! l)" unfolding in_set_conv_nth by blast
  then show ?thesis by (intro exI [of _ l]) simp
qed

definition topo_ok :: "(string, submitted_vertex) js_map \<Rightarrow> topo_state \<Rightarrow> bool" where
  "topo_ok byId st \<longleftrightarrow>
     fst st = map sv_id (snd st) \<and> distinct (fst st) \<and> parents_first (snd st) \<and>
     (\<forall>v\<in>set (snd st). map_get byId (sv_id v) = Some v)"

lemma visit_ordered:
  shows "visit byId i visiting st = Inr st' \<Longrightarrow> topo_ok byId st \<Longrightarrow> set visiting \<inter> set (fst st) = {} \<Longrightarrow>
           \<forall>k v. map_get byId k = Some v \<longrightarrow> sv_id v = k \<Longrightarrow>
           topo_ok byId st' \<and> insert i (set (fst st)) \<subseteq> set (fst st') \<and> set visiting \<inter> set (fst st') = {}"
    and "visit_list byId ps visiting st = Inr st' \<Longrightarrow> topo_ok byId st \<Longrightarrow> set visiting \<inter> set (fst st) = {} \<Longrightarrow>
           \<forall>k v. map_get byId k = Some v \<longrightarrow> sv_id v = k \<Longrightarrow>
           topo_ok byId st' \<and> set ps \<union> set (fst st) \<subseteq> set (fst st') \<and> set visiting \<inter> set (fst st') = {}"
proof (induction byId i visiting st and byId ps visiting st arbitrary: st' and st' rule: visit_visit_list.induct)
  case (1 byId i visiting placed ordered)
  show ?case
  proof (cases "i \<in> set placed")
    case True
    then show ?thesis using 1 by (auto simp: visit.simps)
  next
    case new: False
    then have i: "i \<notin> set visiting" using 1(2) by (auto simp: visit.simps split: if_splits)
    obtain v where v: "map_get byId i = Some v" using 1(2) new i
      by (cases "map_get byId i") (auto simp: visit.simps)
    obtain p o' where step: "visit_list byId (parents_of v) (i # visiting) (placed, ordered) = Inr (p, o')"
      and st': "st' = (set_add p i, o' @ [v])"
      using 1(2) new i v by (cases "visit_list byId (parents_of v) (i # visiting) (placed, ordered)")
        (auto simp: visit.simps)
    have disj: "set (i # visiting) \<inter> set (fst (placed, ordered)) = {}" using 1(4) new by auto
    have IH: "topo_ok byId (p, o')" "set (parents_of v) \<union> set placed \<subseteq> set p" "set (i # visiting) \<inter> set p = {}"
      using 1(1) [OF new i v step 1(3) disj 1(5)] by auto
    have id: "sv_id v = i" using v 1(5) by blast
    have ip: "i \<notin> set p" using IH(3) by auto
    then have add: "set_add p i = p @ [i]" by (simp add: set_add_def)
    have "topo_ok byId st'"
      using IH(1,2) ip v id unfolding st' add by (auto simp: topo_ok_def parents_first_snoc)
    then show ?thesis using IH(2,3) i unfolding st' by auto
  qed
next
  case (2 byId visiting st)
  then show ?case by simp
next
  case (3 byId q ps visiting st)
  from 3(3) obtain st1 where first: "visit byId q visiting st = Inr st1"
    and rest: "visit_list byId ps visiting st1 = Inr st'"
    by (cases "visit byId q visiting st") auto
  have A: "topo_ok byId st1" "insert q (set (fst st)) \<subseteq> set (fst st1)" "set visiting \<inter> set (fst st1) = {}"
    using 3(1) [OF first 3(4,5,6)] by auto
  have "topo_ok byId st'" "set ps \<union> set (fst st1) \<subseteq> set (fst st')" "set visiting \<inter> set (fst st') = {}"
    using 3(2) [OF first rest A(1,3) 3(6)] by auto
  then show ?case using A(2) by auto
qed

lemma by_id_key: "\<forall>k v. map_get (by_id vs) k = Some v \<longrightarrow> sv_id v = k"
  using by_id_in by blast

lemma topologicalOrder_ok:
  assumes "topologicalOrder vs = Inr ord"
  shows "parents_first ord" and "distinct (map sv_id ord)" and "sv_id ` set ord = sv_id ` set vs"
    and "\<forall>v\<in>set ord. map_get (by_id vs) (sv_id v) = Some v"
proof -
  obtain p where p: "visit_list (by_id vs) (map sv_id vs) [] ([], []) = Inr (p, ord)"
    using assms by (auto simp: topologicalOrder_def bind_res_Inr)
  have "topo_ok (by_id vs) ([], [])" by (simp add: topo_ok_def parents_first_def)
  from visit_ordered(2) [OF p this _ by_id_key]
  have ok: "topo_ok (by_id vs) (p, ord)" and sub: "set (map sv_id vs) \<subseteq> set p" by auto
  then show "parents_first ord" "distinct (map sv_id ord)" "\<forall>v\<in>set ord. map_get (by_id vs) (sv_id v) = Some v"
    by (auto simp: topo_ok_def)
  then have "set ord \<subseteq> set vs" using by_id_in by blast
  moreover have "sv_id ` set vs \<subseteq> sv_id ` set ord" using ok sub by (simp add: topo_ok_def)
  ultimately show "sv_id ` set ord = sv_id ` set vs" by blast
qed

text \<open>An order with parents first leaves no cycle: every edge leads to an earlier position.\<close>

lemma ordered_edges:
  assumes ord: "parents_first ord" "\<forall>v\<in>set ord. map_get byId (sv_id v) = Some v"
    and all: "\<forall>i v. map_get byId i = Some v \<longrightarrow> i \<in> sv_id ` set ord"
    and e: "(i, q) \<in> (sub_edges byId)\<^sup>+"
  shows "\<exists>k l. k < l \<and> l < length ord \<and> sv_id (ord ! l) = i \<and> sv_id (ord ! k) = q"
proof -
  have one: "\<exists>k. k < l \<and> sv_id (ord ! k) = q"
    if "(i, q) \<in> sub_edges byId" "l < length ord" "sv_id (ord ! l) = i" for i q l
  proof -
    have "map_get byId i = Some (ord ! l)" using ord(2) that by (metis nth_mem)
    then have "q \<in> set (parents_of (ord ! l))" using that(1) by (auto simp: sub_edges_def)
    then show ?thesis using parents_first_nth [OF ord(1) that(2)] by auto
  qed
  have pos: "\<exists>l. l < length ord \<and> sv_id (ord ! l) = i" if e: "(i, q) \<in> sub_edges byId" for i q
  proof -
    obtain v where "map_get byId i = Some v" using e by (auto simp: sub_edges_def)
    then have "i \<in> sv_id ` set ord" using all by blast
    then obtain u where "u \<in> set ord" "i = sv_id u" by blast
    then show ?thesis unfolding in_set_conv_nth by blast
  qed
  from e show ?thesis
  proof (induction rule: trancl_induct)
    case (base y)
    then show ?case using one pos by metis
  next
    case (step y z)
    then obtain k l where "k < l" "l < length ord" "sv_id (ord ! l) = i" "sv_id (ord ! k) = y" by blast
    then show ?case using one [OF step(2), of k] by (metis order_less_trans)
  qed
qed

definition topo_error :: "(string, submitted_vertex) js_map \<Rightarrow> js_error \<Rightarrow> bool" where
  "topo_error byId e \<longleftrightarrow>
     (\<exists>i. e = Error (''workflow contains a cycle at '' @ i) \<and> (i, i) \<in> (sub_edges byId)\<^sup>+) \<or>
     \<not> Range (sub_edges byId) \<subseteq> mkeys byId"

lemma visit_errs:
  shows "visit byId i visiting st = Inl e \<Longrightarrow> \<forall>v\<in>set visiting. (v, i) \<in> (sub_edges byId)\<^sup>+ \<Longrightarrow>
           i \<in> mkeys byId \<union> Range (sub_edges byId) \<Longrightarrow> topo_error byId e"
    and "visit_list byId ps visiting st = Inl e \<Longrightarrow>
           \<forall>v\<in>set visiting. \<forall>p\<in>set ps. (v, p) \<in> (sub_edges byId)\<^sup>+ \<Longrightarrow>
           set ps \<subseteq> mkeys byId \<union> Range (sub_edges byId) \<Longrightarrow> topo_error byId e"
proof (induction byId i visiting st and byId ps visiting st rule: visit_visit_list.induct)
  case (1 byId i visiting placed ordered)
  have new: "i \<notin> set placed" using 1(2) by (auto simp: visit.simps split: if_splits)
  show ?case
  proof (cases "i \<in> set visiting")
    case True
    then show ?thesis using 1(2,3) new by (auto simp: visit.simps topo_error_def)
  next
    case False
    show ?thesis
    proof (cases "map_get byId i")
      case None
      then show ?thesis using 1(4) map_get_mkeys [of byId i] by (auto simp: topo_error_def)
    next
      case (Some v)
      have step: "visit_list byId (parents_of v) (i # visiting) (placed, ordered) = Inl e"
        using 1(2) new False Some by (auto simp: visit.simps split: sum.splits)
      have edge: "(i, p) \<in> sub_edges byId" if "p \<in> set (parents_of v)" for p
        using that Some by (auto simp: sub_edges_def)
      then have "\<forall>u\<in>set (i # visiting). \<forall>p\<in>set (parents_of v). (u, p) \<in> (sub_edges byId)\<^sup>+"
        using 1(3) by (auto intro: trancl_into_trancl)
      moreover have "set (parents_of v) \<subseteq> mkeys byId \<union> Range (sub_edges byId)" using edge by blast
      ultimately show ?thesis using 1(1) [OF new False Some step] by blast
    qed
  qed
next
  case (2 byId visiting st)
  then show ?case by simp
next
  case (3 byId q ps visiting st)
  then show ?case by (cases "visit byId q visiting st") auto
qed

lemma topologicalOrder_iff:
  "(\<exists>ord. topologicalOrder vs = Inr ord) \<longleftrightarrow>
     acyclic (sub_edges (by_id vs)) \<and> Range (sub_edges (by_id vs)) \<subseteq> sv_id ` set vs"
proof
  assume "\<exists>ord. topologicalOrder vs = Inr ord"
  then obtain ord where ord: "topologicalOrder vs = Inr ord" ..
  note ok = topologicalOrder_ok [OF ord]
  have all: "\<forall>i v. map_get (by_id vs) i = Some v \<longrightarrow> i \<in> sv_id ` set ord"
    unfolding ok(3) using by_id_in by blast
  have pos: "\<exists>k l. k < l \<and> l < length ord \<and> sv_id (ord ! l) = i \<and> sv_id (ord ! k) = q"
    if "(i, q) \<in> (sub_edges (by_id vs))\<^sup>+" for i q
    by (rule ordered_edges [OF ok(1,4) all that])
  have "acyclic (sub_edges (by_id vs))"
    unfolding acyclic_def
  proof (intro allI notI)
    fix i assume "(i, i) \<in> (sub_edges (by_id vs))\<^sup>+"
    then obtain k l where "k < l" "l < length ord" "sv_id (ord ! l) = sv_id (ord ! k)" using pos by metis
    then show False using nth_eq_iff_index_eq [OF ok(2), of k l] by simp
  qed
  moreover have "Range (sub_edges (by_id vs)) \<subseteq> sv_id ` set vs"
  proof
    fix q assume "q \<in> Range (sub_edges (by_id vs))"
    then obtain k where "k < length ord" "sv_id (ord ! k) = q" using pos r_into_trancl order_less_trans by blast
    then show "q \<in> sv_id ` set vs" using ok(3) by (metis imageI nth_mem)
  qed
  ultimately show "acyclic (sub_edges (by_id vs)) \<and> Range (sub_edges (by_id vs)) \<subseteq> sv_id ` set vs" ..
next
  assume a: "acyclic (sub_edges (by_id vs)) \<and> Range (sub_edges (by_id vs)) \<subseteq> sv_id ` set vs"
  have keys: "mkeys (by_id vs) = sv_id ` set vs"
    using by_id_None [of vs] map_get_mkeys [of "by_id vs"] by auto
  show "\<exists>ord. topologicalOrder vs = Inr ord"
  proof (cases "visit_list (by_id vs) (map sv_id vs) [] ([], [])")
    case (Inl e)
    then have "topo_error (by_id vs) e" by (rule visit_errs(2)) (auto simp: keys)
    then show ?thesis using a by (auto simp: topo_error_def acyclic_def keys)
  next
    case (Inr st)
    then show ?thesis by (cases st) (simp add: topologicalOrder_def)
  qed
qed

lemma topologicalOrder_perm:
  assumes "topologicalOrder vs = Inr ord" and "distinct (map sv_id vs)"
  shows "mset ord = mset vs"
proof -
  note ok = topologicalOrder_ok [OF assms(1)]
  have "set ord = set vs"
  proof
    show "set ord \<subseteq> set vs" using ok(4) by_id_in by blast
    show "set vs \<subseteq> set ord"
    proof
      fix v assume v: "v \<in> set vs"
      then obtain w where "w \<in> set ord" "sv_id w = sv_id v" using ok(3) by (metis imageE imageI)
      then show "v \<in> set ord" using ok(4) by_id_distinct [OF assms(2) v] by (metis option.inject)
    qed
  qed
  then show ?thesis using assms(2) ok(2) by (simp add: distinct_map set_eq_iff_mset_eq_distinct)
qed

section \<open>Generations of a key\<close>

lemma generation_suffix_nat_str: "n > 0 \<Longrightarrow> is_generation_suffix (nat_str n)"
  using nat_str_hd [of n] nat_str_digits [of _ n] by (auto simp: is_generation_suffix_def list_all_iff)

lemma generationOf_print: "n > 0 \<Longrightarrow> generationOf base (base @ GENERATION_SEPARATOR @ nat_str n) = Some n"
  by (simp add: generationOf_def startsWith_def GENERATION_SEPARATOR_def Let_def generation_suffix_nat_str)

lemma generationOf_base: "generationOf base base = Some 1"
  by (simp add: generationOf_def)

lemma nextIdempotencyKey_live:
  assumes "r \<in> set existing" and "generationOf base (br_idempotencyKey r) \<noteq> None" and "br_state r \<noteq> BracketCancelled"
  shows "\<exists>r'\<in>set existing. br_state r' \<noteq> BracketCancelled \<and> generationOf base (br_idempotencyKey r') \<noteq> None \<and>
           nextIdempotencyKey base existing = br_idempotencyKey r'"
proof -
  define gs where "gs = List.map_filter (\<lambda>r. map_option (Pair r) (generationOf base (br_idempotencyKey r))) existing"
  have mem: "(x, g) \<in> set gs \<longleftrightarrow> x \<in> set existing \<and> generationOf base (br_idempotencyKey x) = Some g" for x g
    by (force simp: gs_def List.map_filter_def)
  obtain g where g: "(r, g) \<in> set gs" using assms mem by blast
  have "\<not> find (\<lambda>(r, _). br_state r \<noteq> BracketCancelled) gs = None"
    using g assms(3) by (auto simp: find_None_iff)
  then obtain x h where f: "find (\<lambda>(r, _). br_state r \<noteq> BracketCancelled) gs = Some (x, h)" by auto
  then have x: "(x, h) \<in> set gs" "br_state x \<noteq> BracketCancelled"
    by (auto simp: find_Some_iff) (metis nth_mem)+
  have "nextIdempotencyKey base existing = br_idempotencyKey x"
    using f g by (auto simp: nextIdempotencyKey_def gs_def [symmetric] Let_def)
  then show ?thesis using x mem by auto
qed

lemma nextIdempotencyKey_fresh:
  assumes "\<forall>r\<in>set existing. generationOf base (br_idempotencyKey r) \<noteq> None \<longrightarrow> br_state r = BracketCancelled"
  shows "\<exists>g. generationOf base (nextIdempotencyKey base existing) = Some g \<and>
           (\<forall>r\<in>set existing. \<forall>h. generationOf base (br_idempotencyKey r) = Some h \<longrightarrow> h < g)"
    and "nextIdempotencyKey base existing \<notin> br_idempotencyKey ` set existing"
proof -
  define gs where "gs = List.map_filter (\<lambda>r. map_option (Pair r) (generationOf base (br_idempotencyKey r))) existing"
  have mem: "(x, g) \<in> set gs \<longleftrightarrow> x \<in> set existing \<and> generationOf base (br_idempotencyKey x) = Some g" for x g
    by (force simp: gs_def List.map_filter_def)
  show newer: "\<exists>g. generationOf base (nextIdempotencyKey base existing) = Some g \<and>
      (\<forall>r\<in>set existing. \<forall>h. generationOf base (br_idempotencyKey r) = Some h \<longrightarrow> h < g)"
  proof (cases "gs = []")
    case True
    then have "nextIdempotencyKey base existing = base" by (simp add: nextIdempotencyKey_def gs_def [symmetric])
    moreover have "generationOf base (br_idempotencyKey r) \<noteq> Some h" if "r \<in> set existing" for r h
      using mem [of r h] that True by simp
    ultimately show ?thesis by (auto simp: generationOf_base)
  next
    case False
    have none: "find (\<lambda>(r, _). br_state r \<noteq> BracketCancelled) gs = None"
      using assms mem by (auto simp: find_None_iff)
    have "nextIdempotencyKey base existing = base @ GENERATION_SEPARATOR @ nat_str (Max (set (map snd gs)) + 1)"
      using False none by (simp add: nextIdempotencyKey_def gs_def [symmetric] Let_def)
    moreover have "h < Max (set (map snd gs)) + 1"
      if "r \<in> set existing" "generationOf base (br_idempotencyKey r) = Some h" for r h
    proof -
      have "h \<in> set (map snd gs)" using mem [of r h] that by force
      from Max_ge [OF finite_set this] show ?thesis by (simp add: less_Suc_eq_le)
    qed
    ultimately show ?thesis using generationOf_print [of "Max (set (map snd gs)) + 1" base] by auto
  qed
  then show "nextIdempotencyKey base existing \<notin> br_idempotencyKey ` set existing" by force
qed

section \<open>Compiled drafts\<close>

lemma compile_vertexD:
  assumes "compile_vertex w resolved bindings brackets vertexIds scopeIds slotIds v = Inr d"
  shows "dr_event_type d = VertexCreated" and "dr_vertex_id d = map_get vertexIds (sv_id v)"
    and "dr_parent_refs d = Some (if parents_of v \<noteq> [] then map (\<lambda>p. nullish (map_get vertexIds p) []) (parents_of v)
           else nullish (ws_attachTo w) [])"
    and "present (sv_scope v) \<Longrightarrow> dr_scope_id d = map_get scopeIds (the (sv_scope v)) \<and> present (dr_scope_id d)"
  using assms
  by (auto simp: compile_vertex_def Let_def bind_res_Inr truthy_string_def split: if_splits)

lemma enumerate_ids:
  assumes "distinct (map sv_id vs)" and "k < length vs"
  shows "map_get (new_map (map (\<lambda>(n, v). (sv_id v, newId n)) (enumerate 0 vs))) (sv_id (vs ! k)) = Some (newId k)"
proof -
  let ?es = "map (\<lambda>(n, v). (sv_id v, newId n)) (enumerate 0 vs)"
  have "map fst ?es = map (sv_id \<circ> snd) (enumerate 0 vs)" by (simp add: comp_def case_prod_beta)
  then have keys: "distinct (map fst ?es)" using assms(1) by (simp only: map_snd_enumerate)
  have "(sv_id (vs ! k), newId k) \<in> set ?es" using assms(2) by (force simp: in_set_enumerate_eq)
  then have "map_of ?es (sv_id (vs ! k)) = Some (newId k)" using keys by (metis map_of_eq_Some_iff)
  then show ?thesis by (simp only: map_get_new_map_distinct [OF keys])
qed

lemma compiled_ids:
  assumes "distinct (map sv_id vs)" and "inj newId" and "i \<in> sv_id ` set vs" and "j \<in> sv_id ` set vs"
  shows "map_get (new_map (map (\<lambda>(n, v). (sv_id v, newId n)) (enumerate 0 vs))) i \<noteq> None"
    and "map_get (new_map (map (\<lambda>(n, v). (sv_id v, newId n)) (enumerate 0 vs))) i =
         map_get (new_map (map (\<lambda>(n, v). (sv_id v, newId n)) (enumerate 0 vs))) j \<Longrightarrow> i = j"
proof -
  obtain k where k: "k < length vs" "i = sv_id (vs ! k)" using assms(3) by (metis imageE in_set_conv_nth)
  obtain l where l: "l < length vs" "j = sv_id (vs ! l)" using assms(4) by (metis imageE in_set_conv_nth)
  note eq = enumerate_ids [OF assms(1) k(1), of newId] enumerate_ids [OF assms(1) l(1), of newId]
  show "map_get (new_map (map (\<lambda>(n, v). (sv_id v, newId n)) (enumerate 0 vs))) i \<noteq> None" using eq k by simp
  show "i = j" if "map_get (new_map (map (\<lambda>(n, v). (sv_id v, newId n)) (enumerate 0 vs))) i =
         map_get (new_map (map (\<lambda>(n, v). (sv_id v, newId n)) (enumerate 0 vs))) j"
    using that eq k l assms(2) by (simp add: inj_eq)
qed

lemma compiled_order:
  assumes c: "compileVertexDrafts sha256 w resolved bindings newId brackets = Inr c"
    and ids: "distinct (map sv_id (ws_vertices w))" and inj: "inj newId"
  shows "distinct (map dr_vertex_id (cs_drafts c))"
    and "length (cs_drafts c) = length (ws_vertices w)"
    and "k < length (cs_drafts c) \<Longrightarrow> r \<in> set (the (dr_parent_refs (cs_drafts c ! k))) \<Longrightarrow>
         Some r \<in> dr_vertex_id ` set (take k (cs_drafts c)) \<or> r \<in> set (nullish (ws_attachTo w) [])"
proof -
  define vids where "vids = new_map (map (\<lambda>(n, v). (sv_id v, newId n)) (enumerate 0 (ws_vertices w)))"
  obtain ord sids where ord: "topologicalOrder (ws_vertices w) = Inr ord"
    and l2: "list_all2 (\<lambda>v d. compile_vertex w resolved bindings brackets vids sids (routerSlotIds sha256 w) v = Inr d)
               ord (cs_drafts c)"
    using c by (auto simp: compileVertexDrafts_def Let_def bind_res_Inr map_res_Inr vids_def)
  note ok = topologicalOrder_ok [OF ord]
  have len: "length (cs_drafts c) = length ord" using l2 by (auto dest: list_all2_lengthD)
  have nth: "compile_vertex w resolved bindings brackets vids sids (routerSlotIds sha256 w) (ord ! k) = Inr (cs_drafts c ! k)"
    if "k < length ord" for k using l2 that by (simp add: list_all2_conv_all_nth)
  have vid: "dr_vertex_id (cs_drafts c ! k) = map_get vids (sv_id (ord ! k))" if "k < length ord" for k
    using compile_vertexD(2) [OF nth [OF that]] .
  have idin: "sv_id (ord ! k) \<in> sv_id ` set (ws_vertices w)" if "k < length ord" for k
    using ok(3) that by (metis imageI nth_mem)
  note compiled = compiled_ids [OF ids inj, folded vids_def]
  show "distinct (map dr_vertex_id (cs_drafts c))"
    unfolding distinct_conv_nth using len vid compiled(2) [OF idin idin] nth_eq_iff_index_eq [OF ok(2)]
    by (metis length_map nth_map)
  show "length (cs_drafts c) = length (ws_vertices w)"
    using topologicalOrder_perm [OF ord ids] len by (metis size_mset)
  assume k: "k < length (cs_drafts c)" and r: "r \<in> set (the (dr_parent_refs (cs_drafts c ! k)))"
  show "Some r \<in> dr_vertex_id ` set (take k (cs_drafts c)) \<or> r \<in> set (nullish (ws_attachTo w) [])"
  proof (cases "parents_of (ord ! k) = []")
    case True
    then show ?thesis using compile_vertexD(3) [OF nth] k r len by simp
  next
    case False
    then obtain p where p: "p \<in> set (parents_of (ord ! k))" "r = nullish (map_get vids p) []"
      using compile_vertexD(3) [OF nth] k r len by auto
    then obtain l where l: "l < k" "p = sv_id (ord ! l)"
      using parents_first_nth [OF ok(1), of k p] k len by auto
    then have "dr_vertex_id (cs_drafts c ! l) = Some r"
      using vid [of l] compiled(1) [OF idin idin, of l l] k len p(2) by fastforce
    moreover have "cs_drafts c ! l \<in> set (take k (cs_drafts c))"
      using l(1) k by (auto simp: in_set_conv_nth)
    ultimately show ?thesis by force
  qed
qed

section \<open>A concrete submission\<close>

definition wit_tool_vertex :: "string \<Rightarrow> string list \<Rightarrow> submitted_vertex" where
  "wit_tool_vertex i ps = \<lparr>sv_id = i, sv_parents = Some ps, sv_scope = None,
     sv_body = ToolBody ''quote'' None None None\<rparr>"

definition wit_planner :: "string \<Rightarrow> string list \<Rightarrow> submitted_vertex" where
  "wit_planner i ps = \<lparr>sv_id = i, sv_parents = Some ps, sv_scope = None, sv_body = PlannerBody (Some ''book'')\<rparr>"

definition wit_submission :: workflow_submission where
  "wit_submission = \<lparr>ws_submissionId = ''s-1'', ws_schemaVersion = ''v1'',
     ws_vertices = [wit_planner ''p'' [''a'', ''b''], wit_tool_vertex ''a'' [], wit_tool_vertex ''b'' [''a'']],
     ws_scopes = None, ws_workflowType = None, ws_attachTo = Some [''root''], ws_source = None\<rparr>"

definition wit_normal :: normalized_workflow where
  "wit_normal = \<lparr>nw_workflow = wit_submission\<lparr>ws_vertices :=
       [interposed_router ''p#router'' [''a'', ''b''], wit_planner ''p'' [''p#router''],
        wit_tool_vertex ''a'' [], wit_tool_vertex ''b'' [''a'']]\<rparr>, nw_interposed = [''p#router'']\<rparr>"

lemma wit_normalized: "normalizeWorkflow wit_submission = Inr wit_normal"
  by code_simp

lemma wit_ids: "distinct (map sv_id (ws_vertices wit_submission))"
  by code_simp

section \<open>Properties\<close>

text \<open>Normalization is idempotent: the workflow it returns normalizes to itself, with no router
  interposed.\<close>

lemma normalizeWorkflow_idempotent:
  assumes "normalizeWorkflow s = Inr n"
  shows "normalizeWorkflow (nw_workflow n) = Inr \<lparr>nw_workflow = nw_workflow n, nw_interposed = []\<rparr>"
  by (rule normalizeWorkflow_twice [OF assms])

text \<open>After normalization rule R14 cannot fire: in the lowered proposal no tool vertex is a direct
  parent of a planner.\<close>

lemma normalizeWorkflow_R14:
  assumes "normalizeWorkflow s = Inr n"
    and "buildContext (lowerToProposal (nw_workflow n)) reg = Inr c"
  shows "rule_R14 c = []"
  using normalized_planner_edges [OF assms(1)] rule_R14_empty [OF assms(2)] by simp

definition wit_read_registry :: tool_registry where
  "wit_read_registry = [(''quote'', wit_tool ''quote'' EffNone Plain [])]"

text \<open>C5: interposing routers changes no ordering among the vertices the author wrote: one of them runs
  before another in the normalized workflow exactly when it does in the submitted one.\<close>

theorem normalizeWorkflow_preserves_order:
  assumes "normalizeWorkflow s = Inr n" and "distinct (map sv_id (ws_vertices s))"
    and "i \<in> sv_id ` set (ws_vertices s)" and "j \<in> sv_id ` set (ws_vertices s)"
  shows "before (lowerToProposal (nw_workflow n)) j i \<longleftrightarrow> before (lowerToProposal s) j i"
  by (rule normalized_before [OF assms])

theorem normalizeWorkflow_preserves_order_witness:
  "before (lowerToProposal (nw_workflow wit_normal)) ''a'' ''p'' \<longleftrightarrow> before (lowerToProposal wit_submission) ''a'' ''p''"
  by (rule normalizeWorkflow_preserves_order [OF wit_normalized wit_ids])
    (simp_all add: wit_submission_def wit_planner_def wit_tool_vertex_def)

text \<open>C6: the topological order exists exactly when every parent is a vertex and the parent edges have
  no cycle; otherwise the compiler throws.\<close>

theorem topologicalOrder_returns_iff:
  "(\<exists>ord. topologicalOrder (ws_vertices w) = Inr ord) \<longleftrightarrow>
     acyclic (edges (lowerToProposal w)) \<and>
     Range (edges (lowerToProposal w)) \<subseteq> sv_id ` set (ws_vertices w)"
  unfolding topologicalOrder_iff edges_lower_sub ..

text \<open>The topological order is a permutation of the vertices in which every parent precedes its
  children.\<close>

lemma topologicalOrder_correct:
  assumes "topologicalOrder vs = Inr ord" and "distinct (map sv_id vs)"
  shows "mset ord = mset vs \<and> parents_first ord"
  using topologicalOrder_perm [OF assms] topologicalOrder_ok(1) [OF assms(1)] by blast


text \<open>C4: compiled drafts are in causal order.  With unique author ids and a generator that never
  repeats an identifier there is one draft per vertex, each with its own id, and every parent a draft
  names is the id of an earlier draft or an attach point of the submission.\<close>

theorem compileVertexDrafts_causal:
  assumes "compileVertexDrafts sha256 w resolved bindings newId brackets = Inr c"
    and "distinct (map sv_id (ws_vertices w))" and "inj newId"
  shows "distinct (map dr_vertex_id (cs_drafts c)) \<and> length (cs_drafts c) = length (ws_vertices w) \<and>
    (\<forall>k<length (cs_drafts c). \<forall>r\<in>set (the (dr_parent_refs (cs_drafts c ! k))).
       Some r \<in> dr_vertex_id ` set (take k (cs_drafts c)) \<or> r \<in> set (nullish (ws_attachTo w) []))"
  using compiled_order [OF assms] by blast

definition wit_ids_from :: "nat \<Rightarrow> string" where
  "wit_ids_from n = CHR ''v'' # nat_str n"

definition wit_planners :: workflow_submission where
  "wit_planners = wit_submission\<lparr>ws_vertices := [wit_planner ''q'' [''p''], wit_planner ''p'' []]\<rparr>"

theorem compileVertexDrafts_causal_witness:
  "\<exists>c. compileVertexDrafts wit_hash wit_planners wit_resolved [] wit_ids_from [] = Inr c \<and>
     length (cs_drafts c) = 2 \<and> distinct (map dr_vertex_id (cs_drafts c))"
proof -
  have "\<not> isl (compileVertexDrafts wit_hash wit_planners wit_resolved [] wit_ids_from [])" by code_simp
  then obtain c where c: "compileVertexDrafts wit_hash wit_planners wit_resolved [] wit_ids_from [] = Inr c"
    by (cases "compileVertexDrafts wit_hash wit_planners wit_resolved [] wit_ids_from []") auto
  have "distinct (map sv_id (ws_vertices wit_planners))" by code_simp
  moreover have "inj wit_ids_from" by (simp add: wit_ids_from_def inj_def)
  moreover have "length (ws_vertices wit_planners) = 2" by code_simp
  ultimately show ?thesis using compileVertexDrafts_causal [OF c] c by auto
qed

end
