(* ===== verification/Event_Store.thy ===== *)
theory Event_Store
  imports Workflow
begin

text \<open>
  The event store (engine/src/log/store.ts) over the tables it reads and writes (db/migrations): the
  causal fork of a run, stream reads, appends with contiguous sequence numbers, the freeze and
  recovery transactions that hold the scope rows, forks, and the business plane.

  A transaction is a function from the database to a result and the database it commits; a thrown
  error is a rollback.  What the triggers of the transaction tables refuse is a parameter
  \<open>guard\<close> (an error for a row they raise on), the JSON-schema validator is a parameter
  \<open>validateSchema\<close>, and the scope and bracket rows are tables that the coordinator writes.
\<close>

section \<open>Causal descendants\<close>

definition EXECUTION_EVENT_TYPES :: "event_type list" where
  "EXECUTION_EVENT_TYPES = [VertexStarted, VertexSucceeded, VertexFailed, VertexRetried, BudgetCharged]"

definition add_child :: "string \<Rightarrow> (string, string list) js_map \<Rightarrow> string \<Rightarrow> (string, string list) js_map" where
  "add_child v m p = map_set p (nullish (map_get m p) [] @ [v]) m"

definition children_of :: "stored_event list \<Rightarrow> (string, string list) js_map" where
  "children_of events = foldl (\<lambda>m e.
     if about VertexCreated e then foldl (add_child (the (vertex_id e))) m (parent_refs e) else m) [] events"

text \<open>The frontier is a stack; its top is the head of the list.\<close>

definition push_child :: "string js_set \<times> string list \<Rightarrow> string \<Rightarrow> string js_set \<times> string list" where
  "push_child st c = (if c \<in> set (fst st) then st else (set_add (fst st) c, c # snd st))"

definition push_children :: "string list \<Rightarrow> string js_set \<times> string list \<Rightarrow> string js_set \<times> string list" where
  "push_children cs st = foldl push_child st cs"

lemma push_children_simps [simp]:
  "push_children [] st = st" "push_children (c # cs) st = push_children cs (push_child st c)"
  by (simp_all add: push_children_def)

lemma push_children_fst: "set (fst (push_children cs st)) = set (fst st) \<union> set cs"
  by (induction cs arbitrary: st) (auto simp: push_child_def)

lemma push_children_snd:
  "\<exists>new. snd (push_children cs st) = new @ snd st \<and> set new = set cs - set (fst st)"
proof (induction cs arbitrary: st)
  case (Cons c cs)
  show ?case
  proof (cases "c \<in> set (fst st)")
    case True
    with Cons [of st] show ?thesis by (auto simp: push_child_def)
  next
    case False
    with Cons [of "push_child st c"] show ?thesis by (fastforce simp: push_child_def)
  qed
qed simp

definition child_ids :: "(string, string list) js_map \<Rightarrow> string set" where
  "child_ids children = (\<Union>(p, cs)\<in>set children. set cs)"

lemma children_in: "set (nullish (map_get children v) []) \<subseteq> child_ids children"
  by (cases "map_get children v") (auto simp: child_ids_def dest: map_get_in_set)

lemma finite_child_ids [simp]: "finite (child_ids children)"
  by (auto simp: child_ids_def)

function search_descendants :: "(string, string list) js_map \<Rightarrow> string js_set \<Rightarrow> string list \<Rightarrow> string js_set" where
  "search_descendants children ds [] = ds"
| "search_descendants children ds (v # fr) =
     (let st = push_children (nullish (map_get children v) []) (ds, fr)
      in search_descendants children (fst st) (snd st))"
  by pat_completeness auto
termination
proof (relation "measures [\<lambda>(ch, ds, fr). card (child_ids ch - set ds), \<lambda>(ch, ds, fr). length fr]", goal_cases)
  case 1
  then show ?case by simp
next
  case (2 children ds v fr st)
  let ?cs = "nullish (map_get children v) []"
  obtain new where new: "snd st = new @ fr" "set new = set ?cs - set ds"
    using push_children_snd [of ?cs "(ds, fr)"] 2 by auto
  have ds: "set (fst st) = set ds \<union> set ?cs" using push_children_fst [of ?cs "(ds, fr)"] 2 by simp
  show ?case
  proof (cases "set ?cs \<subseteq> set ds")
    case True
    then have "new = []" using new(2) by (metis Diff_eq_empty_iff set_empty)
    then show ?thesis using True new ds by (simp add: Un_absorb2)
  next
    case False
    then have "card (child_ids children - set (fst st)) < card (child_ids children - set ds)"
      using ds children_in [of children v] by (intro psubset_card_mono) auto
    then show ?thesis by (simp add: case_prod_beta)
  qed
qed

declare search_descendants.simps(2) [simp del]

definition causalDescendants :: "stored_event list \<Rightarrow> string \<Rightarrow> string js_set" where
  "causalDescendants events v = search_descendants (children_of events) [] [v]"

section \<open>The slice of a fork\<close>

record fork_substitution =
  fs_run_seq :: nat
  fs_pin_version :: string

record fork_slice =
  sl_seed :: "stored_event list"
  sl_independent :: "stored_event list"
  sl_invalidated :: "stored_event list"
  sl_divergence_seq :: nat

definition is_invalidated :: "string js_set \<Rightarrow> string \<Rightarrow> bool \<Rightarrow> stored_event \<Rightarrow> bool" where
  "is_invalidated invalidatedVertices atVertexId hasSubstitutions e =
     (if \<not> hasSubstitutions then False
      else if present (vertex_id e) \<and> the (vertex_id e) \<in> set invalidatedVertices then True
      else if vertex_id e = Some atVertexId \<and> event_type e \<in> set EXECUTION_EVENT_TYPES then True
      else \<exists>p\<in>set (parent_refs e). p = atVertexId \<or> p \<in> set invalidatedVertices)"

definition bad_substitution :: "stored_event list \<Rightarrow> string \<Rightarrow> nat \<Rightarrow> bool" where
  "bad_substitution window atVertexId sequence =
     (case find (\<lambda>e. run_seq e = sequence) window of
        None \<Rightarrow> True
      | Some e \<Rightarrow> \<not> present (pin_version e) \<or> vertex_id e \<noteq> Some atVertexId)"

definition computeForkSlice ::
    "stored_event list \<Rightarrow> string \<Rightarrow> fork_substitution list \<Rightarrow> nat \<Rightarrow> fork_slice res" where
  "computeForkSlice source atVertexId substitutions evalUpToSeq =
     (let window = filter (\<lambda>e. run_seq e \<le> evalUpToSeq) source;
          substituted = new_map (map (\<lambda>s. (fs_run_seq s, fs_pin_version s)) substitutions) in
      case find (names_vertex VertexCreated atVertexId) window of
        None \<Rightarrow> Inl (Error (''divergence vertex '' @ atVertexId @ '' is not created within eval_up_to_seq '' @
                  nat_str evalUpToSeq))
      | Some divergence \<Rightarrow>
          if length substituted \<noteq> length substitutions
          then Inl (Error ''fork substitutions must not repeat a run sequence'')
          else case find (bad_substitution window atVertexId) (map fst substituted) of
            Some sequence \<Rightarrow> Inl (Error (''substitution '' @ nat_str sequence @
              '' must name a pinned event of the divergence vertex''))
          | None \<Rightarrow>
              (let invalidatedVertices = (if substituted \<noteq> [] then causalDescendants window atVertexId else []);
                   inv = is_invalidated invalidatedVertices atVertexId (substituted \<noteq> []);
                   invalidated = filter inv window;
                   kept = filter (\<lambda>e. \<not> inv e) window in
               case find (\<lambda>s. s \<in> run_seq ` set invalidated) (map fst substituted) of
                 Some sequence \<Rightarrow> Inl (Error (''substitution '' @ nat_str sequence @ '' names an invalidated event''))
               | None \<Rightarrow> Inr
                   \<lparr>sl_seed = filter (\<lambda>e. run_seq e \<le> run_seq divergence) kept,
                    sl_independent = filter (\<lambda>e. \<not> run_seq e \<le> run_seq divergence) kept,
                    sl_invalidated = invalidated, sl_divergence_seq = run_seq divergence\<rparr>))"

section \<open>The database\<close>

record run_row =
  rr_next_seq :: nat
  rr_seed_floor :: "nat option"

record locked_scope_row =
  ls_scope_id :: string
  ls_run_id :: string
  ls_state :: string
  ls_pivot_count :: nat
  ls_has_sealed_try :: bool
  ls_has_expired_try :: bool
  ls_fenced :: bool

record business_event =
  be_stream_id :: string
  be_stream_seq :: nat
  be_run_id :: "string option"
  be_run_seq :: "nat option"
  be_event_type :: string
  be_is_counterfactual :: bool
  be_payload :: json_object

record database =
  db_runs :: "(string, run_row) js_map"
  db_log :: "stored_event list"
  db_scopes :: "locked_scope_row list"
  db_brackets :: "bracket_record list"
  db_streams :: "(string, nat) js_map"
  db_business :: "business_event list"
  db_now :: string

type_synonym guard = "database \<Rightarrow> stored_event \<Rightarrow> js_error option"
type_synonym validator = "event_draft \<Rightarrow> string option"

datatype actor = Engine | Coordinator

definition requireEngine :: "actor \<Rightarrow> unit res" where
  "requireEngine a = (if a \<noteq> Engine then Inl (Error ''operation requires engine role'') else Inr ())"

subsection \<open>Rows\<close>

text \<open>The row a draft becomes: empty strings are null, absent references and flags take their defaults.\<close>

definition draft_row :: "database \<Rightarrow> string \<Rightarrow> nat \<Rightarrow> event_draft \<Rightarrow> stored_event" where
  "draft_row db runId sequence d =
     \<lparr>run_id = runId, run_seq = sequence, global_seq = Suc (length (db_log db)), event_type = dr_event_type d,
      vertex_id = truthy_string (dr_vertex_id d), parent_refs = nullish (dr_parent_refs d) [],
      planner_id = truthy_string (dr_planner_id d), scope_id = truthy_string (dr_scope_id d),
      pin_version = truthy_string (dr_pin_version d), ignorable = nullish (dr_ignorable d) False,
      inherited = False, payload = (case dr_payload d of JObj ob \<Rightarrow> ob | _ \<Rightarrow> []), created_at = db_now db\<rparr>"

text \<open>The primary key of the log is the run and the number.\<close>

definition insert_log :: "database \<Rightarrow> stored_event \<Rightarrow> database res" where
  "insert_log db e =
     (if \<exists>x\<in>set (db_log db). run_id x = run_id e \<and> run_seq x = run_seq e
      then Inl (Error ''duplicate key value violates unique constraint'')
      else Inr (db\<lparr>db_log := db_log db @ [e]\<rparr>))"

definition insert_row :: "guard \<Rightarrow> database \<Rightarrow> stored_event \<Rightarrow> database res" where
  "insert_row guard db e = (case guard db e of Some err \<Rightarrow> Inl err | None \<Rightarrow> insert_log db e)"

text \<open>\<open>append_events\<close>: every event takes the next number of its run.\<close>

fun append_rows :: "guard \<Rightarrow> string \<Rightarrow> event_draft list \<Rightarrow> database \<Rightarrow> (nat list \<times> database) res" where
  "append_rows guard runId [] db = Inr ([], db)"
| "append_rows guard runId (d # ds) db =
     (case map_get (db_runs db) runId of
        None \<Rightarrow> Inl (Error (''run '' @ runId @ '' does not exist''))
      | Some r \<Rightarrow>
          bind_res (insert_row guard
              (db\<lparr>db_runs := map_set runId (r\<lparr>rr_next_seq := Suc (rr_next_seq r)\<rparr>) (db_runs db)\<rparr>)
              (draft_row db runId (rr_next_seq r) d)) (\<lambda>db'.
          bind_res (append_rows guard runId ds db') (\<lambda>(seqs, db''). Inr (rr_next_seq r # seqs, db''))))"

definition append_events :: "guard \<Rightarrow> string \<Rightarrow> event_draft list \<Rightarrow> database \<Rightarrow> (nat list \<times> database) res" where
  "append_events guard runId ds db =
     (if ds = [] then Inl (Error ''append_events requires a non-empty event array'')
      else append_rows guard runId ds db)"

text \<open>\<open>copy_inherited_events\<close>: a copy keeps its number, which must lie within the fork's seed floor.\<close>

definition inherited_row :: "database \<Rightarrow> string \<Rightarrow> stored_event \<Rightarrow> stored_event" where
  "inherited_row db runId e =
     e\<lparr>run_id := runId, inherited := True, global_seq := Suc (length (db_log db)), created_at := db_now db\<rparr>"

fun copy_rows :: "nat \<Rightarrow> string \<Rightarrow> stored_event list \<Rightarrow> database \<Rightarrow> database res" where
  "copy_rows seedFloor runId [] db = Inr db"
| "copy_rows seedFloor runId (e # es) db =
     (if run_seq e < 1 \<or> run_seq e > seedFloor
      then Inl (Error (''inherited run_seq '' @ nat_str (run_seq e) @ '' must lie within the seed floor '' @ nat_str seedFloor))
      else bind_res (insert_log db (inherited_row db runId e)) (\<lambda>db'. copy_rows seedFloor runId es db'))"

definition copy_inherited_events :: "string \<Rightarrow> stored_event list \<Rightarrow> database \<Rightarrow> database res" where
  "copy_inherited_events runId es db =
     (case map_get (db_runs db) runId of
        None \<Rightarrow> Inl (Error (''run '' @ runId @ '' does not exist''))
      | Some r \<Rightarrow>
          (case rr_seed_floor r of
             None \<Rightarrow> Inl (Error (''run '' @ runId @ '' is not a fork; inherited copies require a seed floor''))
           | Some floorSeq \<Rightarrow> copy_rows floorSeq runId es db))"

definition create_run :: "string \<Rightarrow> run_row \<Rightarrow> database \<Rightarrow> database res" where
  "create_run runId r db =
     (if map_has (db_runs db) runId then Inl (Error ''duplicate key value violates unique constraint'')
      else Inr (db\<lparr>db_runs := map_set runId r (db_runs db)\<rparr>))"

section \<open>The store\<close>

subsection \<open>Runs, appends and reads\<close>

definition createRun :: "actor \<Rightarrow> string \<Rightarrow> database \<Rightarrow> (string \<times> database) res" where
  "createRun a runId db =
     bind_res (requireEngine a) (\<lambda>_.
     bind_res (create_run runId \<lparr>rr_next_seq = 1, rr_seed_floor = None\<rparr> db) (\<lambda>db'. Inr (runId, db')))"

definition appendWith :: "validator \<Rightarrow> guard \<Rightarrow> string \<Rightarrow> event_draft list \<Rightarrow> database \<Rightarrow> (nat list \<times> database) res" where
  "appendWith validateSchema guard runId ds db =
     bind_res (map_res (assertEventDraft validateSchema) ds) (\<lambda>_. append_events guard runId ds db)"

definition appendEvents :: "validator \<Rightarrow> guard \<Rightarrow> string \<Rightarrow> event_draft list \<Rightarrow> database \<Rightarrow> (nat list \<times> database) res" where
  "appendEvents validateSchema guard runId ds db =
     (if ds = [] then Inl (Error ''appendEvents requires at least one event'')
      else appendWith validateSchema guard runId ds db)"

definition readStream :: "database \<Rightarrow> string \<Rightarrow> nat option \<Rightarrow> stored_event list" where
  "readStream db runId atRunSeq =
     sort_key run_seq (filter (\<lambda>e. run_id e = runId \<and> (case atRunSeq of None \<Rightarrow> True | Some n \<Rightarrow> run_seq e \<le> n)) (db_log db))"

definition readStreamAfter :: "database \<Rightarrow> string \<Rightarrow> nat \<Rightarrow> nat \<Rightarrow> stored_event list" where
  "readStreamAfter db runId afterRunSeq limit =
     take limit (sort_key run_seq (filter (\<lambda>e. run_id e = runId \<and> run_seq e > afterRunSeq) (db_log db)))"

subsection \<open>Scope snapshots\<close>

definition snapshotState :: "string \<Rightarrow> bool \<Rightarrow> scope_state" where
  "snapshotState stored hasSealedTry =
     (if stored = ''committed'' then SCommitted
      else if stored = ''cancelled'' then SCancelled
      else if hasSealedTry then SHalfOpen else SOpen)"

definition admissionBlock :: "string \<Rightarrow> bool \<Rightarrow> bool \<Rightarrow> admission_block option" where
  "admissionBlock stored hasExpiredSealedTry fenced =
     (if stored = ''cancelling'' then Some Cancelling
      else if stored = ''suspended'' then Some Suspended
      else if stored = ''pivot-inflight'' then Some PivotInflight
      else if stored = ''pivot-passed'' then Some PivotPassed
      else if fenced \<and> stored = ''open'' then Some Fenced
      else if hasExpiredSealedTry then Some ExpiredTry else None)"

definition rowToScopeSnapshot :: "locked_scope_row \<Rightarrow> scope_snapshot" where
  "rowToScopeSnapshot row =
     \<lparr>ss_scopeId = ls_scope_id row, ss_state = snapshotState (ls_state row) (ls_has_sealed_try row),
      ss_pivotCount = ls_pivot_count row,
      ss_admissionBlock = admissionBlock (ls_state row) (ls_has_expired_try row) (ls_fenced row)\<rparr>"

definition lock_run_scopes :: "database \<Rightarrow> string \<Rightarrow> locked_scope_row list" where
  "lock_run_scopes db runId = filter (\<lambda>r. ls_run_id r = runId) (db_scopes db)"

definition readBracketsWith :: "database \<Rightarrow> string list \<Rightarrow> bracket_index" where
  "readBracketsWith db keys =
     foldl (\<lambda>found (base, r). map_set base (nullish (map_get found base) [] @ [r]) found) []
       (concat (map (\<lambda>base. map (Pair base) (filter (\<lambda>r. br_idempotencyKey r = base \<or>
          startsWith (br_idempotencyKey r) (base @ ''#'')) (db_brackets db))) (new_set keys)))"

record run_admission_context =
  ac_scopes :: "scope_snapshot list"
  ac_isCounterfactual :: bool
  ac_brackets :: bracket_index

definition readAdmissionContextWith :: "database \<Rightarrow> string \<Rightarrow> string list \<Rightarrow> run_admission_context" where
  "readAdmissionContextWith db runId keys =
     \<lparr>ac_scopes = map rowToScopeSnapshot (lock_run_scopes db runId),
      ac_isCounterfactual = (case map_get (db_runs db) runId of None \<Rightarrow> False | Some r \<Rightarrow> rr_seed_floor r \<noteq> None),
      ac_brackets = readBracketsWith db keys\<rparr>"

subsection \<open>Decisions under the scope lock\<close>

text \<open>The decision is a function of the context it is given; \<open>None\<close> is a refusal, and an error it
  throws rolls the transaction back.\<close>

definition freezeUnderScopeLock ::
    "actor \<Rightarrow> validator \<Rightarrow> guard \<Rightarrow> string \<Rightarrow> (run_admission_context \<Rightarrow> event_draft list option res) \<Rightarrow> string list \<Rightarrow>
     database \<Rightarrow> (nat list option \<times> database) res" where
  "freezeUnderScopeLock a validateSchema guard runId decide keys db =
     bind_res (requireEngine a) (\<lambda>_.
     bind_res (decide (readAdmissionContextWith db runId keys)) (\<lambda>decision.
       case decision of
         None \<Rightarrow> Inr (None, db)
       | Some events \<Rightarrow>
           if events = [] \<or> dr_event_type (hd events) \<noteq> SubgraphFrozen \<or>
              (\<exists>e\<in>set (tl events). dr_event_type e \<noteq> VertexCreated)
           then Inl (Error ''frozen subgraph requires one frozen event followed by vertex/created events'')
           else bind_res (appendWith validateSchema guard runId events db) (\<lambda>(seqs, db'). Inr (Some seqs, db'))))"

record locked_scope =
  lk_scopeId :: string
  lk_state :: string
  lk_fenced :: bool
  lk_hasSealedTry :: bool
  lk_hasExpiredTry :: bool

record scope_locked_view =
  lv_events :: "stored_event list"
  lv_scopes :: "locked_scope list"

definition locked_scope_of :: "locked_scope_row \<Rightarrow> locked_scope" where
  "locked_scope_of row = \<lparr>lk_scopeId = ls_scope_id row, lk_state = ls_state row, lk_fenced = ls_fenced row,
     lk_hasSealedTry = ls_has_sealed_try row, lk_hasExpiredTry = ls_has_expired_try row\<rparr>"

definition appendUnderScopeLock ::
    "actor \<Rightarrow> validator \<Rightarrow> guard \<Rightarrow> string \<Rightarrow> (scope_locked_view \<Rightarrow> event_draft list option res) \<Rightarrow> database \<Rightarrow>
     (nat list option \<times> database) res" where
  "appendUnderScopeLock a validateSchema guard runId decide db =
     bind_res (requireEngine a) (\<lambda>_.
     bind_res (decide \<lparr>lv_events = readStream db runId None,
                       lv_scopes = map locked_scope_of (lock_run_scopes db runId)\<rparr>) (\<lambda>drafts.
       if drafts = None \<or> drafts = Some [] then Inr (None, db)
       else bind_res (appendWith validateSchema guard runId (the drafts) db) (\<lambda>(seqs, db'). Inr (Some seqs, db'))))"

subsection \<open>Forks\<close>

datatype fold_mode = Recorded | ModelLive | ReadsLive

record fork_request =
  fq_source_run_id :: string
  fq_at_vertex_id :: string
  fq_eval_up_to_seq :: nat
  fq_substitutions :: "fork_substitution list"
  fq_fold_mode :: fold_mode
  fq_evaluator_pin :: string
  fq_projector_version :: string
  fq_harness_state_version :: string

record fork_result =
  fr_child_run_id :: string
  fr_end_seed_seq :: nat
  fr_inherited_event_count :: nat

definition toInheritedCopy :: "stored_event \<Rightarrow> string option \<Rightarrow> stored_event" where
  "toInheritedCopy e pinOverride =
     e\<lparr>pin_version := (case pinOverride of None \<Rightarrow> pin_version e | Some p \<Rightarrow> Some p)\<rparr>"

definition num :: "nat \<Rightarrow> js" where
  "num n = JNum (of_nat n)"

definition substitution_json :: "fork_substitution \<Rightarrow> js" where
  "substitution_json s = JObj [(''run_seq'', num (fs_run_seq s)), (''pin_version'', JStr (fs_pin_version s))]"

definition fold_mode_str :: "fold_mode \<Rightarrow> string" where
  "fold_mode_str m = (case m of Recorded \<Rightarrow> ''recorded'' | ModelLive \<Rightarrow> ''model-live'' | ReadsLive \<Rightarrow> ''reads-live'')"

definition fork_created_draft :: "fork_request \<Rightarrow> string \<Rightarrow> nat \<Rightarrow> event_draft" where
  "fork_created_draft q childRunId inheritedCount = draft ForkCreated
     [(''child_run_id'', JStr childRunId), (''source_run_id'', JStr (fq_source_run_id q)),
      (''at_vertex_id'', JStr (fq_at_vertex_id q)), (''eval_up_to_seq'', num (fq_eval_up_to_seq q)),
      (''inherited_event_count'', num inheritedCount),
      (''substitutions'', JArr (map substitution_json (fq_substitutions q))),
      (''fold_mode'', JStr (fold_mode_str (fq_fold_mode q))), (''evaluator_pin'', JStr (fq_evaluator_pin q)),
      (''projector_version'', JStr (fq_projector_version q)),
      (''harness_state_version'', JStr (fq_harness_state_version q))]"

definition end_seed_draft :: "fork_request \<Rightarrow> nat \<Rightarrow> event_draft" where
  "end_seed_draft q inheritedCount = draft RunEndSeed
     [(''source_run_id'', JStr (fq_source_run_id q)), (''at_vertex_id'', JStr (fq_at_vertex_id q)),
      (''eval_up_to_seq'', num (fq_eval_up_to_seq q)),
      (''substitutions'', JArr (map substitution_json (fq_substitutions q))),
      (''inherited_event_count'', num inheritedCount)]"

text \<open>The child's id is the identifier the generator returns.\<close>

definition fork ::
    "actor \<Rightarrow> validator \<Rightarrow> guard \<Rightarrow> string \<Rightarrow> fork_request \<Rightarrow> database \<Rightarrow> (fork_result \<times> database) res" where
  "fork a validateSchema guard childRunId q db =
     bind_res (requireEngine a) (\<lambda>_.
     case map_get (db_runs db) (fq_source_run_id q) of
       None \<Rightarrow> Inl (Error (''source run '' @ fq_source_run_id q @ '' does not exist''))
     | Some r \<Rightarrow>
         if fq_eval_up_to_seq q < 1 \<or> fq_eval_up_to_seq q > rr_next_seq r - 1
         then Inl (Error ''eval_up_to_seq must name a recorded source position'')
         else
           bind_res (computeForkSlice (readStream db (fq_source_run_id q) None) (fq_at_vertex_id q)
                       (fq_substitutions q) (fq_eval_up_to_seq q)) (\<lambda>slice.
           let substituted = new_map (map (\<lambda>s. (fs_run_seq s, fs_pin_version s)) (fq_substitutions q));
               kept = sl_seed slice @ sl_independent slice in
           bind_res (create_run childRunId
               \<lparr>rr_next_seq = fq_eval_up_to_seq q + 1, rr_seed_floor = Some (fq_eval_up_to_seq q)\<rparr> db) (\<lambda>db1.
           bind_res (appendWith validateSchema guard (fq_source_run_id q)
               [fork_created_draft q childRunId (length kept)] db1) (\<lambda>(_, db2).
           bind_res (if kept = [] then Inr db2
                     else copy_inherited_events childRunId
                       (map (\<lambda>e. toInheritedCopy e (map_get substituted (run_seq e))) kept) db2) (\<lambda>db3.
           bind_res (appendWith validateSchema guard childRunId [end_seed_draft q (length kept)] db3) (\<lambda>(seqs, db4).
           Inr (\<lparr>fr_child_run_id = childRunId, fr_end_seed_seq = hd seqs,
                 fr_inherited_event_count = length kept\<rparr>, db4)))))))"

subsection \<open>The business plane\<close>

record business_fact =
  bf_event_type :: string
  bf_payload :: json_object

definition is_fork_run :: "database \<Rightarrow> string \<Rightarrow> bool option" where
  "is_fork_run db runId = map_option (\<lambda>r. rr_seed_floor r \<noteq> None) (map_get (db_runs db) runId)"

text \<open>The ownership trigger and the provenance constraint of the business stream.\<close>

definition insert_business :: "business_event \<Rightarrow> database \<Rightarrow> database res" where
  "insert_business b db =
     (if startsWith (be_stream_id b) ''config:'' \<and> be_event_type b \<noteq> ''rule_template/published''
      then Inl (Error (''the configuration stream carries only rule_template/published, not '' @ be_event_type b))
      else if \<not> startsWith (be_stream_id b) ''config:'' \<and> be_event_type b = ''rule_template/published''
      then Inl (Error (''rule_template/published belongs to the configuration stream, not '' @ be_stream_id b))
      else if startsWith (be_stream_id b) ''config:'' \<noteq> (be_run_id b = None \<and> be_run_seq b = None)
      then Inl (Error ''business_event_stream_provenance_chk'')
      else Inr (db\<lparr>db_business := db_business db @ [b]\<rparr>))"

text \<open>Allocation from the counter of a stream, which starts at one.\<close>

fun append_facts :: "string \<Rightarrow> string \<Rightarrow> nat \<Rightarrow> bool \<Rightarrow> business_fact list \<Rightarrow> database \<Rightarrow> ((nat \<times> nat) list \<times> database) res" where
  "append_facts streamId runId causedBy counterfactual [] db = Inr ([], db)"
| "append_facts streamId runId causedBy counterfactual (f # fs) db =
     (if bf_event_type f = [] then Inl (Error ''every business fact requires an event_type'')
      else
        (let n = nullish (map_get (db_streams db) streamId) 1;
             row = \<lparr>be_stream_id = streamId, be_stream_seq = n, be_run_id = Some runId, be_run_seq = Some causedBy,
                    be_event_type = bf_event_type f, be_is_counterfactual = counterfactual, be_payload = bf_payload f\<rparr> in
         bind_res (insert_business row (db\<lparr>db_streams := map_set streamId (Suc n) (db_streams db)\<rparr>)) (\<lambda>db'.
         bind_res (append_facts streamId runId causedBy counterfactual fs db')
           (\<lambda>(rs, db''). Inr ((causedBy, n) # rs, db'')))))"

definition append_domain_events ::
    "guard \<Rightarrow> string \<Rightarrow> string \<Rightarrow> event_draft \<Rightarrow> business_fact list \<Rightarrow> database \<Rightarrow> ((nat \<times> nat) list \<times> database) res" where
  "append_domain_events guard runId streamId e facts db =
     (if streamId = [] then Inl (Error ''append_domain_events requires a stream id'')
      else if facts = [] then Inl (Error ''append_domain_events requires at least one business fact'')
      else case is_fork_run db runId of
        None \<Rightarrow> Inl (Error (''run '' @ runId @ '' does not exist''))
      | Some isFork \<Rightarrow>
          if isFork \<and> \<not> startsWith streamId ''fork:''
          then Inl (Error (''fork run '' @ runId @ '' may only write a fork: stream, not '' @ streamId))
          else if \<not> isFork \<and> startsWith streamId ''fork:''
          then Inl (Error ''only a fork run may write the fork: namespace'')
          else bind_res (append_events guard runId [e] db) (\<lambda>(seqs, db').
            append_facts streamId runId (hd seqs) isFork facts db'))"

definition appendDomainEvents ::
    "validator \<Rightarrow> guard \<Rightarrow> string \<Rightarrow> string \<Rightarrow> event_draft \<Rightarrow> business_fact list \<Rightarrow> database \<Rightarrow>
     ((nat \<times> nat) list \<times> database) res" where
  "appendDomainEvents validateSchema guard runId streamId e facts db =
     bind_res (assertEventDraft validateSchema e) (\<lambda>_.
     if facts = []
     then Inl (Error ''appendDomainEvents requires at least one business fact; use appendEvents for orchestration-only appends'')
     else append_domain_events guard runId streamId e facts db)"

definition readBusinessStream :: "database \<Rightarrow> string \<Rightarrow> nat option \<Rightarrow> bool \<Rightarrow> business_event list" where
  "readBusinessStream db streamId throughStreamSeq includeCounterfactual =
     sort_key be_stream_seq (filter (\<lambda>b. be_stream_id b = streamId \<and>
       (includeCounterfactual \<or> \<not> be_is_counterfactual b) \<and>
       (case throughStreamSeq of None \<Rightarrow> True | Some n \<Rightarrow> be_stream_seq b \<le> n)) (db_business db))"

definition appendConfigEvent :: "actor \<Rightarrow> string \<Rightarrow> string \<Rightarrow> json_object \<Rightarrow> database \<Rightarrow> (nat \<times> database) res" where
  "appendConfigEvent a streamId eventType p db =
     bind_res (requireEngine a) (\<lambda>_.
     if \<not> startsWith streamId ''config:''
     then Inl (Error (''append_config_event requires a config: stream, not '' @ streamId))
     else
       (let n = nullish (map_get (db_streams db) streamId) 1 in
        bind_res (insert_business
            \<lparr>be_stream_id = streamId, be_stream_seq = n, be_run_id = None, be_run_seq = None,
             be_event_type = eventType, be_is_counterfactual = False, be_payload = p\<rparr>
            (db\<lparr>db_streams := map_set streamId (Suc n) (db_streams db)\<rparr>)) (\<lambda>db'. Inr (n, db'))))"

end
