(* ===== verification/Event_Store_Spec.thy ===== *)
theory Event_Store_Spec
  imports Event_Store
begin

text \<open>
  What the event store promises: the fork slice is exactly causal, sequence numbers are dense, and a
  fork reproduces the inherited part of its source.
\<close>

section \<open>Causal descendants\<close>

text \<open>The parent references of the creations, from parent to child.\<close>

definition causal_edges :: "stored_event list \<Rightarrow> (string \<times> string) set" where
  "causal_edges events =
     {(p, c). \<exists>e\<in>set events. about VertexCreated e \<and> vertex_id e = Some c \<and> p \<in> set (parent_refs e)}"

lemma add_child_get:
  "c \<in> set (nullish (map_get (add_child v m p) q) []) \<longleftrightarrow>
     c \<in> set (nullish (map_get m q) []) \<or> (q = p \<and> c = v)"
  by (auto simp: add_child_def map_get_map_set)

lemma add_children_get:
  "c \<in> set (nullish (map_get (foldl (add_child v) m ps) q) []) \<longleftrightarrow>
     c \<in> set (nullish (map_get m q) []) \<or> (q \<in> set ps \<and> c = v)"
  by (induction ps arbitrary: m) (auto simp: add_child_get)

lemma children_of_get: "c \<in> set (nullish (map_get (children_of events) p) []) \<longleftrightarrow> (p, c) \<in> causal_edges events"
proof (induction events rule: rev_induct)
  case Nil
  then show ?case by (simp add: children_of_def causal_edges_def map_get_def)
next
  case (snoc e events)
  have snoc_eq: "children_of (events @ [e]) =
      (if about VertexCreated e then foldl (add_child (the (vertex_id e))) (children_of events) (parent_refs e)
       else children_of events)"
    by (simp add: children_of_def)
  have edges: "(p, c) \<in> causal_edges (events @ [e]) \<longleftrightarrow> (p, c) \<in> causal_edges events \<or>
      (about VertexCreated e \<and> vertex_id e = Some c \<and> p \<in> set (parent_refs e))"
    by (auto simp: causal_edges_def)
  show ?case
    unfolding snoc_eq edges using snoc
    by (cases "about VertexCreated e") (auto simp: add_children_get about_def elim!: presentE)
qed

definition child_edges :: "(string, string list) js_map \<Rightarrow> (string \<times> string) set" where
  "child_edges ch = {(x, y). y \<in> set (nullish (map_get ch x) [])}"

lemma child_edges_children_of: "child_edges (children_of events) = causal_edges events"
  by (auto simp: child_edges_def children_of_get)

lemma push_children_image:
  assumes "st = push_children (nullish (map_get ch u) []) (ds, fr)"
  obtains new where "set (fst st) = set ds \<union> child_edges ch `` {u}" "snd st = new @ fr"
    "set new = child_edges ch `` {u} - set ds"
  using push_children_fst [of "nullish (map_get ch u) []" "(ds, fr)"]
    push_children_snd [of "nullish (map_get ch u) []" "(ds, fr)"] assms
  by (auto simp: child_edges_def)

lemma search_descendants_closed:
  assumes "\<And>x. x \<in> insert v (set ds) \<Longrightarrow> x \<in> set fr \<or> child_edges ch `` {x} \<subseteq> set ds"
  shows "set ds \<subseteq> set (search_descendants ch ds fr) \<and>
         child_edges ch `` insert v (set (search_descendants ch ds fr)) \<subseteq> set (search_descendants ch ds fr)"
  using assms
proof (induction ch ds fr rule: search_descendants.induct)
  case (1 ch ds)
  then show ?case by auto
next
  case (2 ch ds u fr)
  define st where "st = push_children (nullish (map_get ch u) []) (ds, fr)"
  obtain new where st: "set (fst st) = set ds \<union> child_edges ch `` {u}" "snd st = new @ fr"
    "set new = child_edges ch `` {u} - set ds"
    using push_children_image [OF st_def] .
  have closed: "x \<in> set (snd st) \<or> child_edges ch `` {x} \<subseteq> set (fst st)" if "x \<in> insert v (set (fst st))" for x
    using that "2.prems" [of x] st by auto
  have "search_descendants ch ds (u # fr) = search_descendants ch (fst st) (snd st)"
    by (simp add: search_descendants.simps(2) st_def Let_def)
  then show ?case using "2.IH" [OF st_def closed] st(1) by auto
qed

lemma search_descendants_reachable:
  "set (search_descendants ch ds fr) \<subseteq> set ds \<union> (child_edges ch)\<^sup>+ `` set fr"
proof (induction ch ds fr rule: search_descendants.induct)
  case (1 ch ds)
  then show ?case by auto
next
  case (2 ch ds u fr)
  define st where "st = push_children (nullish (map_get ch u) []) (ds, fr)"
  obtain new where st: "set (fst st) = set ds \<union> child_edges ch `` {u}" "snd st = new @ fr"
    "set new = child_edges ch `` {u} - set ds"
    using push_children_image [OF st_def] .
  have new: "(child_edges ch)\<^sup>+ `` set new \<subseteq> (child_edges ch)\<^sup>+ `` {u}"
    using st(3) by (auto intro: trancl_into_trancl2)
  have "search_descendants ch ds (u # fr) = search_descendants ch (fst st) (snd st)"
    by (simp add: search_descendants.simps(2) st_def Let_def)
  then have "set (search_descendants ch ds (u # fr)) \<subseteq> set (fst st) \<union> (child_edges ch)\<^sup>+ `` set (snd st)"
    using "2.IH" [OF st_def] by simp
  moreover have "(child_edges ch)\<^sup>+ `` set (snd st) \<subseteq> (child_edges ch)\<^sup>+ `` set (u # fr)"
    using new by (simp add: st(2) Image_Un) auto
  moreover have "child_edges ch `` {u} \<subseteq> (child_edges ch)\<^sup>+ `` set (u # fr)" by auto
  ultimately show ?case unfolding st(1) by blast
qed

interpretation descendants: closure_search "causal_edges events" v "set (causalDescendants events v)" for events v
proof
  have "child_edges (children_of events) `` insert v (set (causalDescendants events v)) \<subseteq> set (causalDescendants events v)"
    using search_descendants_closed [of v "[]" "[v]" "children_of events"] by (simp add: causalDescendants_def)
  then show "causal_edges events `` {v} \<subseteq> set (causalDescendants events v)"
    and "causal_edges events `` set (causalDescendants events v) \<subseteq> set (causalDescendants events v)"
    by (auto simp: child_edges_children_of)
  show "set (causalDescendants events v) \<subseteq> (causal_edges events)\<^sup>+ `` {v}"
    using search_descendants_reachable [of "children_of events" "[]" "[v]"]
    by (simp add: causalDescendants_def child_edges_children_of)
qed

lemma causalDescendants_iff: "c \<in> set (causalDescendants events v) \<longleftrightarrow> (v, c) \<in> (causal_edges events)\<^sup>+"
  by (subst descendants.found_eq) simp

text \<open>The causal descendants of a vertex are exactly the vertices the parent references of the
  recorded creations reach from it, on every log, cyclic references included.\<close>

lemma causalDescendants_reachable:
  "set (causalDescendants events v) = {c. (v, c) \<in> (causal_edges events)\<^sup>+}"
  by (simp add: set_eq_iff causalDescendants_iff)

section \<open>The slice of a fork\<close>

definition window_of :: "stored_event list \<Rightarrow> nat \<Rightarrow> stored_event list" where
  "window_of source evalUpToSeq = filter (\<lambda>e. run_seq e \<le> evalUpToSeq) source"

text \<open>What a substitution invalidates: the events of a causal descendant, the execution of the
  divergence vertex itself, and every event that refers to either as a parent.\<close>

definition causally_invalid :: "stored_event list \<Rightarrow> string \<Rightarrow> stored_event \<Rightarrow> bool" where
  "causally_invalid window v e \<longleftrightarrow>
     (\<exists>c. vertex_id e = Some c \<and> c \<noteq> [] \<and> (v, c) \<in> (causal_edges window)\<^sup>+) \<or>
     (vertex_id e = Some v \<and> event_type e \<in> set EXECUTION_EVENT_TYPES) \<or>
     (\<exists>p\<in>set (parent_refs e). (v, p) \<in> (causal_edges window)\<^sup>*)"

lemma is_invalidated_causal:
  "is_invalidated (causalDescendants window v) v True e = causally_invalid window v e"
  by (cases "vertex_id e") (auto simp: is_invalidated_def causally_invalid_def rtrancl_eq_or_trancl causalDescendants_iff)

lemma is_invalidated_none [simp]: "is_invalidated vs v False e = False"
  by (simp add: is_invalidated_def)

lemma find_None_iff_all: "find P xs = None \<longleftrightarrow> (\<forall>x\<in>set xs. \<not> P x)"
  by (auto simp: find_None_iff)

lemma length_new_map_le: "length (new_map es) = length es \<longleftrightarrow> distinct (map fst es)"
proof -
  have "length (new_map es) = card (fst ` set es)"
    using distinct_card [OF distinct_new_map [of es]] keys_new_map [of es] by simp
  then show ?thesis by (metis card_distinct distinct_card length_map list.set_map)
qed

text \<open>The inversion of a computed slice.\<close>

lemma computeForkSliceE:
  assumes "computeForkSlice source v subs n = Inr slice"
  obtains divergence where
    "find (names_vertex VertexCreated v) (window_of source n) = Some divergence"
    "distinct (map fs_run_seq subs)"
    "\<forall>s\<in>set subs. \<not> bad_substitution (window_of source n) v (fs_run_seq s)"
    "\<forall>s\<in>set subs. fs_run_seq s \<notin> run_seq ` set (sl_invalidated slice)"
    "sl_invalidated slice = filter (\<lambda>e. subs \<noteq> [] \<and> causally_invalid (window_of source n) v e) (window_of source n)"
    "sl_seed slice = filter (\<lambda>e. run_seq e \<le> run_seq divergence)
       (filter (\<lambda>e. \<not> (subs \<noteq> [] \<and> causally_invalid (window_of source n) v e)) (window_of source n))"
    "sl_independent slice = filter (\<lambda>e. \<not> run_seq e \<le> run_seq divergence)
       (filter (\<lambda>e. \<not> (subs \<noteq> [] \<and> causally_invalid (window_of source n) v e)) (window_of source n))"
    "sl_divergence_seq slice = run_seq divergence"
proof -
  define w where "w = window_of source n"
  define m where "m = new_map (map (\<lambda>s. (fs_run_seq s, fs_pin_version s)) subs)"
  define inv where "inv = is_invalidated (if m \<noteq> [] then causalDescendants w v else []) v (m \<noteq> [])"
  have keys: "fst ` set m = fs_run_seq ` set subs" by (simp add: m_def keys_new_map image_image)
  have "m = [] \<longleftrightarrow> fst ` set m = {}" by simp
  then have nil: "m = [] \<longleftrightarrow> subs = []" unfolding keys by simp
  have inv: "inv e \<longleftrightarrow> subs \<noteq> [] \<and> causally_invalid w v e" for e
    by (simp add: inv_def nil is_invalidated_causal)
  note slice = assms [unfolded computeForkSlice_def Let_def, folded window_of_def, folded w_def,
    folded m_def, folded inv_def]
  obtain d where d: "find (names_vertex VertexCreated v) w = Some d"
    using slice by (cases "find (names_vertex VertexCreated v) w") simp_all
  have len: "length m = length subs"
    using slice d by (simp split: if_splits)
  have bad: "find (bad_substitution w v) (map fst m) = None"
    using slice d len by (cases "find (bad_substitution w v) (map fst m)") simp_all
  have named: "find (\<lambda>s. s \<in> run_seq ` set (filter inv w)) (map fst m) = None"
    using slice d len bad by (cases "find (\<lambda>s. s \<in> run_seq ` set (filter inv w)) (map fst m)") simp_all
  have slice_eq: "slice = \<lparr>sl_seed = filter (\<lambda>e. run_seq e \<le> run_seq d) (filter (\<lambda>e. \<not> inv e) w),
      sl_independent = filter (\<lambda>e. \<not> run_seq e \<le> run_seq d) (filter (\<lambda>e. \<not> inv e) w),
      sl_invalidated = filter inv w, sl_divergence_seq = run_seq d\<rparr>"
    using slice d len bad named by (simp add: window_of_def)
  have distinct: "distinct (map fs_run_seq subs)"
    using len length_new_map_le [of "map (\<lambda>s. (fs_run_seq s, fs_pin_version s)) subs"]
    by (simp add: m_def comp_def)
  have subs: "fs_run_seq s \<in> set (map fst m)" if "s \<in> set subs" for s
    using that keys by auto
  show ?thesis
  proof (rule that [of d])
    show "\<forall>s\<in>set subs. \<not> bad_substitution (window_of source n) v (fs_run_seq s)"
      using bad subs unfolding find_None_iff_all w_def by blast
    show "\<forall>s\<in>set subs. fs_run_seq s \<notin> run_seq ` set (sl_invalidated slice)"
      using named subs unfolding find_None_iff_all slice_eq fork_slice.simps by blast
  qed (simp_all add: d distinct slice_eq inv w_def [symmetric] fun_eq_iff cong: filter_cong)
qed

lemma forkSlice_distinct: "computeForkSlice source v subs n = Inr slice \<Longrightarrow> distinct (map fs_run_seq subs)"
  by (erule computeForkSliceE)

lemma forkSlice_kept:
  assumes "computeForkSlice source v subs n = Inr slice" and "sorted (map run_seq source)"
  shows "sl_seed slice @ sl_independent slice =
         filter (\<lambda>e. \<not> (subs \<noteq> [] \<and> causally_invalid (window_of source n) v e)) (window_of source n)"
  using assms(1)
proof (rule computeForkSliceE)
  fix d
  let ?kept = "filter (\<lambda>e. \<not> (subs \<noteq> [] \<and> causally_invalid (window_of source n) v e)) (window_of source n)"
  assume seed: "sl_seed slice = filter (\<lambda>e. run_seq e \<le> run_seq d) ?kept"
    and rest: "sl_independent slice = filter (\<lambda>e. \<not> run_seq e \<le> run_seq d) ?kept"
  have split: "filter (\<lambda>e. run_seq e \<le> k) xs @ filter (\<lambda>e. \<not> run_seq e \<le> k) xs = xs"
    if "sorted (map run_seq xs)" for k and xs :: "stored_event list"
    using that
  proof (induction xs)
    case (Cons x xs)
    show ?case
    proof (cases "run_seq x \<le> k")
      case False
      then have "filter (\<lambda>e. run_seq e \<le> k) xs = []" "filter (\<lambda>e. \<not> run_seq e \<le> k) xs = xs"
        using Cons.prems by (force simp: filter_empty_conv filter_id_conv)+
      with False show ?thesis by simp
    qed (use Cons in simp)
  qed simp
  have "sorted (map run_seq ?kept)"
    unfolding window_of_def filter_filter by (rule sorted_filter [OF assms(2)])
  from split [OF this, of "run_seq d"] show ?thesis unfolding seed rest .
qed

lemma forkSlice_parts:
  assumes "computeForkSlice source v subs n = Inr slice"
  shows "e \<in> set (sl_invalidated slice) \<longleftrightarrow>
           e \<in> set source \<and> run_seq e \<le> n \<and> subs \<noteq> [] \<and> causally_invalid (window_of source n) v e"
    and "e \<in> set (sl_seed slice) \<union> set (sl_independent slice) \<longleftrightarrow>
           e \<in> set source \<and> run_seq e \<le> n \<and> e \<notin> set (sl_invalidated slice)"
    and "length (sl_seed slice) + length (sl_independent slice) + length (sl_invalidated slice) =
           length (window_of source n)"
    and "\<exists>d\<in>set source. names_vertex VertexCreated v d \<and> sl_divergence_seq slice = run_seq d \<and>
           set (sl_seed slice) = {k \<in> set (sl_seed slice) \<union> set (sl_independent slice). run_seq k \<le> run_seq d}"
    and "\<forall>s\<in>set subs. \<exists>k\<in>set (sl_seed slice) \<union> set (sl_independent slice).
           run_seq k = fs_run_seq s \<and> vertex_id k = Some v \<and> present (pin_version k)"
proof -
  let ?inv = "\<lambda>e. subs \<noteq> [] \<and> causally_invalid (window_of source n) v e"
  let ?kept = "filter (\<lambda>e. \<not> ?inv e) (window_of source n)"
  obtain d where d: "find (names_vertex VertexCreated v) (window_of source n) = Some d"
    and "distinct (map fs_run_seq subs)"
    and pinned: "\<forall>s\<in>set subs. \<not> bad_substitution (window_of source n) v (fs_run_seq s)"
    and kept: "\<forall>s\<in>set subs. fs_run_seq s \<notin> run_seq ` set (sl_invalidated slice)"
    and inv: "sl_invalidated slice = filter ?inv (window_of source n)"
    and seed: "sl_seed slice = filter (\<lambda>e. run_seq e \<le> run_seq d) ?kept"
    and rest: "sl_independent slice = filter (\<lambda>e. \<not> run_seq e \<le> run_seq d) ?kept"
    and seq: "sl_divergence_seq slice = run_seq d"
    using assms by (rule computeForkSliceE)
  show "e \<in> set (sl_invalidated slice) \<longleftrightarrow>
      e \<in> set source \<and> run_seq e \<le> n \<and> subs \<noteq> [] \<and> causally_invalid (window_of source n) v e"
    unfolding inv by (auto simp: window_of_def)
  have parts: "set (sl_seed slice) \<union> set (sl_independent slice) = set ?kept" unfolding seed rest by auto
  show "e \<in> set (sl_seed slice) \<union> set (sl_independent slice) \<longleftrightarrow>
      e \<in> set source \<and> run_seq e \<le> n \<and> e \<notin> set (sl_invalidated slice)"
    unfolding parts inv by (auto simp: window_of_def)
  show "length (sl_seed slice) + length (sl_independent slice) + length (sl_invalidated slice) =
      length (window_of source n)"
    using sum_length_filter_compl [of "\<lambda>e. run_seq e \<le> run_seq d" ?kept]
      sum_length_filter_compl [of ?inv "window_of source n"] unfolding seed rest inv by simp
  have "d \<in> set (window_of source n) \<and> names_vertex VertexCreated v d"
    using d by (auto simp: find_Some_iff)
  moreover have "set (sl_seed slice) = {k \<in> set ?kept. run_seq k \<le> run_seq d}" unfolding seed by auto
  ultimately show "\<exists>d\<in>set source. names_vertex VertexCreated v d \<and> sl_divergence_seq slice = run_seq d \<and>
      set (sl_seed slice) = {k \<in> set (sl_seed slice) \<union> set (sl_independent slice). run_seq k \<le> run_seq d}"
    unfolding parts seq by (auto simp: window_of_def)
  show "\<forall>s\<in>set subs. \<exists>k\<in>set (sl_seed slice) \<union> set (sl_independent slice).
      run_seq k = fs_run_seq s \<and> vertex_id k = Some v \<and> present (pin_version k)"
  proof
    fix s assume s: "s \<in> set subs"
    obtain k where k: "find (\<lambda>e. run_seq e = fs_run_seq s) (window_of source n) = Some k"
      "present (pin_version k)" "vertex_id k = Some v"
      using pinned s by (auto simp: bad_substitution_def split: option.splits)
    then have "k \<in> set (window_of source n)" "run_seq k = fs_run_seq s" by (auto simp: find_Some_iff)
    then have "k \<in> set ?kept" using kept s unfolding inv by force
    with k \<open>run_seq k = fs_run_seq s\<close> show "\<exists>k\<in>set (sl_seed slice) \<union> set (sl_independent slice).
      run_seq k = fs_run_seq s \<and> vertex_id k = Some v \<and> present (pin_version k)" unfolding parts by blast
  qed
qed

text \<open>A computed fork slice splits the window into what the fork invalidates, the seed and the
  independent remainder.  With no substitution nothing is invalidated; otherwise exactly the events
  caused by the divergence vertex are.  The seed is what was recorded up to the creation of the
  divergence vertex, and every substitution names a pinned event of that vertex which is kept.\<close>

lemma computeForkSlice_causal:
  assumes "computeForkSlice source v subs n = Inr slice"
  shows "(\<forall>e. (e \<in> set (sl_invalidated slice) \<longleftrightarrow>
             e \<in> set source \<and> run_seq e \<le> n \<and> subs \<noteq> [] \<and> causally_invalid (window_of source n) v e) \<and>
           (e \<in> set (sl_seed slice) \<union> set (sl_independent slice) \<longleftrightarrow>
             e \<in> set source \<and> run_seq e \<le> n \<and> e \<notin> set (sl_invalidated slice))) \<and>
         length (sl_seed slice) + length (sl_independent slice) + length (sl_invalidated slice) =
           length (window_of source n) \<and>
         (\<exists>d\<in>set source. names_vertex VertexCreated v d \<and> sl_divergence_seq slice = run_seq d \<and>
           set (sl_seed slice) = {k \<in> set (sl_seed slice) \<union> set (sl_independent slice). run_seq k \<le> run_seq d}) \<and>
         (\<forall>s\<in>set subs. \<exists>k\<in>set (sl_seed slice) \<union> set (sl_independent slice).
           run_seq k = fs_run_seq s \<and> vertex_id k = Some v \<and> present (pin_version k))"
  by (intro conjI allI forkSlice_parts [OF assms])

section \<open>Numbering\<close>

definition floor_of :: "run_row \<Rightarrow> nat" where
  "floor_of r = nullish (rr_seed_floor r) 0"

text \<open>
  The numbering of a database: inherited events sit at or below the seed floor of their run, its own
  events fill the numbers from the floor to its counter without a gap, and no number is used twice.
\<close>

definition log_key :: "stored_event \<Rightarrow> string \<times> nat" where
  "log_key e = (run_id e, run_seq e)"

definition placed :: "database \<Rightarrow> stored_event \<Rightarrow> bool" where
  "placed db e \<longleftrightarrow> (\<exists>r. map_get (db_runs db) (run_id e) = Some r \<and>
     (if inherited e then 1 \<le> run_seq e \<and> run_seq e \<le> floor_of r
      else floor_of r < run_seq e \<and> run_seq e < rr_next_seq r))"

definition dense :: "database \<Rightarrow> string \<Rightarrow> run_row \<Rightarrow> bool" where
  "dense db k r \<longleftrightarrow> floor_of r < rr_next_seq r \<and>
     (\<forall>s. floor_of r < s \<and> s < rr_next_seq r \<longrightarrow> (k, s) \<in> log_key ` set (db_log db))"

definition numbered :: "database \<Rightarrow> bool" where
  "numbered db \<longleftrightarrow> distinct (map log_key (db_log db)) \<and> (\<forall>e\<in>set (db_log db). placed db e) \<and>
     (\<forall>k r. map_get (db_runs db) k = Some r \<longrightarrow> dense db k r)"

lemma numberedD:
  assumes "numbered db"
  shows "distinct (map log_key (db_log db))" "e \<in> set (db_log db) \<Longrightarrow> placed db e"
    "map_get (db_runs db) k = Some r \<Longrightarrow> dense db k r"
  using assms by (auto simp: numbered_def)

lemma placed_below:
  assumes "numbered db" "map_get (db_runs db) k = Some r" "e \<in> set (db_log db)" "run_id e = k"
  shows "1 \<le> run_seq e" "run_seq e < rr_next_seq r"
  using numberedD(2) [OF assms(1,3)] numberedD(3) [OF assms(1,2)] assms(2,4)
  by (auto simp: placed_def dense_def split: if_splits)

lemma insert_log_new:
  "log_key e \<notin> log_key ` set (db_log db) \<Longrightarrow> insert_log db e = Inr (db\<lparr>db_log := db_log db @ [e]\<rparr>)"
  by (auto simp: insert_log_def log_key_def image_iff)

lemma insert_log_Inr:
  "insert_log db e = Inr db' \<longleftrightarrow> log_key e \<notin> log_key ` set (db_log db) \<and> db' = db\<lparr>db_log := db_log db @ [e]\<rparr>"
  by (auto simp: insert_log_def log_key_def image_iff eq_commute)

lemma placed_log [simp]: "placed (db\<lparr>db_log := l\<rparr>) = placed db"
  by (simp add: placed_def fun_eq_iff)

subsection \<open>Appending\<close>

definition bump :: "string \<Rightarrow> run_row \<Rightarrow> nat \<Rightarrow> database \<Rightarrow> database" where
  "bump k r n db = db\<lparr>db_runs := map_set k (r\<lparr>rr_next_seq := rr_next_seq r + n\<rparr>) (db_runs db)\<rparr>"

lemma floor_of_next [simp]: "floor_of (r\<lparr>rr_next_seq := n\<rparr>) = floor_of r"
  by (simp add: floor_of_def)

lemma numbered_own:
  assumes "numbered db" "map_get (db_runs db) k = Some r"
    and e: "run_id e = k" "run_seq e = rr_next_seq r" "\<not> inherited e"
  shows "insert_log (bump k r (Suc 0) db) e = Inr ((bump k r (Suc 0) db)\<lparr>db_log := db_log db @ [e]\<rparr>)"
    and "numbered ((bump k r (Suc 0) db)\<lparr>db_log := db_log db @ [e]\<rparr>)"
proof -
  have new: "log_key e \<notin> log_key ` set (db_log db)"
  proof
    assume "log_key e \<in> log_key ` set (db_log db)"
    then obtain x where "x \<in> set (db_log db)" "run_id x = k" "run_seq x = rr_next_seq r"
      using e by (auto simp: log_key_def)
    then show False using placed_below(2) [OF assms(1,2)] by force
  qed
  then show "insert_log (bump k r (Suc 0) db) e = Inr ((bump k r (Suc 0) db)\<lparr>db_log := db_log db @ [e]\<rparr>)"
    using insert_log_new [of e "bump k r (Suc 0) db"] by (simp add: bump_def)
  let ?db = "(bump k r (Suc 0) db)\<lparr>db_log := db_log db @ [e]\<rparr>"
  have runs: "map_get (db_runs (bump k r (Suc 0) db)) k' = (if k' = k then Some (r\<lparr>rr_next_seq := Suc (rr_next_seq r)\<rparr>) else map_get (db_runs db) k')" for k'
    by (simp add: bump_def map_get_map_set)
  have log: "db_log ?db = db_log db @ [e]" by simp
  have floor: "floor_of r < rr_next_seq r" using numberedD(3) [OF assms(1,2)] by (simp add: dense_def)
  have "placed ?db x" if "x \<in> set (db_log db)" for x
    using numberedD(2) [OF assms(1) that] assms(2) by (auto simp: placed_def runs split: if_splits)
  moreover have "placed ?db e" using e floor by (simp add: placed_def runs)
  moreover have "dense ?db k' r'" if "map_get (db_runs ?db) k' = Some r'" for k' r'
  proof (cases "k' = k")
    case True
    then have r': "r' = r\<lparr>rr_next_seq := Suc (rr_next_seq r)\<rparr>" using that by (simp add: runs)
    have "(k, s) \<in> log_key ` set (db_log ?db)" if "floor_of r < s" "s < Suc (rr_next_seq r)" for s
      using that numberedD(3) [OF assms(1,2)] e by (cases "s = rr_next_seq r") (auto simp: dense_def log_key_def)
    then show ?thesis using floor True r' by (simp add: dense_def)
  next
    case False
    then show ?thesis using that numberedD(3) [OF assms(1), of k' r'] by (auto simp: dense_def runs)
  qed
  ultimately show "numbered ?db" using numberedD(1) [OF assms(1)] new by (auto simp: numbered_def log)
qed

text \<open>The rows a list of drafts becomes.\<close>

fun draft_rows :: "database \<Rightarrow> string \<Rightarrow> nat \<Rightarrow> event_draft list \<Rightarrow> stored_event list" where
  "draft_rows db k n [] = []"
| "draft_rows db k n (d # ds) = draft_row db k n d # draft_rows (db\<lparr>db_log := db_log db @ [draft_row db k n d]\<rparr>) k (Suc n) ds"

lemma draft_rows_cong:
  "length (db_log db) = length (db_log db') \<Longrightarrow> db_now db = db_now db' \<Longrightarrow> draft_rows db k n ds = draft_rows db' k n ds"
  by (induction ds arbitrary: db db' n) (simp_all add: draft_row_def)

lemma upt_front: "[n..<Suc (n + m)] = n # [Suc n..<Suc (n + m)]"
  by (simp add: upt_conv_Cons del: upt_Suc)

lemma draft_rows_props:
  "map run_seq (draft_rows db k n ds) = [n..<n + length ds]"
  "x \<in> set (draft_rows db k n ds) \<Longrightarrow> run_id x = k \<and> n \<le> run_seq x \<and> \<not> inherited x"
proof (induction ds arbitrary: db n)
  case (Cons d ds)
  { case 1 show ?case using Cons(1) by (simp add: draft_row_def upt_front del: upt_Suc) }
  { case 2 then show ?case using Cons(2) by (fastforce simp: draft_row_def) }
qed simp_all

lemma map_set_twice [simp]: "map_set k v (map_set k v' m) = map_set k v m"
  by (simp add: map_set_def update_last)

lemma map_set_same: "map_get m k = Some v \<Longrightarrow> map_set k v m = m"
  by (simp add: map_set_def map_get_def update_triv)

lemma append_rows_Inr:
  assumes "numbered db" "map_get (db_runs db) k = Some r" "append_rows guard k ds db = Inr (seqs, db')"
  shows "seqs = [rr_next_seq r..<rr_next_seq r + length ds] \<and> numbered db' \<and>
         db' = (bump k r (length ds) db)\<lparr>db_log := db_log db @ draft_rows db k (rr_next_seq r) ds\<rparr>"
  using assms
proof (induction ds arbitrary: db r seqs)
  case Nil
  then show ?case by (simp add: bump_def map_set_same)
next
  case (Cons d ds)
  let ?row = "draft_row db k (rr_next_seq r) d"
  let ?db = "(bump k r (Suc 0) db)\<lparr>db_log := db_log db @ [?row]\<rparr>"
  have row: "run_id ?row = k" "run_seq ?row = rr_next_seq r" "\<not> inherited ?row" by (simp_all add: draft_row_def)
  note own = numbered_own [OF Cons.prems(1,2) row]
  obtain rest where rest: "append_rows guard k ds ?db = Inr (rest, db')" "seqs = rr_next_seq r # rest"
    using Cons.prems(2,3) own(1)
    by (auto simp: bind_res_Inr insert_row_def bump_def split: option.splits)
  have "map_get (db_runs ?db) k = Some (r\<lparr>rr_next_seq := Suc (rr_next_seq r)\<rparr>)" by (simp add: bump_def map_get_map_set)
  note IH = Cons.IH [OF own(2) this rest(1)]
  have "draft_rows ?db k n ds = draft_rows (db\<lparr>db_log := db_log db @ [?row]\<rparr>) k n ds" for n
    by (rule draft_rows_cong) (simp_all add: bump_def)
  then have "db' = (bump k r (length (d # ds)) db)\<lparr>db_log := db_log db @ draft_rows db k (rr_next_seq r) (d # ds)\<rparr>"
    using IH by (simp add: bump_def)
  moreover have "seqs = [rr_next_seq r..<rr_next_seq r + length (d # ds)]"
    using IH rest(2) by (simp add: upt_front del: upt_Suc)
  ultimately show ?case using IH by blast
qed

lemma append_rows_total:
  assumes "numbered db" "map_get (db_runs db) k = Some r" "\<And>db e. event_type e \<in> dr_event_type ` set ds \<Longrightarrow> guard db e = None"
  shows "\<exists>db'. append_rows guard k ds db = Inr ([rr_next_seq r..<rr_next_seq r + length ds], db')"
  using assms
proof (induction ds arbitrary: db r)
  case Nil
  then show ?case by simp
next
  case (Cons d ds)
  let ?row = "draft_row db k (rr_next_seq r) d"
  let ?db = "(bump k r (Suc 0) db)\<lparr>db_log := db_log db @ [?row]\<rparr>"
  have row: "run_id ?row = k" "run_seq ?row = rr_next_seq r" "\<not> inherited ?row" "event_type ?row = dr_event_type d"
    by (simp_all add: draft_row_def)
  note own = numbered_own [OF Cons.prems(1,2) row(1,2,3)]
  have "map_get (db_runs ?db) k = Some (r\<lparr>rr_next_seq := Suc (rr_next_seq r)\<rparr>)" by (simp add: bump_def map_get_map_set)
  from Cons.IH [OF own(2) this] Cons.prems(3)
  obtain db' where "append_rows guard k ds ?db = Inr ([Suc (rr_next_seq r)..<Suc (rr_next_seq r) + length ds], db')"
    by auto
  moreover have "insert_row guard (bump k r (Suc 0) db) ?row = Inr ?db"
    using own(1) Cons.prems(3) row(4) by (simp add: insert_row_def)
  ultimately show ?case using Cons.prems(2) by (simp add: bump_def upt_front del: upt_Suc)
qed

subsection \<open>Reading back\<close>

lemma sort_key_append_later:
  assumes "\<And>x y. x \<in> set xs \<Longrightarrow> y \<in> set ys \<Longrightarrow> f x < f y"
  shows "sort_key f (xs @ ys) = sort_key f xs @ sort_key f ys"
proof (rule properties_for_sort_key)
  show "mset (sort_key f xs @ sort_key f ys) = mset (xs @ ys)" by simp
  show "filter (\<lambda>x. f k = f x) (sort_key f xs @ sort_key f ys) = filter (\<lambda>x. f k = f x) (xs @ ys)" for k
  proof -
    have same: "sort_key f (filter (\<lambda>x. f k = f x) zs) = filter (\<lambda>x. f k = f x) zs" for zs
      by (rule sort_key_id_if_sorted) (induction zs, auto)
    show ?thesis by (simp add: filter_sort same)
  qed
  show "sorted (map f (sort_key f xs @ sort_key f ys))"
    using assms by (auto simp: sorted_append intro: less_imp_le)
qed

lemma readStream_extend:
  assumes "db_log db' = db_log db @ rows" "sorted (map run_seq rows)"
    and "\<And>x y. x \<in> set (db_log db) \<Longrightarrow> y \<in> set rows \<Longrightarrow> run_id x = k \<Longrightarrow> run_id y = k \<Longrightarrow> run_seq x < run_seq y"
  shows "readStream db' k None = readStream db k None @ filter (\<lambda>e. run_id e = k) rows"
proof -
  have "sort_key run_seq (filter (\<lambda>e. run_id e = k) rows) = filter (\<lambda>e. run_id e = k) rows"
    using assms(2) by (intro sort_key_id_if_sorted sorted_filter)
  moreover have "sort_key run_seq (filter (\<lambda>e. run_id e = k) (db_log db) @ filter (\<lambda>e. run_id e = k) rows) =
      sort_key run_seq (filter (\<lambda>e. run_id e = k) (db_log db)) @ sort_key run_seq (filter (\<lambda>e. run_id e = k) rows)"
    using assms(3) by (intro sort_key_append_later) auto
  ultimately show ?thesis using assms(1) by (simp add: readStream_def)
qed

lemma sorted_readStream: "sorted (map run_seq (readStream db k a))"
  by (simp add: readStream_def)

lemma set_readStream: "set (readStream db k None) = {e \<in> set (db_log db). run_id e = k}"
  by (auto simp: readStream_def)

lemma distinct_readStream:
  assumes "numbered db"
  shows "distinct (map run_seq (readStream db k None))"
proof -
  have "distinct (map log_key (filter (\<lambda>e. run_id e = k) (db_log db)))"
    using numberedD(1) [OF assms] by (rule distinct_map_filter)
  then have "distinct (map run_seq (filter (\<lambda>e. run_id e = k) (db_log db)))"
    by (auto simp: distinct_map inj_on_def log_key_def)
  then show ?thesis
    by (auto simp: readStream_def distinct_map inj_on_def)
qed

lemma appendWith_Inr:
  assumes "numbered db" "appendWith vs guard k ds db = Inr (seqs, db')"
  obtains r where "map_get (db_runs db) k = Some r" "ds \<noteq> []" "numbered db'"
    "seqs = [rr_next_seq r..<rr_next_seq r + length ds]"
    "db' = (bump k r (length ds) db)\<lparr>db_log := db_log db @ draft_rows db k (rr_next_seq r) ds\<rparr>"
proof -
  have rows: "ds \<noteq> []" "append_rows guard k ds db = Inr (seqs, db')"
    using assms(2) by (auto simp: appendWith_def append_events_def bind_res_Inr split: if_splits)
  obtain r where r: "map_get (db_runs db) k = Some r"
    using rows by (cases ds; cases "map_get (db_runs db) k") auto
  show ?thesis using that [OF r rows(1)] append_rows_Inr [OF assms(1) r rows(2)] by blast
qed

lemma readStream_own:
  assumes "numbered db" "map_get (db_runs db) k = Some r" "db_log db' = db_log db @ draft_rows db k (rr_next_seq r) ds"
  shows "readStream db' k' None = readStream db k' None @ (if k' = k then draft_rows db k (rr_next_seq r) ds else [])"
proof -
  let ?rows = "draft_rows db k (rr_next_seq r) ds"
  have "x \<in> set (db_log db) \<Longrightarrow> y \<in> set ?rows \<Longrightarrow> run_id x = k' \<Longrightarrow> run_id y = k' \<Longrightarrow> run_seq x < run_seq y" for x y
    using draft_rows_props(2) [of y db k _ ds] placed_below(2) [OF assms(1,2), of x] by fastforce
  then have "readStream db' k' None = readStream db k' None @ filter (\<lambda>e. run_id e = k') ?rows"
    by (intro readStream_extend [OF assms(3)]) (simp_all add: draft_rows_props(1) del: upt_Suc)
  moreover have "filter (\<lambda>e. run_id e = k') ?rows = (if k' = k then ?rows else [])"
    using draft_rows_props(2) [of _ db k _ ds] by (auto simp: filter_id_conv filter_empty_conv)
  ultimately show ?thesis by simp
qed

text \<open>An append returns the next numbers of the run, one for each draft and without a gap, adds
  exactly the drafts' rows at the end of the run's stream and leaves every other stream alone.\<close>

lemma appendEvents_appends:
  assumes "numbered db" "appendEvents validateSchema guard k ds db = Inr (seqs, db')"
  shows "\<exists>r. map_get (db_runs db) k = Some r \<and> ds \<noteq> [] \<and>
           seqs = [rr_next_seq r..<rr_next_seq r + length ds] \<and>
           readStream db' k None = readStream db k None @ draft_rows db k (rr_next_seq r) ds \<and>
           (\<forall>k'. k' \<noteq> k \<longrightarrow> readStream db' k' None = readStream db k' None) \<and> numbered db'"
proof -
  have "appendWith validateSchema guard k ds db = Inr (seqs, db')"
    using assms(2) by (auto simp: appendEvents_def split: if_splits)
  from appendWith_Inr [OF assms(1) this] obtain r where r: "map_get (db_runs db) k = Some r" "ds \<noteq> []" "numbered db'"
    "seqs = [rr_next_seq r..<rr_next_seq r + length ds]"
    "db' = (bump k r (length ds) db)\<lparr>db_log := db_log db @ draft_rows db k (rr_next_seq r) ds\<rparr>" .
  from r(5) have "db_log db' = db_log db @ draft_rows db k (rr_next_seq r) ds" by simp
  from readStream_own [OF assms(1) r(1) this] r(1-4) show ?thesis by simp
qed

subsection \<open>Forks\<close>

fun inherited_rows :: "database \<Rightarrow> string \<Rightarrow> stored_event list \<Rightarrow> stored_event list" where
  "inherited_rows db k [] = []"
| "inherited_rows db k (e # es) =
     inherited_row db k e # inherited_rows (db\<lparr>db_log := db_log db @ [inherited_row db k e]\<rparr>) k es"

text \<open>What a copy keeps of an event: everything but the run it belongs to, its place in the log, and
  when it was written.\<close>

definition content :: "stored_event \<Rightarrow> stored_event" where
  "content e = e\<lparr>run_id := [], global_seq := 0, inherited := False, created_at := []\<rparr>"

lemma content_inherited_rows: "map content (inherited_rows db k es) = map content es"
  by (induction es arbitrary: db) (simp_all add: content_def inherited_row_def)

lemma inherited_rows_props:
  "map run_seq (inherited_rows db k es) = map run_seq es"
  "x \<in> set (inherited_rows db k es) \<Longrightarrow> run_id x = k \<and> inherited x"
  by (induction es arbitrary: db) (auto simp: inherited_row_def)

lemma numbered_inherited:
  assumes "numbered db" "map_get (db_runs db) (run_id e) = Some r" "inherited e" "1 \<le> run_seq e" "run_seq e \<le> floor_of r"
    and new: "log_key e \<notin> log_key ` set (db_log db)"
  shows "numbered (db\<lparr>db_log := db_log db @ [e]\<rparr>)"
proof -
  let ?db = "db\<lparr>db_log := db_log db @ [e]\<rparr>"
  have "placed ?db x" if "x \<in> set (db_log db) \<or> x = e" for x
    using that
  proof
    assume "x = e"
    then show ?thesis using assms(2-5) by (simp add: placed_def)
  qed (simp add: numberedD(2) [OF assms(1)])
  moreover have "dense ?db k' r'" if "map_get (db_runs db) k' = Some r'" for k' r'
    using numberedD(3) [OF assms(1) that] by (auto simp: dense_def)
  ultimately show ?thesis using numberedD(1) [OF assms(1)] new by (auto simp: numbered_def)
qed

lemma copy_rows_numbered:
  assumes "numbered db" "map_get (db_runs db) k = Some r" "rr_seed_floor r = Some n" "copy_rows n k es db = Inr db'"
  shows "numbered db'"
  using assms
proof (induction es arbitrary: db)
  case (Cons e es)
  let ?row = "inherited_row db k e"
  have e: "1 \<le> run_seq e" "run_seq e \<le> n" using Cons.prems(4) by (auto split: if_splits)
  obtain rest: "copy_rows n k es (db\<lparr>db_log := db_log db @ [?row]\<rparr>) = Inr db'"
    and new: "log_key ?row \<notin> log_key ` set (db_log db)"
    using Cons.prems(4) e by (auto simp: bind_res_Inr insert_log_Inr split: if_splits)
  have "numbered (db\<lparr>db_log := db_log db @ [?row]\<rparr>)"
    using Cons.prems(1-3) e new by (intro numbered_inherited [of db _ r]) (simp_all add: inherited_row_def floor_of_def)
  then show ?case using Cons.IH [OF _ _ _ rest] Cons.prems(2,3) by simp
qed simp

lemma copy_rows_total:
  assumes "\<And>e. e \<in> set es \<Longrightarrow> 1 \<le> run_seq e \<and> run_seq e \<le> n" "distinct (map run_seq es)"
    "\<And>e. e \<in> set es \<Longrightarrow> (k, run_seq e) \<notin> log_key ` set (db_log db)"
  shows "copy_rows n k es db = Inr (db\<lparr>db_log := db_log db @ inherited_rows db k es\<rparr>)"
  using assms
proof (induction es arbitrary: db)
  case (Cons e es)
  let ?row = "inherited_row db k e"
  have key: "log_key ?row = (k, run_seq e)" by (simp add: log_key_def inherited_row_def)
  have "insert_log db ?row = Inr (db\<lparr>db_log := db_log db @ [?row]\<rparr>)"
    using Cons.prems(3) [of e] by (intro insert_log_new) (simp add: key)
  moreover have "copy_rows n k es (db\<lparr>db_log := db_log db @ [?row]\<rparr>) =
      Inr (db\<lparr>db_log := db_log db @ [?row] @ inherited_rows (db\<lparr>db_log := db_log db @ [?row]\<rparr>) k es\<rparr>)"
    using Cons.prems by (subst Cons.IH) (auto simp: key image_iff)
  ultimately show ?case using Cons.prems(1) [of e] by auto
qed simp

lemma create_run_numbered:
  assumes "numbered db" "create_run k r db = Inr db'" "rr_next_seq r = Suc (floor_of r)"
  shows "numbered db' \<and> db' = db\<lparr>db_runs := map_set k r (db_runs db)\<rparr> \<and> map_get (db_runs db) k = None"
proof -
  have new: "map_get (db_runs db) k = None" and db': "db' = db\<lparr>db_runs := map_set k r (db_runs db)\<rparr>"
    using assms(2) by (auto simp: create_run_def map_has_iff split: if_splits)
  have "placed db' e" if "e \<in> set (db_log db)" for e
    using numberedD(2) [OF assms(1) that] new by (auto simp: placed_def db' map_get_map_set)
  moreover have "dense db' k' r'" if "map_get (db_runs db') k' = Some r'" for k' r'
    using that numberedD(3) [OF assms(1), of k' r'] assms(3) by (auto simp: dense_def db' map_get_map_set split: if_splits)
  ultimately show ?thesis using numberedD(1) [OF assms(1)] new db' by (simp add: numbered_def)
qed

lemma no_rows_of_missing_run:
  assumes "numbered db" "map_get (db_runs db) k = None" "e \<in> set (db_log db)"
  shows "run_id e \<noteq> k"
  using numberedD(2) [OF assms(1,3)] assms(2) by (auto simp: placed_def)

lemma assertEventDraft_known:
  "known (dr_event_type d) \<Longrightarrow> vs (with_defaults d) = None \<Longrightarrow> dr_payload d = JObj ob \<Longrightarrow> assertEventDraft vs d = Inr ()"
  by (simp add: assertEventDraft_ok)

lemma appendWith_one:
  assumes "numbered db" "map_get (db_runs db) k = Some r" "assertEventDraft vs d = Inr ()"
    and "\<And>db e. event_type e = dr_event_type d \<Longrightarrow> guard db e = None"
  shows "\<exists>db'. appendWith vs guard k [d] db = Inr ([rr_next_seq r], db') \<and> numbered db' \<and>
    db' = (bump k r 1 db)\<lparr>db_log := db_log db @ [draft_row db k (rr_next_seq r) d]\<rparr>"
proof -
  obtain db' where db': "append_rows guard k [d] db = Inr ([rr_next_seq r..<rr_next_seq r + length [d]], db')"
    using append_rows_total [OF assms(1,2), of "[d]" guard] assms(4) by auto
  have "appendWith vs guard k [d] db = append_rows guard k [d] db"
    using assms(3) by (simp add: appendWith_def append_events_def)
  moreover have "[rr_next_seq r..<rr_next_seq r + length [d]] = [rr_next_seq r]" by simp
  moreover have "draft_rows db k (rr_next_seq r) [d] = [draft_row db k (rr_next_seq r) d]" "length [d] = 1" by simp_all
  ultimately show ?thesis
    using append_rows_Inr [OF assms(1,2) db'] db' by metis
qed

lemma readStream_log: "db_log db' = db_log db \<Longrightarrow> readStream db' k a = readStream db k a"
  by (simp add: readStream_def)

lemma readStream_inherited:
  assumes "\<And>x. x \<in> set (db_log db) \<Longrightarrow> run_id x \<noteq> k" "sorted (map run_seq es)"
  shows "readStream (db\<lparr>db_log := db_log db @ inherited_rows db k es\<rparr>) k' None =
    (if k' = k then inherited_rows db k es else readStream db k' None)"
proof -
  let ?rows = "inherited_rows db k es"
  have rows: "filter (\<lambda>e. run_id e = k') ?rows = (if k' = k then ?rows else [])"
    using inherited_rows_props(2) [of _ db k es] by (auto simp: filter_id_conv filter_empty_conv)
  have "readStream (db\<lparr>db_log := db_log db @ ?rows\<rparr>) k' None = readStream db k' None @ filter (\<lambda>e. run_id e = k') ?rows"
    using assms inherited_rows_props(2) [of _ db k es]
    by (intro readStream_extend) (auto simp: inherited_rows_props(1))
  moreover have "readStream db k None = []"
    using assms(1) by (auto simp: readStream_def filter_empty_conv)
  ultimately show ?thesis by (simp add: rows)
qed

text \<open>The event a fork should see: the recorded one, with the substituted pin where there is one.\<close>

definition inherited_copy :: "fork_request \<Rightarrow> stored_event \<Rightarrow> stored_event" where
  "inherited_copy q e =
     (case find (\<lambda>s. fs_run_seq s = run_seq e) (fq_substitutions q) of
        None \<Rightarrow> e | Some s \<Rightarrow> e\<lparr>pin_version := Some (fs_pin_version s)\<rparr>)"

lemma map_of_substitutions:
  "map_of (map (\<lambda>s. (fs_run_seq s, fs_pin_version s)) subs) k = map_option fs_pin_version (find (\<lambda>s. fs_run_seq s = k) subs)"
  by (induction subs) auto

lemma toInheritedCopy_eq:
  assumes "distinct (map fs_run_seq (fq_substitutions q))"
  shows "toInheritedCopy e (map_get (new_map (map (\<lambda>s. (fs_run_seq s, fs_pin_version s)) (fq_substitutions q))) (run_seq e)) =
    inherited_copy q e"
proof -
  have "distinct (map fst (map (\<lambda>s. (fs_run_seq s, fs_pin_version s)) (fq_substitutions q)))"
    using assms by (simp add: comp_def)
  from map_get_new_map_distinct [OF this] show ?thesis
    by (simp add: toInheritedCopy_def inherited_copy_def map_of_substitutions split: option.splits)
qed

definition kept_events :: "database \<Rightarrow> fork_request \<Rightarrow> stored_event list" where
  "kept_events db q =
     (let window = window_of (readStream db (fq_source_run_id q) None) (fq_eval_up_to_seq q) in
      filter (\<lambda>e. \<not> (fq_substitutions q \<noteq> [] \<and> causally_invalid window (fq_at_vertex_id q) e)) window)"

lemma inherited_copy_seq [simp]: "run_seq (inherited_copy q e) = run_seq e"
  by (simp add: inherited_copy_def split: option.splits)

lemma kept_events_props:
  assumes "numbered db" "map_get (db_runs db) (fq_source_run_id q) = Some r"
  shows "sorted (map run_seq (kept_events db q))" "distinct (map run_seq (kept_events db q))"
    "e \<in> set (kept_events db q) \<Longrightarrow> 1 \<le> run_seq e \<and> run_seq e \<le> fq_eval_up_to_seq q"
proof -
  show "sorted (map run_seq (kept_events db q))"
    unfolding kept_events_def window_of_def Let_def filter_filter by (rule sorted_filter [OF sorted_readStream])
  show "distinct (map run_seq (kept_events db q))"
    unfolding kept_events_def window_of_def Let_def filter_filter
    by (rule distinct_map_filter [OF distinct_readStream [OF assms(1)]])
  show "1 \<le> run_seq e \<and> run_seq e \<le> fq_eval_up_to_seq q" if "e \<in> set (kept_events db q)"
    using that placed_below(1) [OF assms, of e] by (auto simp: kept_events_def window_of_def Let_def set_readStream)
qed

lemma draft_row_key [simp]: "run_id (draft_row db k n d) = k" "run_seq (draft_row db k n d) = n"
  by (simp_all add: draft_row_def)

lemma content_draft_row: "content (draft_row db k n d) = content (draft_row db' k' n d)"
  by (simp add: content_def draft_row_def)

text \<open>The second half of a fork: the copies and the event that ends the seed.\<close>

lemma seed_child:
  assumes db: "numbered db" and child: "map_get (db_runs db) child = Some \<lparr>rr_next_seq = Suc n, rr_seed_floor = Some n\<rparr>"
    and none: "\<And>x. x \<in> set (db_log db) \<Longrightarrow> run_id x \<noteq> child"
    and copies: "\<And>e. e \<in> set copies \<Longrightarrow> 1 \<le> run_seq e \<and> run_seq e \<le> n"
      "distinct (map run_seq copies)" "sorted (map run_seq copies)"
    and d: "assertEventDraft vs d = Inr ()" "\<And>db e. event_type e = dr_event_type d \<Longrightarrow> guard db e = None"
  obtains db3 db4 where "(if copies = [] then Inr db else copy_inherited_events child copies db) = Inr db3"
    "appendWith vs guard child [d] db3 = Inr ([Suc n], db4)" "numbered db4"
    "map content (readStream db4 child None) = map content copies @ [content (draft_row db child (Suc n) d)]"
    "\<forall>k. k \<noteq> child \<longrightarrow> readStream db4 k None = readStream db k None"
proof -
  let ?r = "\<lparr>rr_next_seq = Suc n, rr_seed_floor = Some n\<rparr>"
  define db3 where "db3 = db\<lparr>db_log := db_log db @ inherited_rows db child copies\<rparr>"
  have copy: "copy_rows n child copies db = Inr db3"
    unfolding db3_def using copies(1,2) none by (intro copy_rows_total) (auto simp: log_key_def)
  have ok3: "numbered db3" using copy_rows_numbered [OF db child _ copy] by simp
  have child3: "map_get (db_runs db3) child = Some ?r" using child by (simp add: db3_def)
  obtain db4 where append: "appendWith vs guard child [d] db3 = Inr ([Suc n], db4)" and ok4: "numbered db4"
    and db4: "db4 = (bump child ?r 1 db3)\<lparr>db_log := db_log db3 @ [draft_row db3 child (Suc n) d]\<rparr>"
    using appendWith_one [OF ok3 child3 d] by auto
  have read4: "readStream db4 k None = readStream db3 k None @ (if k = child then [draft_row db3 child (Suc n) d] else [])" for k
    using readStream_own [OF ok3 child3, of db4 "[d]" k] by (simp add: db4)
  have read3: "readStream db3 k None = (if k = child then inherited_rows db child copies else readStream db k None)" for k
    unfolding db3_def using copies(3) by (intro readStream_inherited none)
  show ?thesis
  proof (rule that [OF _ append ok4])
    show "(if copies = [] then Inr db else copy_inherited_events child copies db) = Inr db3"
      using copy child by (auto simp: copy_inherited_events_def)
    show "map content (readStream db4 child None) = map content copies @ [content (draft_row db child (Suc n) d)]"
      using content_draft_row [of db3 child "Suc n" d db child] by (simp add: read4 read3 content_inherited_rows)
  qed (simp add: read4 read3)
qed

text \<open>The first half: the child's row and the event that records the fork in its source.\<close>

lemma open_child:
  assumes db: "numbered db" and src: "map_get (db_runs db) src = Some r" and fresh: "map_get (db_runs db) child = None"
    and d: "assertEventDraft vs d = Inr ()" "\<And>db e. event_type e = dr_event_type d \<Longrightarrow> guard db e = None"
  obtains db1 db2 where "create_run child \<lparr>rr_next_seq = Suc n, rr_seed_floor = Some n\<rparr> db = Inr db1"
    "appendWith vs guard src [d] db1 = Inr ([rr_next_seq r], db2)" "numbered db2"
    "map_get (db_runs db2) child = Some \<lparr>rr_next_seq = Suc n, rr_seed_floor = Some n\<rparr>"
    "\<And>x. x \<in> set (db_log db2) \<Longrightarrow> run_id x \<noteq> child"
    "\<And>k. readStream db2 k None = readStream db k None @ (if k = src then [draft_row db src (rr_next_seq r) d] else [])"
proof -
  let ?cr = "\<lparr>rr_next_seq = Suc n, rr_seed_floor = Some n\<rparr>"
  have neq: "child \<noteq> src" using src fresh by auto
  define db1 where "db1 = db\<lparr>db_runs := map_set child ?cr (db_runs db)\<rparr>"
  have create: "create_run child ?cr db = Inr db1"
    using fresh by (simp add: create_run_def map_has_iff db1_def)
  have ok1: "numbered db1"
    by (rule conjunct1 [OF create_run_numbered [OF db create]]) (simp add: floor_of_def)
  have src1: "map_get (db_runs db1) src = Some r" using src neq by (simp add: db1_def map_get_map_set)
  obtain db2 where append: "appendWith vs guard src [d] db1 = Inr ([rr_next_seq r], db2)" and ok2: "numbered db2"
    and db2: "db2 = (bump src r 1 db1)\<lparr>db_log := db_log db1 @ [draft_row db1 src (rr_next_seq r) d]\<rparr>"
    using appendWith_one [OF ok1 src1 d] by auto
  have log1: "readStream db1 k' None = readStream db k' None" for k'
    by (rule readStream_log) (simp add: db1_def)
  have row: "draft_row db1 src (rr_next_seq r) d = draft_row db src (rr_next_seq r) d"
    by (simp add: db1_def draft_row_def)
  show ?thesis
  proof (rule that [OF create append ok2])
    show "map_get (db_runs db2) child = Some ?cr"
      using neq by (simp add: db2 bump_def db1_def map_get_map_set)
    show "run_id x \<noteq> child" if "x \<in> set (db_log db2)" for x
    proof -
      have "run_id x = src \<or> x \<in> set (db_log db)" using that by (auto simp: db2 db1_def)
      then show ?thesis using no_rows_of_missing_run [OF db fresh] neq by auto
    qed
    show "readStream db2 k None = readStream db k None @ (if k = src then [draft_row db src (rr_next_seq r) d] else [])" for k
      using readStream_own [OF ok1 src1, of db2 "[d]" k] log1
      by (simp add: db2 row)
  qed
qed

text \<open>C11: a fork of a recorded position returns.  The child's stream is the kept part of the source's
  window, copied event by event with the substituted pins, followed by the event that ends the seed at
  the position after the evaluated one; the source gains exactly the event that records the fork, and
  no other stream changes.\<close>

theorem fork_reproduces:
  assumes db: "numbered db" and src: "map_get (db_runs db) (fq_source_run_id q) = Some r"
    and fresh: "map_get (db_runs db) child = None"
    and seq: "1 \<le> fq_eval_up_to_seq q" "fq_eval_up_to_seq q < rr_next_seq r"
    and slice: "computeForkSlice (readStream db (fq_source_run_id q) None) (fq_at_vertex_id q) (fq_substitutions q)
      (fq_eval_up_to_seq q) = Inr slice"
    and schema: "vs (with_defaults (fork_created_draft q child (length (kept_events db q)))) = None"
      "vs (with_defaults (end_seed_draft q (length (kept_events db q)))) = None"
    and guard: "\<And>db e. event_type e = ForkCreated \<or> event_type e = RunEndSeed \<Longrightarrow> guard db e = None"
  shows "\<exists>db'. fork Engine vs guard child q db =
      Inr (\<lparr>fr_child_run_id = child, fr_end_seed_seq = Suc (fq_eval_up_to_seq q),
            fr_inherited_event_count = length (kept_events db q)\<rparr>, db') \<and> numbered db' \<and>
    map content (readStream db' child None) = map (content \<circ> inherited_copy q) (kept_events db q) @
      [content (draft_row db child (Suc (fq_eval_up_to_seq q)) (end_seed_draft q (length (kept_events db q))))] \<and>
    readStream db' (fq_source_run_id q) None = readStream db (fq_source_run_id q) None @
      [draft_row db (fq_source_run_id q) (rr_next_seq r) (fork_created_draft q child (length (kept_events db q)))] \<and>
    (\<forall>k. k \<noteq> child \<and> k \<noteq> fq_source_run_id q \<longrightarrow> readStream db' k None = readStream db k None)"
proof -
  let ?n = "fq_eval_up_to_seq q" and ?kept = "kept_events db q"
  let ?fc = "fork_created_draft q child (length ?kept)" and ?es = "end_seed_draft q (length ?kept)"
  have kept: "sl_seed slice @ sl_independent slice = ?kept"
    using forkSlice_kept [OF slice sorted_readStream] by (simp add: kept_events_def Let_def)
  have fc: "assertEventDraft vs ?fc = Inr ()" "dr_event_type ?fc = ForkCreated"
    using schema(1) by (simp_all add: assertEventDraft_ok fork_created_draft_def draft_def known_iff)
  have es: "assertEventDraft vs ?es = Inr ()" "dr_event_type ?es = RunEndSeed"
    using schema(2) by (simp_all add: assertEventDraft_ok end_seed_draft_def draft_def known_iff)
  obtain db1 db2 where first: "create_run child \<lparr>rr_next_seq = Suc ?n, rr_seed_floor = Some ?n\<rparr> db = Inr db1"
    "appendWith vs guard (fq_source_run_id q) [?fc] db1 = Inr ([rr_next_seq r], db2)"
    and two: "numbered db2" "map_get (db_runs db2) child = Some \<lparr>rr_next_seq = Suc ?n, rr_seed_floor = Some ?n\<rparr>"
    "\<And>x. x \<in> set (db_log db2) \<Longrightarrow> run_id x \<noteq> child"
    and read2: "\<And>k. readStream db2 k None = readStream db k None @
       (if k = fq_source_run_id q then [draft_row db (fq_source_run_id q) (rr_next_seq r) ?fc] else [])"
    by (rule open_child [OF db src fresh fc(1), of guard ?n]) (use guard fc(2) in auto)
  define copies where "copies = map (inherited_copy q) ?kept"
  note kp = kept_events_props [OF db src]
  obtain db3 db4 where second: "(if copies = [] then Inr db2 else copy_inherited_events child copies db2) = Inr db3"
    "appendWith vs guard child [?es] db3 = Inr ([Suc ?n], db4)" and ok4: "numbered db4"
    and read4: "map content (readStream db4 child None) = map content copies @ [content (draft_row db2 child (Suc ?n) ?es)]"
    "\<forall>k. k \<noteq> child \<longrightarrow> readStream db4 k None = readStream db2 k None"
    by (rule seed_child [OF two, of copies vs ?es guard]) (use guard es kp in \<open>auto simp: copies_def comp_def\<close>)
  have copies_eq: "map (\<lambda>e. toInheritedCopy e (map_get (new_map (map (\<lambda>s. (fs_run_seq s, fs_pin_version s))
      (fq_substitutions q))) (run_seq e))) ?kept = copies"
    using forkSlice_distinct [OF slice] by (simp add: copies_def toInheritedCopy_eq)
  have pos: "\<not> (?n < 1 \<or> ?n > rr_next_seq r - 1)" using seq by arith
  have "copies = [] \<longleftrightarrow> ?kept = []" by (simp add: copies_def)
  then have "fork Engine vs guard child q db = Inr (\<lparr>fr_child_run_id = child, fr_end_seed_seq = Suc ?n,
      fr_inherited_event_count = length ?kept\<rparr>, db4)"
    using src pos slice first second
    by (cases "?kept = []") (simp_all add: fork_def requireEngine_def kept Let_def copies_eq del: length_append append_is_Nil_conv map_append)
  moreover have "child \<noteq> fq_source_run_id q" using src fresh by auto
  ultimately show ?thesis
    using ok4 read4 read2 content_draft_row [of db2 child "Suc ?n" ?es db child] by (simp add: copies_def)
qed

section \<open>The invariant of the store\<close>

text \<open>
  The business plane: every entity stream is numbered from one without a gap in the order of its rows,
  configuration rows have no run, and a row is quarantined exactly when its run is a fork, which can only
  write the fork namespace.
\<close>

definition quarantined :: "database \<Rightarrow> business_event \<Rightarrow> bool" where
  "quarantined db b \<longleftrightarrow>
     (case be_run_id b of
        None \<Rightarrow> startsWith (be_stream_id b) ''config:'' \<and> \<not> be_is_counterfactual b
      | Some k \<Rightarrow> \<exists>r. map_get (db_runs db) k = Some r \<and> be_is_counterfactual b = (rr_seed_floor r \<noteq> None) \<and>
          be_is_counterfactual b = startsWith (be_stream_id b) ''fork:'')"

definition stream_rows :: "database \<Rightarrow> string \<Rightarrow> business_event list" where
  "stream_rows db s = filter (\<lambda>b. be_stream_id b = s) (db_business db)"

definition next_of :: "database \<Rightarrow> string \<Rightarrow> nat" where
  "next_of db s = nullish (map_get (db_streams db) s) 1"

definition business_ok :: "database \<Rightarrow> bool" where
  "business_ok db \<longleftrightarrow> (\<forall>s. 1 \<le> next_of db s \<and> map be_stream_seq (stream_rows db s) = [1..<next_of db s]) \<and>
     (\<forall>b\<in>set (db_business db). quarantined db b)"

definition database_ok :: "database \<Rightarrow> bool" where
  "database_ok db \<longleftrightarrow> numbered db \<and> business_ok db"

definition runs_kept :: "database \<Rightarrow> database \<Rightarrow> bool" where
  "runs_kept db db' \<longleftrightarrow> (\<forall>k r. map_get (db_runs db) k = Some r \<longrightarrow>
     (\<exists>r'. map_get (db_runs db') k = Some r' \<and> rr_seed_floor r' = rr_seed_floor r))"

lemma business_frame:
  assumes "business_ok db" "db_business db' = db_business db" "db_streams db' = db_streams db" "runs_kept db db'"
  shows "business_ok db'"
proof -
  have "quarantined db' b" if "quarantined db b" for b
    using that assms(4) unfolding quarantined_def runs_kept_def
    by (cases "be_run_id b") (simp_all, metis)
  then show ?thesis using assms(1-3) by (simp add: business_ok_def stream_rows_def next_of_def)
qed

lemma runs_kept_bump: "map_get (db_runs db) k = Some r \<Longrightarrow> runs_kept db ((bump k r n db)\<lparr>db_log := l\<rparr>)"
  by (auto simp: runs_kept_def bump_def map_get_map_set)

lemma appendWith_ok:
  assumes "database_ok db" "appendWith vs guard k ds db = Inr (seqs, db')"
  shows "database_ok db'"
proof -
  have db: "numbered db" "business_ok db" using assms(1) by (simp_all add: database_ok_def)
  obtain r where r: "map_get (db_runs db) k = Some r" "numbered db'"
    "db' = (bump k r (length ds) db)\<lparr>db_log := db_log db @ draft_rows db k (rr_next_seq r) ds\<rparr>"
    using appendWith_Inr [OF db(1) assms(2)] by metis
  have "runs_kept db db'" unfolding r(3) by (rule runs_kept_bump [OF r(1)])
  then have "business_ok db'" by (rule business_frame [OF db(2), rotated 2]) (simp_all add: r(3) bump_def)
  with r(2) show ?thesis by (simp add: database_ok_def)
qed

lemma create_run_ok:
  assumes "database_ok db" "create_run k r db = Inr db'" "rr_next_seq r = Suc (floor_of r)"
  shows "database_ok db'"
proof -
  have db: "numbered db" "business_ok db" using assms(1) by (simp_all add: database_ok_def)
  note created = create_run_numbered [OF db(1) assms(2,3)]
  then have "runs_kept db db'" by (auto simp: runs_kept_def map_get_map_set)
  then have "business_ok db'" by (rule business_frame [OF db(2), rotated 2]) (simp_all add: created)
  with conjunct1 [OF created] show ?thesis by (simp add: database_ok_def)
qed

lemma copy_rows_frame: "copy_rows n k es db = Inr db' \<Longrightarrow> \<exists>l. db' = db\<lparr>db_log := l\<rparr>"
proof (induction es arbitrary: db)
  case Nil
  then have "db' = db\<lparr>db_log := db_log db\<rparr>" by simp
  then show ?case ..
next
  case (Cons e es)
  then obtain db1 where "insert_log db (inherited_row db k e) = Inr db1" "copy_rows n k es db1 = Inr db'"
    by (auto simp: bind_res_Inr split: if_splits)
  with Cons.IH show ?case by (fastforce simp: insert_log_Inr)
qed

lemma copy_inherited_ok:
  assumes "database_ok db" "copy_inherited_events k es db = Inr db'"
  shows "database_ok db'"
proof -
  have db: "numbered db" "business_ok db" using assms(1) by (simp_all add: database_ok_def)
  obtain r n where r: "map_get (db_runs db) k = Some r" "rr_seed_floor r = Some n" "copy_rows n k es db = Inr db'"
    using assms(2) by (auto simp: copy_inherited_events_def split: option.splits)
  obtain l where l: "db' = db\<lparr>db_log := l\<rparr>" using copy_rows_frame [OF r(3)] ..
  have "business_ok db'" by (rule business_frame [OF db(2)]) (simp_all add: l runs_kept_def)
  then show ?thesis using copy_rows_numbered [OF db(1) r] by (simp add: database_ok_def)
qed

lemma appendWith_post: "database_ok db \<Longrightarrow> post (\<lambda>p. database_ok (snd p)) (appendWith vs guard k ds db)"
  by (rule postI) (auto dest: appendWith_ok)

lemma create_run_post: "database_ok db \<Longrightarrow> rr_next_seq r = Suc (floor_of r) \<Longrightarrow> post database_ok (create_run k r db)"
  by (rule postI) (auto dest: create_run_ok)

lemma copy_inherited_post: "database_ok db \<Longrightarrow> post database_ok (copy_inherited_events k es db)"
  by (rule postI) (auto dest: copy_inherited_ok)

lemma fork_post:
  assumes "database_ok db"
  shows "post (\<lambda>p. database_ok (snd p)) (fork a vs guard child q db)"
proof (cases "map_get (db_runs db) (fq_source_run_id q)")
  case (Some r)
  show ?thesis
    unfolding fork_def Some option.case Let_def split_beta
    by (rule post_bind_pure, rule post_if, simp, rule post_bind_pure, rule post_bind [OF create_run_post [OF assms]],
        simp add: floor_of_def, rule post_bind [OF appendWith_post], assumption, rule post_bind [where Q = database_ok],
        rule post_if, simp, rule copy_inherited_post, assumption, rule post_bind [OF appendWith_post], assumption, simp)
qed (simp add: fork_def requireEngine_def)

subsection \<open>Business facts\<close>

lemma quarantined_runs: "db_runs db' = db_runs db \<Longrightarrow> quarantined db' = quarantined db"
  by (rule ext) (auto simp: quarantined_def split: option.splits)

lemma insert_business_ok:
  assumes "business_ok db" "be_stream_seq b = next_of db (be_stream_id b)"
    "\<And>k. be_run_id b = Some k \<Longrightarrow> \<exists>r. map_get (db_runs db) k = Some r \<and> be_is_counterfactual b = (rr_seed_floor r \<noteq> None) \<and>
       be_is_counterfactual b = startsWith (be_stream_id b) ''fork:''"
    "be_run_id b = None \<Longrightarrow> be_run_seq b = None \<and> \<not> be_is_counterfactual b"
    and insert: "insert_business b (db\<lparr>db_streams := map_set (be_stream_id b) (Suc (next_of db (be_stream_id b))) (db_streams db)\<rparr>) = Inr db'"
  shows "business_ok db' \<and> db_runs db' = db_runs db \<and> db_log db' = db_log db"
proof -
  let ?s = "be_stream_id b"
  have db': "db' = db\<lparr>db_streams := map_set ?s (Suc (next_of db ?s)) (db_streams db), db_business := db_business db @ [b]\<rparr>"
    and config: "startsWith ?s ''config:'' = (be_run_id b = None \<and> be_run_seq b = None)"
    using insert by (auto simp: insert_business_def split: if_splits)
  have counter: "next_of db' s = (if s = ?s then Suc (next_of db ?s) else next_of db s)" for s
    by (simp add: next_of_def db' map_get_map_set)
  have rows: "stream_rows db' s = stream_rows db s @ (if s = ?s then [b] else [])" for s
    by (auto simp: stream_rows_def db')
  have "map be_stream_seq (stream_rows db' s) = [1..<next_of db' s] \<and> 1 \<le> next_of db' s" for s
    using assms(1,2) by (simp add: business_ok_def rows counter)
  moreover have "quarantined db' b"
    using assms(3,4) config by (cases "be_run_id b") (auto simp: quarantined_def db')
  moreover have "quarantined db' x" if "x \<in> set (db_business db)" for x
    using that assms(1) quarantined_runs [of db' db] by (simp add: business_ok_def db')
  ultimately show ?thesis by (simp add: business_ok_def db')
qed

lemma append_facts_ok:
  assumes "business_ok db" "map_get (db_runs db) runId = Some r" "isFork = (rr_seed_floor r \<noteq> None)"
    "isFork = startsWith streamId ''fork:''" "append_facts streamId runId causedBy isFork fs db = Inr (rs, db')"
  shows "business_ok db' \<and> db_runs db' = db_runs db \<and> db_log db' = db_log db"
  using assms(1,2,5)
proof (induction fs arbitrary: db rs)
  case (Cons f fs)
  define row where "row = \<lparr>be_stream_id = streamId, be_stream_seq = next_of db streamId, be_run_id = Some runId,
    be_run_seq = Some causedBy, be_event_type = bf_event_type f, be_is_counterfactual = isFork, be_payload = bf_payload f\<rparr>"
  obtain db1 rest where db1: "insert_business row (db\<lparr>db_streams := map_set (be_stream_id row) (Suc (next_of db (be_stream_id row))) (db_streams db)\<rparr>) = Inr db1"
    and rest: "append_facts streamId runId causedBy isFork fs db1 = Inr (rest, db')"
    using Cons.prems(3) by (auto simp: Let_def bind_res_Inr row_def next_of_def split: if_splits)
  have one: "business_ok db1 \<and> db_runs db1 = db_runs db \<and> db_log db1 = db_log db"
    using Cons.prems(2) assms(3,4) by (intro insert_business_ok [OF Cons.prems(1) _ _ _ db1]) (auto simp: row_def)
  with Cons.IH [of db1 rest] rest Cons.prems(2) show ?case by simp
qed simp

lemma appendDomainEvents_post:
  assumes "database_ok db"
  shows "post (\<lambda>p. database_ok (snd p)) (appendDomainEvents vs guard runId streamId e facts db)"
proof (rule postI)
  fix p assume "appendDomainEvents vs guard runId streamId e facts db = Inr p"
  then obtain isFork seqs db1 where fork: "is_fork_run db runId = Some isFork" "isFork = startsWith streamId ''fork:''"
    and e: "assertEventDraft vs e = Inr ()" "append_events guard runId [e] db = Inr (seqs, db1)"
    and facts: "append_facts streamId runId (hd seqs) isFork facts db1 = Inr p"
    by (auto simp: appendDomainEvents_def append_domain_events_def bind_res_Inr split: if_splits option.splits)
  have "appendWith vs guard runId [e] db = Inr (seqs, db1)" using e by (simp add: appendWith_def)
  from appendWith_ok [OF assms this] have ok1: "database_ok db1" .
  obtain r where r: "map_get (db_runs db) runId = Some r" "isFork = (rr_seed_floor r \<noteq> None)"
    using fork(1) by (auto simp: is_fork_run_def)
  have "runs_kept db db1"
    using appendWith_Inr [OF _ \<open>appendWith vs guard runId [e] db = Inr (seqs, db1)\<close>] assms runs_kept_bump
    by (metis database_ok_def)
  then obtain r1 where "map_get (db_runs db1) runId = Some r1" "rr_seed_floor r1 = rr_seed_floor r"
    using r(1) by (auto simp: runs_kept_def)
  then have "business_ok (snd p) \<and> db_runs (snd p) = db_runs db1 \<and> db_log (snd p) = db_log db1"
    using append_facts_ok [of db1 runId r1 isFork streamId "hd seqs" facts "fst p" "snd p"] ok1 r(2) fork(2) facts
    by (simp add: database_ok_def)
  then show "database_ok (snd p)"
    using ok1 by (simp add: database_ok_def numbered_def placed_def dense_def)
qed

lemma appendConfigEvent_post:
  assumes "database_ok db"
  shows "post (\<lambda>p. database_ok (snd p)) (appendConfigEvent a streamId eventType pl db)"
proof (rule postI)
  fix p assume config: "appendConfigEvent a streamId eventType pl db = Inr p"
  define row where "row = \<lparr>be_stream_id = streamId, be_stream_seq = next_of db streamId, be_run_id = None, be_run_seq = None,
    be_event_type = eventType, be_is_counterfactual = False, be_payload = pl\<rparr>"
  have "insert_business row (db\<lparr>db_streams := map_set (be_stream_id row) (Suc (next_of db (be_stream_id row))) (db_streams db)\<rparr>) =
      Inr (snd p)"
    using config by (auto simp: appendConfigEvent_def bind_res_Inr row_def next_of_def Let_def split: if_splits)
  then have "business_ok (snd p) \<and> db_runs (snd p) = db_runs db \<and> db_log (snd p) = db_log db"
    using assms by (intro insert_business_ok [of db row]) (auto simp: row_def database_ok_def)
  then show "database_ok (snd p)"
    using assms by (simp add: database_ok_def numbered_def placed_def dense_def)
qed

subsection \<open>Reachable databases\<close>

text \<open>
  The transactions of the store, in any order and with any arguments, and what the coordinator writes in
  between: scope and bracket rows, and the clock.
\<close>

inductive store_step :: "validator \<Rightarrow> guard \<Rightarrow> database \<Rightarrow> database \<Rightarrow> bool" for vs guard where
  create: "createRun a k db = Inr (k', db') \<Longrightarrow> store_step vs guard db db'"
| append: "appendEvents vs guard k ds db = Inr (seqs, db') \<Longrightarrow> store_step vs guard db db'"
| freeze: "freezeUnderScopeLock a vs guard k decide keys db = Inr (r, db') \<Longrightarrow> store_step vs guard db db'"
| recover: "appendUnderScopeLock a vs guard k decide' db = Inr (r, db') \<Longrightarrow> store_step vs guard db db'"
| fork: "fork a vs guard child q db = Inr (res, db') \<Longrightarrow> store_step vs guard db db'"
| domain: "appendDomainEvents vs guard k s e facts db = Inr (rs, db') \<Longrightarrow> store_step vs guard db db'"
| config: "appendConfigEvent a s t p db = Inr (n, db') \<Longrightarrow> store_step vs guard db db'"
| coordinator: "store_step vs guard db (db\<lparr>db_scopes := scopes, db_brackets := brackets, db_now := now\<rparr>)"

definition empty_database :: "string \<Rightarrow> database" where
  "empty_database now = \<lparr>db_runs = [], db_log = [], db_scopes = [], db_brackets = [], db_streams = [],
     db_business = [], db_now = now\<rparr>"

lemma empty_database_ok: "database_ok (empty_database now)"
  by (simp add: database_ok_def numbered_def business_ok_def empty_database_def map_get_def stream_rows_def next_of_def)

lemma createRun_post: "database_ok db \<Longrightarrow> post (\<lambda>p. database_ok (snd p)) (createRun a k db)"
  unfolding createRun_def
  by (rule post_bind_pure, rule post_bind [OF create_run_post], assumption) (simp_all add: floor_of_def)

lemma appendEvents_post: "database_ok db \<Longrightarrow> post (\<lambda>p. database_ok (snd p)) (appendEvents vs guard k ds db)"
  unfolding appendEvents_def by (rule post_if) (simp_all add: appendWith_post)

lemma freeze_post: "database_ok db \<Longrightarrow> post (\<lambda>p. database_ok (snd p)) (freezeUnderScopeLock a vs guard k decide keys db)"
  unfolding freezeUnderScopeLock_def
  by (rule post_bind_pure, rule post_bind_pure)
    (auto split: option.split intro!: post_bind [OF appendWith_post])

lemma recover_post: "database_ok db \<Longrightarrow> post (\<lambda>p. database_ok (snd p)) (appendUnderScopeLock a vs guard k decide db)"
  unfolding appendUnderScopeLock_def
  by (rule post_bind_pure, rule post_bind_pure, rule post_if)
    (auto intro!: post_bind [OF appendWith_post])

lemmas store_postD = createRun_post [THEN postD] appendEvents_post [THEN postD] freeze_post [THEN postD]
  recover_post [THEN postD] fork_post [THEN postD] appendDomainEvents_post [THEN postD]
  appendConfigEvent_post [THEN postD]

lemma store_step_ok: "store_step vs guard db db' \<Longrightarrow> database_ok db \<Longrightarrow> database_ok db'"
proof (induction rule: store_step.induct)
  case (coordinator db now brackets scopes)
  let ?db = "db\<lparr>db_scopes := scopes, db_brackets := brackets, db_now := now\<rparr>"
  have "quarantined ?db = quarantined db" by (rule quarantined_runs) simp
  with coordinator show ?case
    by (simp add: database_ok_def numbered_def placed_def dense_def business_ok_def stream_rows_def next_of_def)
qed (drule (1) store_postD, simp)+

lemma reachable_database_ok: "(store_step vs guard)\<^sup>*\<^sup>* (empty_database now) db \<Longrightarrow> database_ok db"
  by (induction rule: rtranclp_induct) (auto intro: empty_database_ok store_step_ok)

lemma numbered_stream:
  assumes "numbered db" "map_get (db_runs db) k = Some r"
  shows "map run_seq (filter (\<lambda>e. \<not> inherited e) (readStream db k None)) = [Suc (floor_of r)..<rr_next_seq r]"
proof (rule sorted_distinct_set_unique)
  let ?own = "filter (\<lambda>e. \<not> inherited e) (readStream db k None)"
  show "sorted (map run_seq ?own)" by (rule sorted_filter [OF sorted_readStream])
  show "distinct (map run_seq ?own)" by (rule distinct_map_filter [OF distinct_readStream [OF assms(1)]])
  have "run_seq e \<in> {Suc (floor_of r)..<rr_next_seq r}" if "e \<in> set ?own" for e
    using that numberedD(2) [OF assms(1), of e] assms(2) by (auto simp: set_readStream placed_def)
  moreover have "s \<in> run_seq ` set ?own" if s: "s \<in> {Suc (floor_of r)..<rr_next_seq r}" for s
  proof -
    obtain e where e: "e \<in> set (db_log db)" "run_id e = k" "run_seq e = s"
      using s numberedD(3) [OF assms] by (auto simp: dense_def log_key_def Suc_le_eq)
    moreover have "\<not> inherited e"
      using numberedD(2) [OF assms(1) e(1)] assms(2) e(2,3) s by (auto simp: placed_def)
    ultimately show ?thesis by (auto simp: set_readStream)
  qed
  ultimately show "set (map run_seq ?own) = set [Suc (floor_of r)..<rr_next_seq r]" by auto
qed simp_all

text \<open>C12: in every database the store's transactions reach, a run's own events carry the consecutive
  numbers from the one after its seed floor up to its counter, inherited events lie at or below the floor,
  no number occurs twice, and a run that is no fork inherits nothing.\<close>

theorem reachable_streams_dense:
  assumes "(store_step vs guard)\<^sup>*\<^sup>* (empty_database now) db" "map_get (db_runs db) k = Some r"
  shows "map run_seq (filter (\<lambda>e. \<not> inherited e) (readStream db k None)) = [Suc (floor_of r)..<rr_next_seq r] \<and>
    (\<forall>e. e \<in> set (readStream db k None) \<and> inherited e \<longrightarrow> rr_seed_floor r \<noteq> None \<and> 1 \<le> run_seq e \<and> run_seq e \<le> floor_of r) \<and>
    distinct (map run_seq (readStream db k None))"
proof -
  have db: "numbered db" using reachable_database_ok [OF assms(1)] by (simp add: database_ok_def)
  have "rr_seed_floor r \<noteq> None \<and> 1 \<le> run_seq e \<and> run_seq e \<le> floor_of r"
    if "e \<in> set (readStream db k None)" "inherited e" for e
    using that numberedD(2) [OF db, of e] assms(2)
    by (cases "rr_seed_floor r") (auto simp: set_readStream placed_def floor_of_def)
  with numbered_stream [OF db assms(2)] distinct_readStream [OF db] show ?thesis by blast
qed


section \<open>Witnesses\<close>

text \<open>A run that creates three vertices, the second below the first.\<close>

definition wit_create :: "string \<Rightarrow> string list \<Rightarrow> string \<Rightarrow> event_draft" where
  "wit_create v ps pin = (draft VertexCreated [])\<lparr>dr_vertex_id := Some v, dr_parent_refs := Some ps, dr_pin_version := Some pin\<rparr>"

definition wit_drafts :: "event_draft list" where
  "wit_drafts = [wit_create ''v'' [] ''p1'', wit_create ''w'' [''v''] ''p1'', wit_create ''x'' [] ''p1'']"

definition wit_valid :: validator where
  "wit_valid = (\<lambda>d. if dr_payload d = JUndef then Some ''payload'' else None)"

definition wit_guard :: guard where
  "wit_guard = (\<lambda>db e. if event_type e = TxnPivotPassed then Some (Error ''scope'') else None)"

definition wit_db1 :: database where
  "wit_db1 = snd (projr (createRun Engine ''r'' (empty_database ''t'')))"

definition wit_db :: database where
  "wit_db = snd (projr (appendEvents wit_valid wit_guard ''r'' wit_drafts wit_db1))"

definition wit_request :: fork_request where
  "wit_request = \<lparr>fq_source_run_id = ''r'', fq_at_vertex_id = ''v'', fq_eval_up_to_seq = 3,
     fq_substitutions = [\<lparr>fs_run_seq = 1, fs_pin_version = ''p2''\<rparr>], fq_fold_mode = ModelLive,
     fq_evaluator_pin = ''e'', fq_projector_version = ''1'', fq_harness_state_version = ''1''\<rparr>"

definition wit_slice :: fork_slice where
  "wit_slice = projr (computeForkSlice (readStream wit_db ''r'' None) ''v'' [\<lparr>fs_run_seq = 1, fs_pin_version = ''p2''\<rparr>] 3)"

lemma wit_step1: "createRun Engine ''r'' (empty_database ''t'') = Inr (''r'', wit_db1)"
  by (simp add: wit_db1_def createRun_def requireEngine_def create_run_def empty_database_def map_has_def)

lemma wit_step2: "appendEvents wit_valid wit_guard ''r'' wit_drafts wit_db1 = Inr ([1, 2, 3], wit_db)"
proof -
  have "\<not> isl (appendEvents wit_valid wit_guard ''r'' wit_drafts wit_db1)" by code_simp
  moreover have "fst (projr (appendEvents wit_valid wit_guard ''r'' wit_drafts wit_db1)) = [1, 2, 3]" by code_simp
  ultimately show ?thesis unfolding wit_db_def
    by (cases "appendEvents wit_valid wit_guard ''r'' wit_drafts wit_db1") auto
qed

lemma wit_reachable1: "(store_step wit_valid wit_guard)\<^sup>*\<^sup>* (empty_database ''t'') wit_db1"
  by (rule r_into_rtranclp, rule store_step.create, rule wit_step1)

lemma wit_reachable: "(store_step wit_valid wit_guard)\<^sup>*\<^sup>* (empty_database ''t'') wit_db"
  by (rule rtranclp.rtrancl_into_rtrancl [OF wit_reachable1], rule store_step.append, rule wit_step2)

lemma wit_numbered1: "numbered wit_db1"
  using reachable_database_ok [OF wit_reachable1] by (simp add: database_ok_def)

lemma wit_numbered: "numbered wit_db"
  using reachable_database_ok [OF wit_reachable] by (simp add: database_ok_def)

lemma wit_slice_ok:
  "computeForkSlice (readStream wit_db ''r'' None) ''v'' [\<lparr>fs_run_seq = 1, fs_pin_version = ''p2''\<rparr>] 3 = Inr wit_slice"
proof -
  have "\<not> isl (computeForkSlice (readStream wit_db ''r'' None) ''v'' [\<lparr>fs_run_seq = 1, fs_pin_version = ''p2''\<rparr>] 3)"
    by code_simp
  then show ?thesis unfolding wit_slice_def
    by (cases "computeForkSlice (readStream wit_db ''r'' None) ''v'' [\<lparr>fs_run_seq = 1, fs_pin_version = ''p2''\<rparr>] 3") auto
qed

lemma wit_runs: "map_get (db_runs wit_db) ''r'' = Some \<lparr>rr_next_seq = 4, rr_seed_floor = None\<rparr>"
  by code_simp

theorem fork_reproduces_witness:
  "\<exists>db'. fork Engine wit_valid wit_guard ''c'' wit_request wit_db =
     Inr (\<lparr>fr_child_run_id = ''c'', fr_end_seed_seq = 4, fr_inherited_event_count = length (kept_events wit_db wit_request)\<rparr>, db') \<and>
     numbered db'"
proof -
  have q: "fq_source_run_id wit_request = ''r''" "fq_at_vertex_id wit_request = ''v''" "fq_eval_up_to_seq wit_request = 3"
    "fq_substitutions wit_request = [\<lparr>fs_run_seq = 1, fs_pin_version = ''p2''\<rparr>]"
    by (simp_all add: wit_request_def)
  have fresh: "map_get (db_runs wit_db) ''c'' = None" by code_simp
  have valid: "wit_valid (with_defaults (fork_created_draft wit_request ''c'' n)) = None"
    "wit_valid (with_defaults (end_seed_draft wit_request n)) = None" for n
    by (simp_all add: wit_valid_def with_defaults_def fork_created_draft_def end_seed_draft_def draft_def)
  have guard: "wit_guard db e = None" if "event_type e = ForkCreated \<or> event_type e = RunEndSeed" for db e
    using that by (auto simp: wit_guard_def)
  have "\<exists>db'. fork Engine wit_valid wit_guard ''c'' wit_request wit_db =
     Inr (\<lparr>fr_child_run_id = ''c'', fr_end_seed_seq = Suc 3, fr_inherited_event_count = length (kept_events wit_db wit_request)\<rparr>, db') \<and>
     numbered db'"
    using fork_reproduces [OF wit_numbered, of wit_request, unfolded q, OF wit_runs fresh _ _ wit_slice_ok valid guard]
    by force
  then show ?thesis by simp
qed

theorem reachable_streams_dense_witness:
  "map run_seq (filter (\<lambda>e. \<not> inherited e) (readStream wit_db ''r'' None)) = [1..<4]"
  using conjunct1 [OF reachable_streams_dense [OF wit_reachable wit_runs]] by (simp add: floor_of_def)


end
