(* ===== verification/Projection.thy ===== *)
theory Projection
  imports Event_Store
begin

text \<open>
  The planner's view of a run (engine/src/log/projection.ts): the active surface folded from the log,
  the slice of a planner's ancestors, the context items rendered from it, and the assembled prompt
  context with its hash.

  Vertex identifiers are UUIDs, lower-case hexadecimal digits in fixed positions, on which
  \<open>localeCompare\<close> is the order of the characters.  A failed precondition is an \<open>Error\<close>.
\<close>

section \<open>The surface\<close>

record surface_vertex =
  sx_vertex_id :: string
  sx_parent_refs :: "string list"
  sx_role :: "string option"
  sx_tool :: "string option"
  sx_parameters :: js
  sx_result :: js
  sx_status :: "string option"
  sx_matched_condition :: "string option option"
  sx_created_seq :: nat

text \<open>\<open>matched_condition\<close> is absent, null or a string.\<close>

record surface_view =
  su_run_id :: string
  su_at_run_seq :: nat
  su_vertices :: "(string, surface_vertex) js_map"
  su_shadowed :: "string js_set"

definition assertReadable :: "stored_event list \<Rightarrow> unit res" where
  "assertReadable events =
     (case find (\<lambda>e. \<not> known (event_type e) \<and> \<not> ignorable e) events of
        Some e \<Rightarrow> Inl (Error (''unknown non-ignorable event in stream: '' @ event_type_str (event_type e)))
      | None \<Rightarrow> Inr ())"

definition created_vertex :: "stored_event \<Rightarrow> surface_vertex" where
  "created_vertex e =
     \<lparr>sx_vertex_id = the (vertex_id e), sx_parent_refs = parent_refs e,
      sx_role = as_string (member (payload e) ''role''), sx_tool = as_string (member (payload e) ''tool''),
      sx_parameters = member (payload e) ''input'', sx_result = JUndef, sx_status = None,
      sx_matched_condition = None, sx_created_seq = run_seq e\<rparr>"

text \<open>\<open>for (const sequence of v ?? [])\<close>: what iterating a value yields, when it can be iterated.\<close>

definition iterate :: "js \<Rightarrow> js list res" where
  "iterate v =
     (case v of JUndef \<Rightarrow> Inr [] | JNull \<Rightarrow> Inr [] | JArr xs \<Rightarrow> Inr xs
      | JStr s \<Rightarrow> Inr (map (\<lambda>c. JStr [c]) s) | _ \<Rightarrow> Inl (Error ''value is not iterable''))"

definition vertices_created_at :: "(string, surface_vertex) js_map \<Rightarrow> js \<Rightarrow> string list" where
  "vertices_created_at vertices v =
     (case v of JNum r \<Rightarrow> map sx_vertex_id (filter (\<lambda>x. of_nat (sx_created_seq x) = r) (map snd vertices)) | _ \<Rightarrow> [])"

type_synonym surface_state = "(string, surface_vertex) js_map \<times> string js_set"

definition shadow_event :: "stored_event \<Rightarrow> surface_state \<Rightarrow> surface_state res" where
  "shadow_event e st =
     bind_res (iterate (member (payload e) ''vertex_seqs'')) (\<lambda>seqs.
       Inr (fst st, set_union (set_union (snd st) (stringArray (member (payload e) ''vertex_ids'')))
              (concat (map (vertices_created_at (fst st)) seqs))))"

definition update_lifecycle :: "stored_event \<Rightarrow> surface_vertex \<Rightarrow> surface_vertex" where
  "update_lifecycle e x =
     (let x' = x\<lparr>sx_status := Some (lifecycle_status (event_type e))\<rparr> in
      if event_type e = VertexSucceeded
      then (let x'' = x'\<lparr>sx_result := member (payload e) ''result''\<rparr> in
            if map_of (payload e) ''matched_condition'' \<noteq> None
            then x''\<lparr>sx_matched_condition := Some (as_string (member (payload e) ''matched_condition''))\<rparr>
            else x'')
      else x')"

definition lifecycle_event :: "stored_event \<Rightarrow> surface_state \<Rightarrow> surface_state" where
  "lifecycle_event e st =
     (case map_get (fst st) (the (vertex_id e)) of
        None \<Rightarrow> st
      | Some x \<Rightarrow> (map_set (the (vertex_id e)) (update_lifecycle e x) (fst st), snd st))"

definition surface_step :: "surface_state \<Rightarrow> stored_event \<Rightarrow> surface_state res" where
  "surface_step st e =
     (let st1 = (if about VertexCreated e then (map_set (the (vertex_id e)) (created_vertex e) (fst st), snd st) else st) in
      bind_res (if event_type e = SubgraphShadowed then shadow_event e st1 else Inr st1) (\<lambda>st2.
      Inr (if present (vertex_id e) \<and> is_lifecycle (event_type e) then lifecycle_event e st2 else st2)))"

fun surface_fold :: "surface_state \<Rightarrow> stored_event list \<Rightarrow> surface_state res" where
  "surface_fold st [] = Inr st"
| "surface_fold st (e # es) = bind_res (surface_step st e) (\<lambda>st'. surface_fold st' es)"

text \<open>\<open>atRunSeq\<close> defaults to the largest number: no bound.\<close>

definition surface :: "stored_event list \<Rightarrow> nat option \<Rightarrow> surface_view res" where
  "surface events atRunSeq =
     bind_res (assertReadable events) (\<lambda>_.
     let included = filter (\<lambda>e. case atRunSeq of None \<Rightarrow> True | Some n \<Rightarrow> run_seq e \<le> n) events in
     bind_res (surface_fold ([], []) included) (\<lambda>st.
     Inr \<lparr>su_run_id = (case included of [] \<Rightarrow> [] | e # _ \<Rightarrow> run_id e),
          su_at_run_seq = (if included = [] then 0 else run_seq (last included)),
          su_vertices = foldl (\<lambda>m v. map_delete v m) (fst st) (snd st), su_shadowed = snd st\<rparr>))"

section \<open>The slice of a planner\<close>

text \<open>The recursion over the parents with its stack explicit: the head of the list is visited next.\<close>

function visit_active :: "(string, surface_vertex) js_map \<Rightarrow> string js_set \<Rightarrow> string list \<Rightarrow> string js_set" where
  "visit_active vertices included [] = included"
| "visit_active vertices included (v # stack) =
     (if v \<in> set included then visit_active vertices included stack
      else case map_get vertices v of
        None \<Rightarrow> visit_active vertices included stack
      | Some x \<Rightarrow> visit_active vertices (set_add included v) (sx_parent_refs x @ stack))"
  by pat_completeness auto
termination
proof (relation "measures [\<lambda>(m, inc, st). card (mkeys m - set inc), \<lambda>(m, inc, st). length st]", goal_cases)
  case (4 vertices included v stack x)
  then have "v \<in> mkeys vertices - set included" using map_get_mkeys [of vertices v] by auto
  then have "card (mkeys vertices - set (set_add included v)) < card (mkeys vertices - set included)"
    by (intro psubset_card_mono) (auto simp: mkeys_def)
  then show ?case by simp
qed simp_all

declare visit_active.simps(2) [simp del]

definition slice :: "surface_view \<Rightarrow> string \<Rightarrow> surface_vertex list res" where
  "slice view planner =
     (if \<not> map_has (su_vertices view) planner then Inl (Error (''planner '' @ planner @ '' is not active''))
      else Inr (sort_key sx_vertex_id
        (map (\<lambda>v. the (map_get (su_vertices view) v)) (visit_active (su_vertices view) [] [planner]))))"

section \<open>Context items and the assembled context\<close>

record context_item =
  ci_vertex_id :: string
  ci_role :: "string option"
  ci_tool :: "string option"
  ci_result :: js
  ci_status :: "string option"
  ci_condition :: "string option"

definition rendersInPlannerPrompt :: "surface_vertex \<Rightarrow> bool" where
  "rendersInPlannerPrompt x =
     (sx_role x \<noteq> Some ''router'' \<or> (case sx_matched_condition x of Some (Some _) \<Rightarrow> True | _ \<Rightarrow> False))"

definition context_item_of :: "surface_vertex \<Rightarrow> context_item" where
  "context_item_of x =
     \<lparr>ci_vertex_id = sx_vertex_id x, ci_role = sx_role x, ci_tool = sx_tool x, ci_result = sx_result x,
      ci_status = sx_status x,
      ci_condition = (case sx_matched_condition x of Some (Some c) \<Rightarrow> Some c | _ \<Rightarrow> None)\<rparr>"

definition linearize :: "surface_vertex list \<Rightarrow> context_item list" where
  "linearize vs = map context_item_of (sort_key sx_vertex_id (filter rendersInPlannerPrompt vs))"

definition js_option :: "string option \<Rightarrow> js" where
  "js_option s = (case s of None \<Rightarrow> JUndef | Some x \<Rightarrow> JStr x)"

definition context_item_json :: "context_item \<Rightarrow> js" where
  "context_item_json i =
     JObj ([(''vertex_id'', JStr (ci_vertex_id i)), (''role'', js_option (ci_role i)), (''tool'', js_option (ci_tool i)),
            (''result'', ci_result i), (''status'', js_option (ci_status i))] @
           (case ci_condition i of None \<Rightarrow> [] | Some c \<Rightarrow> [(''condition'', JStr c)]))"

record assembled =
  as_text :: string
  as_hash :: string

definition assemble :: "(string \<Rightarrow> string) \<Rightarrow> context_item list \<Rightarrow> string \<Rightarrow> string \<Rightarrow> assembled" where
  "assemble sha256 items projectorVersion harnessStateVersion =
     (let text = nullish (canonicalJson (JObj [(''harness_state_version'', JStr harnessStateVersion),
          (''items'', JArr (map context_item_json items)), (''projector_version'', JStr projectorVersion)])) []
      in \<lparr>as_text = text, as_hash = sha256 text\<rparr>)"

section \<open>Fold reducers and the projection dump\<close>

type_synonym 'v fold_registry = "(string, stored_event list \<Rightarrow> 'v) js_map"

definition register_reducer :: "string \<Rightarrow> (stored_event list \<Rightarrow> 'v) \<Rightarrow> 'v fold_registry \<Rightarrow> 'v fold_registry res" where
  "register_reducer ref reduce reducers =
     (if map_has reducers ref then Inl (Error (''fold reducer already registered: '' @ ref))
      else Inr (map_set ref reduce reducers))"

definition fold_events :: "'v fold_registry \<Rightarrow> string \<Rightarrow> stored_event list \<Rightarrow> 'v res" where
  "fold_events reducers ref events =
     (case map_get reducers ref of
        None \<Rightarrow> Inl (Error (''unknown fold reducer: '' @ ref))
      | Some reduce \<Rightarrow> Inr (reduce events))"

record 'v projection_dump =
  pd_surface :: "surface_vertex list"
  pd_slice :: "surface_vertex list"
  pd_fold :: "'v option"
  pd_linearize :: "context_item list"
  pd_assemble :: assembled

definition dumpProjection ::
    "(string \<Rightarrow> string) \<Rightarrow> stored_event list \<Rightarrow> string \<Rightarrow> string \<Rightarrow> string \<Rightarrow> 'v fold_registry option \<Rightarrow> string option \<Rightarrow>
     'v projection_dump res" where
  "dumpProjection sha256 events planner projectorVersion harnessStateVersion registry reducerRef =
     bind_res (surface events None) (\<lambda>active.
     bind_res (slice active planner) (\<lambda>relevant.
     bind_res (case registry of
                 Some reducers \<Rightarrow>
                   if present reducerRef then map_sum id Some (fold_events reducers (the reducerRef) events) else Inr None
               | None \<Rightarrow> Inr None) (\<lambda>folded.
     Inr \<lparr>pd_surface = sort_key sx_vertex_id (map snd (su_vertices active)), pd_slice = relevant, pd_fold = folded,
          pd_linearize = linearize relevant,
          pd_assemble = assemble sha256 (linearize relevant) projectorVersion harnessStateVersion\<rparr>)))"

end
