(* ===== verification/Projection_Spec.thy ===== *)
theory Projection_Spec
  imports Projection Event_Store_Spec
begin

text \<open>
  What the planner's view promises: the surface treats every vertex by its own events alone, a slice is
  exactly the active ancestry of its planner, and the rendered context depends on nothing but the set of
  rendered vertices.
\<close>

section \<open>The surface, vertex by vertex\<close>

text \<open>What one event does to one vertex.\<close>

definition vertex_step :: "string \<Rightarrow> surface_vertex option \<Rightarrow> stored_event \<Rightarrow> surface_vertex option" where
  "vertex_step v x e =
     (if vertex_id e \<noteq> Some v \<or> v = [] then x
      else if event_type e = VertexCreated then Some (created_vertex e)
      else if is_lifecycle (event_type e) then map_option (update_lifecycle e) x
      else x)"

definition created_ids :: "stored_event list \<Rightarrow> string set" where
  "created_ids es = {v. v \<noteq> [] \<and> (\<exists>e\<in>set es. event_type e = VertexCreated \<and> vertex_id e = Some v)}"

definition included_events :: "stored_event list \<Rightarrow> nat option \<Rightarrow> stored_event list" where
  "included_events events atRunSeq = filter (\<lambda>e. case atRunSeq of None \<Rightarrow> True | Some n \<Rightarrow> run_seq e \<le> n) events"

lemma shadow_event_Inr:
  "shadow_event e st = Inr st' \<Longrightarrow> fst st' = fst st \<and>
     set (snd st) \<union> set (stringArray (member (payload e) ''vertex_ids'')) \<subseteq> set (snd st')"
  by (auto simp: shadow_event_def bind_res_Inr)

lemma surface_step_vertex:
  assumes "surface_step st e = Inr st'"
  shows "map_get (fst st') v = (if v = [] then map_get (fst st') v else vertex_step v (map_get (fst st) v) e)"
    and "set (snd st) \<subseteq> set (snd st')"
    and "event_type e = SubgraphShadowed \<Longrightarrow> set (stringArray (member (payload e) ''vertex_ids'')) \<subseteq> set (snd st')"
proof -
  define st1 where "st1 = (if about VertexCreated e then (map_set (the (vertex_id e)) (created_vertex e) (fst st), snd st) else st)"
  obtain st2 where st2: "(if event_type e = SubgraphShadowed then shadow_event e st1 else Inr st1) = Inr st2"
    and st': "st' = (if present (vertex_id e) \<and> is_lifecycle (event_type e) then lifecycle_event e st2 else st2)"
    using assms [unfolded surface_step_def Let_def, folded st1_def] unfolding bind_res_Inr by blast
  have same: "fst st2 = fst st1" using st2 shadow_event_Inr [of e st1 st2] by (auto split: if_splits)
  have sub: "set (snd st1) \<subseteq> set (snd st2)" using st2 shadow_event_Inr [of e st1 st2] by (auto split: if_splits)
  have life: "snd st' = snd st2" by (simp add: st' lifecycle_event_def split: option.splits)
  show "map_get (fst st') v = (if v = [] then map_get (fst st') v else vertex_step v (map_get (fst st) v) e)"
    by (cases "vertex_id e")
      (auto simp: st' st1_def same vertex_step_def lifecycle_event_def about_def map_get_map_set is_lifecycle_def split: option.splits)
  show "set (snd st) \<subseteq> set (snd st')" using sub life by (auto simp: st1_def split: if_splits)
  show "event_type e = SubgraphShadowed \<Longrightarrow> set (stringArray (member (payload e) ''vertex_ids'')) \<subseteq> set (snd st')"
    using st2 shadow_event_Inr [of e st1 st2] life by auto
qed

lemma surface_fold_vertex:
  assumes "surface_fold st es = Inr st'" "v \<noteq> []"
  shows "map_get (fst st') v = foldl (vertex_step v) (map_get (fst st) v) es"
  using assms
proof (induction es arbitrary: st)
  case (Cons e es)
  then obtain st1 where "surface_step st e = Inr st1" "surface_fold st1 es = Inr st'" by (auto simp: bind_res_Inr)
  with Cons surface_step_vertex(1) [of st e st1 v] show ?case by simp
qed simp

lemma surface_fold_shadowed:
  assumes "surface_fold st es = Inr st'"
  shows "set (snd st) \<subseteq> set (snd st')"
    and "e \<in> set es \<Longrightarrow> event_type e = SubgraphShadowed \<Longrightarrow> set (stringArray (member (payload e) ''vertex_ids'')) \<subseteq> set (snd st')"
  using assms
proof (induction es arbitrary: st)
  case (Cons x es)
  { case 1
    then obtain st1 where "surface_step st x = Inr st1" "surface_fold st1 es = Inr st'" by (auto simp: bind_res_Inr)
    with Cons(1) [of st1] surface_step_vertex(2) [of st x st1] show ?case by auto }
  { case 2
    then obtain st1 where "surface_step st x = Inr st1" "surface_fold st1 es = Inr st'" by (auto simp: bind_res_Inr)
    with Cons(1) [of st1] Cons(2) [of st1] surface_step_vertex(3) [of st x st1] 2 show ?case by auto }
qed simp_all

lemma map_get_delete: "map_get (map_delete k m) k' = (if k' = k then None else map_get m k')"
  by (induction m) (auto simp: map_delete_def map_get_def)

lemma map_get_delete_all:
  "map_get (foldl (\<lambda>m v. map_delete v m) m ks) k = (if k \<in> set ks then None else map_get m k)"
  by (induction ks arbitrary: m) (auto simp: map_get_delete)

lemma vertex_fold_None: "foldl (vertex_step v) None es = None \<longleftrightarrow> v \<notin> created_ids es"
proof (induction es rule: rev_induct)
  case (snoc e es)
  have "v \<in> created_ids (es @ [e]) \<longleftrightarrow> v \<in> created_ids es \<or> v \<noteq> [] \<and> event_type e = VertexCreated \<and> vertex_id e = Some v"
    by (auto simp: created_ids_def)
  with snoc show ?case by (auto simp: vertex_step_def)
qed (simp add: created_ids_def)

text \<open>C14: the surface is computed vertex by vertex.  What it holds for a vertex is what the vertex's own
  creation and life-cycle events make of it, independently of every other event, except that a vertex
  the log shadows is absent whenever it was shadowed; every vertex a shadowing event names is shadowed.\<close>

theorem surface_vertexwise:
  assumes "surface events atRunSeq = Inr view" "v \<noteq> []"
  shows "map_get (su_vertices view) v =
      (if v \<in> set (su_shadowed view) then None else foldl (vertex_step v) None (included_events events atRunSeq)) \<and>
    (map_has (su_vertices view) v \<longleftrightarrow> v \<in> created_ids (included_events events atRunSeq) \<and> v \<notin> set (su_shadowed view)) \<and>
    (\<forall>e\<in>set (included_events events atRunSeq). event_type e = SubgraphShadowed \<longrightarrow>
       set (stringArray (member (payload e) ''vertex_ids'')) \<subseteq> set (su_shadowed view))"
proof -
  let ?inc = "included_events events atRunSeq"
  obtain st where st: "surface_fold ([], []) ?inc = Inr st"
    and view: "su_vertices view = foldl (\<lambda>m v. map_delete v m) (fst st) (snd st)" "su_shadowed view = snd st"
    using assms(1) by (auto simp: surface_def Let_def bind_res_Inr included_events_def)
  have get: "map_get (su_vertices view) v = (if v \<in> set (su_shadowed view) then None else foldl (vertex_step v) None ?inc)"
    using surface_fold_vertex [OF st assms(2)] by (simp add: view map_get_delete_all js_map.get_empty)
  moreover have "map_has (su_vertices view) v \<longleftrightarrow> v \<in> created_ids ?inc \<and> v \<notin> set (su_shadowed view)"
    using vertex_fold_None [of v ?inc] by (simp add: map_has_iff get del: not_None_eq)
  moreover have "set (stringArray (member (payload e) ''vertex_ids'')) \<subseteq> set (su_shadowed view)"
    if "e \<in> set ?inc" "event_type e = SubgraphShadowed" for e
    using surface_fold_shadowed(2) [OF st that] view by simp
  ultimately show ?thesis by blast
qed

section \<open>The slice\<close>

definition active_edges :: "(string, surface_vertex) js_map \<Rightarrow> (string \<times> string) set" where
  "active_edges m = {(v, p). \<exists>x. map_get m v = Some x \<and> p \<in> set (sx_parent_refs x) \<and> p \<in> mkeys m}"

lemma visit_active_closed:
  assumes "\<And>v. v \<in> set included \<Longrightarrow> v \<in> mkeys m \<and> active_edges m `` {v} \<subseteq> set included \<union> set stack"
    and "distinct included"
  shows "set included \<subseteq> set (visit_active m included stack) \<and>
    set stack \<inter> mkeys m \<subseteq> set (visit_active m included stack) \<and>
    active_edges m `` set (visit_active m included stack) \<subseteq> set (visit_active m included stack) \<and>
    set (visit_active m included stack) \<subseteq> mkeys m \<and> distinct (visit_active m included stack)"
  using assms
proof (induction m included stack rule: visit_active.induct)
  case (1 m included)
  then show ?case by auto
next
  case (2 m included v stack)
  show ?case
  proof (cases "v \<in> set included")
    case True
    have "w \<in> mkeys m \<and> active_edges m `` {w} \<subseteq> set included \<union> set stack" if "w \<in> set included" for w
      using "2.prems"(1) [OF that] True by auto
    from "2.IH"(1) [OF True this "2.prems"(2)] True show ?thesis by (auto simp: visit_active.simps(2))
  next
    case new: False
    show ?thesis
    proof (cases "map_get m v")
      case None
      then have "v \<notin> mkeys m" by (simp add: map_get_mkeys)
      then have "w \<in> mkeys m \<and> active_edges m `` {w} \<subseteq> set included \<union> set stack" if "w \<in> set included" for w
        using "2.prems"(1) [OF that] by (auto simp: active_edges_def)
      from "2.IH"(2) [OF new None this "2.prems"(2)] new None \<open>v \<notin> mkeys m\<close> show ?thesis by (auto simp: visit_active.simps(2))
    next
      case (Some x)
      then have v: "v \<in> mkeys m" using map_get_mkeys [of m v] by auto
      have "active_edges m `` {v} \<subseteq> set (sx_parent_refs x)" using Some by (auto simp: active_edges_def)
      then have "w \<in> mkeys m \<and> active_edges m `` {w} \<subseteq> set (set_add included v) \<union> set (sx_parent_refs x @ stack)"
        if "w \<in> set (set_add included v)" for w
        using that "2.prems"(1) [of w] v by auto
      from "2.IH"(3) [OF new Some this] "2.prems"(2) new Some v show ?thesis by (auto simp: visit_active.simps(2))
    qed
  qed
qed

lemma visit_active_reachable:
  "set (visit_active m included stack) \<subseteq> set included \<union> (active_edges m)\<^sup>* `` (set stack \<inter> mkeys m)"
proof (induction m included stack rule: visit_active.induct)
  case (2 m included v stack)
  show ?case
  proof (cases "v \<in> set included \<or> map_get m v = None")
    case True
    then show ?thesis using 2 by (cases "v \<in> set included") (auto simp: visit_active.simps(2))
  next
    case False
    then obtain x where x: "map_get m v = Some x" "v \<notin> set included" by auto
    then have v: "v \<in> mkeys m" using map_get_mkeys [of m v] by auto
    have "(active_edges m)\<^sup>* `` (set (sx_parent_refs x) \<inter> mkeys m) \<subseteq> (active_edges m)\<^sup>* `` {v}"
      using x(1) by (auto simp: active_edges_def intro: converse_rtrancl_into_rtrancl)
    then have "(active_edges m)\<^sup>* `` (set (sx_parent_refs x @ stack) \<inter> mkeys m) \<subseteq> (active_edges m)\<^sup>* `` (set (v # stack) \<inter> mkeys m)"
      using v by (auto simp: Int_Un_distrib2 Image_Un)
    moreover have "v \<in> (active_edges m)\<^sup>* `` (set (v # stack) \<inter> mkeys m)" using v by auto
    moreover have "set (visit_active m included (v # stack)) \<subseteq>
        insert v (set included) \<union> (active_edges m)\<^sup>* `` (set (sx_parent_refs x @ stack) \<inter> mkeys m)"
      using "2.IH"(3) [OF x(2,1)] x by (simp add: visit_active.simps(2))
    ultimately show ?thesis by blast
  qed
qed simp

lemma visit_active_exact:
  assumes "v \<in> mkeys m"
  shows "set (visit_active m [] [v]) = (active_edges m)\<^sup>* `` {v}"
proof
  show "set (visit_active m [] [v]) \<subseteq> (active_edges m)\<^sup>* `` {v}"
    using visit_active_reachable [of m "[]" "[v]"] assms by simp
  have closed: "v \<in> set (visit_active m [] [v])" "active_edges m `` set (visit_active m [] [v]) \<subseteq> set (visit_active m [] [v])"
    using visit_active_closed [of "[]" m "[v]"] assms by auto
  show "(active_edges m)\<^sup>* `` {v} \<subseteq> set (visit_active m [] [v])"
  proof
    fix w assume "w \<in> (active_edges m)\<^sup>* `` {v}"
    then have "(v, w) \<in> (active_edges m)\<^sup>*" by simp
    then show "w \<in> set (visit_active m [] [v])" by (induction rule: rtrancl_induct) (use closed in blast)+
  qed
qed

text \<open>C15: a slice returns exactly for an active planner, and holds exactly the active vertices the parent
  references of active vertices reach from it, the planner included, ordered by identifier; cyclic
  references do not keep it from returning.\<close>

theorem slice_ancestry:
  "(map_has (su_vertices view) planner \<longrightarrow>
      (\<exists>xs. slice view planner = Inr xs \<and> sorted (map sx_vertex_id xs) \<and>
        set xs = {x. \<exists>v. (planner, v) \<in> (active_edges (su_vertices view))\<^sup>* \<and> map_get (su_vertices view) v = Some x} \<and>
        length xs = card ((active_edges (su_vertices view))\<^sup>* `` {planner}))) \<and>
   (\<not> map_has (su_vertices view) planner \<longrightarrow> slice view planner = Inl (Error (''planner '' @ planner @ '' is not active'')))"
proof (intro conjI impI)
  let ?m = "su_vertices view"
  let ?vs = "visit_active ?m [] [planner]"
  assume "map_has ?m planner"
  then have p: "planner \<in> mkeys ?m" by (simp add: map_has_def mkeys_def)
  let ?xs = "sort_key sx_vertex_id (map (\<lambda>v. the (map_get ?m v)) ?vs)"
  have vs: "set ?vs = (active_edges ?m)\<^sup>* `` {planner}" "set ?vs \<subseteq> mkeys ?m" "distinct ?vs"
    using visit_active_exact [OF p] visit_active_closed [of "[]" ?m "[planner]"] by auto
  have "set ?xs = {x. \<exists>v\<in>set ?vs. map_get ?m v = Some x}"
    using vs(2) mkeysD [of _ ?m] by force
  moreover have "length ?xs = card (set ?vs)" using distinct_card [OF vs(3)] by simp
  moreover have "slice view planner = Inr ?xs" using \<open>map_has ?m planner\<close> by (simp add: slice_def)
  ultimately show "\<exists>xs. slice view planner = Inr xs \<and> sorted (map sx_vertex_id xs) \<and>
        set xs = {x. \<exists>v. (planner, v) \<in> (active_edges ?m)\<^sup>* \<and> map_get ?m v = Some x} \<and>
        length xs = card ((active_edges ?m)\<^sup>* `` {planner})"
    unfolding vs(1) by auto
qed (simp add: slice_def)

section \<open>The rendered context\<close>

lemma linearize_rendered:
  assumes "mset (filter rendersInPlannerPrompt vs) = mset (filter rendersInPlannerPrompt ws)"
    and "distinct (map sx_vertex_id (filter rendersInPlannerPrompt vs))"
  shows "linearize vs = linearize ws"
proof -
  let ?f = "filter rendersInPlannerPrompt"
  have "sort_key sx_vertex_id (?f vs) = sort_key sx_vertex_id (?f ws)"
    by (rule sort_key_inj_key_eq) (use assms in \<open>simp_all add: distinct_map\<close>)
  then show ?thesis by (simp add: linearize_def)
qed

text \<open>The assembled context, its text and its hash, depends only on the rendered vertices: not on
  their order, and not on how many routers fell through among them.\<close>

lemma assemble_rendered_only:
  assumes "mset (filter rendersInPlannerPrompt vs) = mset (filter rendersInPlannerPrompt ws)"
    and "distinct (map sx_vertex_id (filter rendersInPlannerPrompt vs))"
  shows "assemble sha256 (linearize vs) pv hv = assemble sha256 (linearize ws) pv hv \<and>
    linearize vs = map context_item_of (sort_key sx_vertex_id (filter (\<lambda>x. sx_role x \<noteq> Some ''router'' \<or>
       (\<exists>c. sx_matched_condition x = Some (Some c))) ws))"
proof -
  have "rendersInPlannerPrompt = (\<lambda>x. sx_role x \<noteq> Some ''router'' \<or> (\<exists>c. sx_matched_condition x = Some (Some c)))"
    by (auto simp: rendersInPlannerPrompt_def fun_eq_iff split: option.splits)
  with linearize_rendered [OF assms] show ?thesis by (simp add: linearize_def)
qed

section \<open>Witnesses\<close>

definition wit_surface_log :: "stored_event list" where
  "wit_surface_log = db_log wit_db"

definition wit_view :: surface_view where
  "wit_view = projr (surface wit_surface_log None)"

lemma wit_view_ok: "surface wit_surface_log None = Inr wit_view"
proof -
  have "\<not> isl (surface wit_surface_log None)" by code_simp
  then show ?thesis unfolding wit_view_def by (cases "surface wit_surface_log None") auto
qed

theorem surface_vertexwise_witness:
  "map_has (su_vertices wit_view) ''w'' \<longleftrightarrow>
     ''w'' \<in> created_ids (included_events wit_surface_log None) \<and> ''w'' \<notin> set (su_shadowed wit_view)"
  using surface_vertexwise [OF wit_view_ok, of "''w''"] by blast

theorem slice_ancestry_witness:
  "\<exists>xs. slice wit_view ''w'' = Inr xs \<and> sorted (map sx_vertex_id xs) \<and>
     length xs = card ((active_edges (su_vertices wit_view))\<^sup>* `` {''w''})"
proof -
  have "map_has (su_vertices wit_view) ''w''" by code_simp
  with slice_ancestry [of wit_view "''w''"] show ?thesis by blast
qed

definition wit_router :: "string \<Rightarrow> string option \<Rightarrow> surface_vertex" where
  "wit_router v c = \<lparr>sx_vertex_id = v, sx_parent_refs = [], sx_role = Some ''router'', sx_tool = None, sx_parameters = JUndef,
     sx_result = JUndef, sx_status = None, sx_matched_condition = Some c, sx_created_seq = 1\<rparr>"

end
