(* ===== verification/Recovery.thy ===== *)
theory Recovery
  imports Projection
begin

text \<open>
  The planning half of the recovery ladder (engine/src/recovery.ts): what the log says about every
  transaction scope, the ancestor planners a failure could resume at, the replan history, the choice of
  a boundary with the whole comparison it publishes, and the events a decision appends.

  Payload members that the event schema types are read at that type: a list of identifiers by
  \<^const>\<open>stringArray\<close>, a number by \<open>as_num\<close>.  Prices are rationals; \<open>toFixed(12)\<close> is written out.  The
  hash of an assembled context does not enter a price, so it is fixed to the identity there.
\<close>

section \<open>Vocabulary\<close>

datatype rejection_reason = OpenBracket | BelowFloor | SavepointPrecedes | BudgetExceeded | FailureCounterExhausted

definition rejection_str :: "rejection_reason \<Rightarrow> string" where
  "rejection_str r =
     (case r of OpenBracket \<Rightarrow> ''open_bracket'' | BelowFloor \<Rightarrow> ''below_floor'' | SavepointPrecedes \<Rightarrow> ''savepoint_precedes''
      | BudgetExceeded \<Rightarrow> ''budget_exceeded'' | FailureCounterExhausted \<Rightarrow> ''failure_counter_exhausted'')"

record cost_terms =
  ct_context_cost :: rat
  ct_rework_cost :: rat
  ct_risk_premium :: rat

record boundary_candidate =
  bc_planner_vertex_id :: string
  bc_planner_seq :: nat
  bc_cost :: "rat option"
  bc_currency :: "string option"
  bc_terms :: "cost_terms option"
  bc_rejected :: "rejection_reason option"
  bc_requires_cancel :: "string list option"

datatype recovery_level = L1 | L2 | L3 | L4

definition level_str :: "recovery_level \<Rightarrow> string" where
  "level_str l = (case l of L1 \<Rightarrow> ''L1'' | L2 \<Rightarrow> ''L2'' | L3 \<Rightarrow> ''L3'' | L4 \<Rightarrow> ''L4'')"

datatype recovery_action = ActRecord | ActRequest | ActWait

record boundary_decision =
  bd_action :: recovery_action
  bd_level :: recovery_level
  bd_reason :: string
  bd_failedVertexId :: string
  bd_candidates :: "boundary_candidate list"
  bd_selected :: "string option"
  bd_selectedSeq :: "nat option"
  bd_intended :: "string option"
  bd_shadowed :: "string list"
  bd_requestScopes :: "string list"
  bd_awaitedScopes :: "string list"
  bd_cancelledScopes :: "string list"
  bd_cancelRequestSeq :: "nat option"
  bd_episode :: nat
  bd_estimatedCost :: "rat option"
  bd_currency :: "string option"

record llm_pricing =
  lp_currency :: string
  lp_cache_hit_input_per_million :: rat
  lp_cache_miss_input_per_million :: rat
  lp_output_per_million :: rat
  lp_reference :: string
  lp_tier :: "string option"

record recovery_policy =
  rp_maxReplansPerPlanner :: nat
  rp_maxReplansPerEpisode :: nat
  rp_riskPremium :: rat
  rp_pricing :: llm_pricing
  rp_budgetRemaining :: "rat option"

definition DEFAULT_RECOVERY_POLICY :: "llm_pricing \<Rightarrow> recovery_policy" where
  "DEFAULT_RECOVERY_POLICY pricing = \<lparr>rp_maxReplansPerPlanner = 2, rp_maxReplansPerEpisode = 2, rp_riskPremium = 2,
     rp_pricing = pricing, rp_budgetRemaining = None\<rparr>"

definition CHARS_PER_TOKEN :: nat where "CHARS_PER_TOKEN = 4"

definition TOKENS_PER_REGENERATED_VERTEX :: nat where "TOKENS_PER_REGENERATED_VERTEX = 120"

definition as_num :: "js \<Rightarrow> rat option" where
  "as_num v = (case v of JNum r \<Rightarrow> Some r | _ \<Rightarrow> None)"

section \<open>Reading the log\<close>

definition backtrackFloor :: "stored_event list \<Rightarrow> nat" where
  "backtrackFloor events = foldl (\<lambda>fl e. if event_type e = TxnPivotPassed then max fl (run_seq e) else fl) 0 events"

subsection \<open>Scopes\<close>

datatype scope_phase =
    Unmaterialized | PhOpen | PhFenced | PhCancelRequested | PhCancelling | PhCancelled
  | PhSuspended | PhPivotInflight | PhPivotPassed | PhCommitted

definition phase_str :: "scope_phase \<Rightarrow> string" where
  "phase_str p =
     (case p of Unmaterialized \<Rightarrow> ''unmaterialized'' | PhOpen \<Rightarrow> ''open'' | PhFenced \<Rightarrow> ''fenced''
      | PhCancelRequested \<Rightarrow> ''cancel-requested'' | PhCancelling \<Rightarrow> ''cancelling'' | PhCancelled \<Rightarrow> ''cancelled''
      | PhSuspended \<Rightarrow> ''suspended'' | PhPivotInflight \<Rightarrow> ''pivot-inflight'' | PhPivotPassed \<Rightarrow> ''pivot-passed''
      | PhCommitted \<Rightarrow> ''committed'')"

record scope_cancellation =
  sc_scopeId :: string
  sc_phase :: scope_phase
  sc_members :: "string list"
  sc_firstMemberSeq :: nat
  sc_openTries :: nat
  sc_fencedBy :: "string option"
  sc_requestSeq :: "nat option"
  sc_requestedFor :: "string option"
  sc_cancelledSeq :: "nat option"
  sc_suspendedSeq :: "nat option"

definition CANCELLABLE :: "scope_phase set" where
  "CANCELLABLE = {PhOpen, PhFenced, PhCancelRequested, PhCancelling}"

definition UNRECOVERABLE :: "scope_phase set" where
  "UNRECOVERABLE = {PhSuspended, PhPivotInflight, PhPivotPassed}"

definition TRANSIENT :: "scope_phase set" where
  "TRANSIENT = {PhFenced, PhCancelRequested, PhCancelling, PhPivotInflight, PhPivotPassed}"

text \<open>The two maps the fold keeps: the scopes, and the tries open in each.\<close>

record scope_fold =
  sf_scopes :: "(string, scope_cancellation) js_map"
  sf_tries :: "(string, string js_set) js_map"

definition scope_at :: "string \<Rightarrow> nat \<Rightarrow> scope_fold \<Rightarrow> scope_fold" where
  "scope_at scopeId sequence st =
     (if map_has (sf_scopes st) scopeId then st
      else st\<lparr>sf_scopes := map_set scopeId
               \<lparr>sc_scopeId = scopeId, sc_phase = Unmaterialized, sc_members = [], sc_firstMemberSeq = sequence,
                sc_openTries = 0, sc_fencedBy = None, sc_requestSeq = None, sc_requestedFor = None,
                sc_cancelledSeq = None, sc_suspendedSeq = None\<rparr> (sf_scopes st),
              sf_tries := map_set scopeId [] (sf_tries st)\<rparr>)"

definition on_scope :: "string \<Rightarrow> (scope_cancellation \<Rightarrow> scope_cancellation) \<Rightarrow> scope_fold \<Rightarrow> scope_fold" where
  "on_scope scopeId f st =
     (case map_get (sf_scopes st) scopeId of
        None \<Rightarrow> st | Some s \<Rightarrow> st\<lparr>sf_scopes := map_set scopeId (f s) (sf_scopes st)\<rparr>)"

definition on_tries :: "string \<Rightarrow> (string js_set \<Rightarrow> string js_set) \<Rightarrow> scope_fold \<Rightarrow> scope_fold" where
  "on_tries scopeId f st = st\<lparr>sf_tries := map_set scopeId (f (nullish (map_get (sf_tries st) scopeId) [])) (sf_tries st)\<rparr>"

definition materialize :: "scope_cancellation \<Rightarrow> scope_cancellation" where
  "materialize s = (if sc_phase s = Unmaterialized then s\<lparr>sc_phase := PhOpen\<rparr> else s)"

definition request_scope :: "stored_event \<Rightarrow> scope_fold \<Rightarrow> string \<Rightarrow> scope_fold" where
  "request_scope e st scopeId =
     on_scope scopeId (\<lambda>s.
       (if sc_phase s = PhOpen \<or> sc_phase s = PhFenced then s\<lparr>sc_phase := PhCancelRequested\<rparr> else s)
         \<lparr>sc_requestSeq := Some (run_seq e), sc_requestedFor := as_string (member (payload e) ''failed_vertex_id'')\<rparr>)
       (scope_at scopeId (run_seq e) st)"

text \<open>\<open>String(payload.idempotency_key ?? vertex_id)\<close>.\<close>

definition try_key :: "stored_event \<Rightarrow> string" where
  "try_key e = nullish (as_string (member (payload e) ''idempotency_key'')) (nullish (vertex_id e) ''null'')"

definition scope_state_change :: "stored_event \<Rightarrow> scope_cancellation \<Rightarrow> scope_cancellation" where
  "scope_state_change e s =
     (let state = as_string (member (payload e) ''state'') in
      if state = Some ''open'' then materialize s
      else if state = Some ''suspended'' then s\<lparr>sc_phase := PhSuspended, sc_suspendedSeq := Some (run_seq e)\<rparr>
      else if state = Some ''committed'' then s\<lparr>sc_phase := PhCommitted\<rparr>
      else if state = Some ''cancelled'' then s\<lparr>sc_phase := PhCancelled, sc_cancelledSeq := Some (run_seq e)\<rparr>
      else s)"

definition fence :: "stored_event \<Rightarrow> scope_cancellation \<Rightarrow> scope_cancellation" where
  "fence e s =
     (if sc_phase s = PhOpen \<or> (sc_phase s = PhPivotInflight \<and> member (payload e) ''outcome'' = JStr ''confirmed-absent'')
      then s\<lparr>sc_phase := PhFenced, sc_fencedBy := vertex_id e\<rparr> else s)"

definition add_member :: "stored_event \<Rightarrow> scope_cancellation \<Rightarrow> scope_cancellation" where
  "add_member e s = s\<lparr>sc_members := (if present (vertex_id e) then sc_members s @ [the (vertex_id e)] else sc_members s),
     sc_firstMemberSeq := min (sc_firstMemberSeq s) (run_seq e)\<rparr>"

definition scope_event :: "scope_fold \<Rightarrow> stored_event \<Rightarrow> scope_fold" where
  "scope_event st e =
     (if event_type e = ReplanCancelRequested
      then foldl (request_scope e) st (stringArray (member (payload e) ''scope_ids''))
      else if \<not> present (scope_id e) then st
      else
        (let k = the (scope_id e); st1 = scope_at k (run_seq e) st in
         case event_type e of
           VertexCreated \<Rightarrow> on_scope k (add_member e) st1
         | TxnScope \<Rightarrow> on_scope k (scope_state_change e) st1
         | TxnTry \<Rightarrow> on_tries k (\<lambda>ts. set_add ts (try_key e)) (on_scope k materialize st1)
         | TxnConfirm \<Rightarrow> on_tries k (removeAll (try_key e)) st1
         | VertexStarted \<Rightarrow>
             (if member (payload e) ''phase'' = JStr ''pivot'' then on_scope k (sc_phase_update (\<lambda>_. PhPivotInflight)) st1 else st1)
         | TxnPivotPassed \<Rightarrow> on_scope k (sc_phase_update (\<lambda>_. PhPivotPassed)) st1
         | VertexFailed \<Rightarrow> on_scope k (fence e) st1
         | TxnCancel \<Rightarrow>
             (if member (payload e) ''phase'' = JStr ''completed''
              then on_tries k (\<lambda>_. []) (on_scope k (\<lambda>s. s\<lparr>sc_phase := PhCancelled, sc_cancelledSeq := Some (run_seq e)\<rparr>) st1)
              else on_scope k (sc_phase_update (\<lambda>_. PhCancelling)) st1)
         | _ \<Rightarrow> st1))"

definition count_tries :: "scope_fold \<Rightarrow> scope_cancellation \<Rightarrow> scope_cancellation" where
  "count_tries st s = s\<lparr>sc_openTries :=
     (if sc_phase s = PhCommitted then 0 else length (nullish (map_get (sf_tries st) (sc_scopeId s)) []))\<rparr>"

definition scopeCancellations :: "stored_event list \<Rightarrow> (string, scope_cancellation) js_map" where
  "scopeCancellations events =
     (let st = foldl scope_event \<lparr>sf_scopes = [], sf_tries = []\<rparr> events
      in map (\<lambda>(k, s). (k, count_tries st s)) (sf_scopes st))"

definition openBracketScopes :: "stored_event list \<Rightarrow> string js_set" where
  "openBracketScopes events =
     new_set (map sc_scopeId (filter (\<lambda>s. sc_openTries s > 0 \<and> sc_phase s \<noteq> PhCancelled) (map snd (scopeCancellations events))))"

definition coarse :: "scope_phase \<Rightarrow> string" where
  "coarse p = (if p = PhCancelRequested then ''fenced'' else phase_str p)"

definition disagreeingScopes :: "(string, scope_cancellation) js_map \<Rightarrow> locked_scope list \<Rightarrow> string list" where
  "disagreeingScopes scopes locked =
     map lk_scopeId (filter (\<lambda>row.
       let stored = (if lk_state row = ''open'' \<and> lk_fenced row then ''fenced'' else lk_state row) in
       case map_get scopes (lk_scopeId row) of None \<Rightarrow> True | Some folded \<Rightarrow> coarse (sc_phase folded) \<noteq> stored) locked)"

subsection \<open>Authorship\<close>

definition proposal_sources :: "stored_event list \<Rightarrow> (rat, string) js_map" where
  "proposal_sources events =
     foldl (\<lambda>m e. if event_type e = SubgraphProposed
                   then map_set (of_nat (run_seq e)) (nullish (as_string (member (payload e) ''source'')) ''submitted'') m
                   else m) [] events"

fun authored_by_router :: "(rat, string) js_map \<Rightarrow> string \<Rightarrow> string \<Rightarrow> stored_event list \<Rightarrow> bool" where
  "authored_by_router sources vertexId currentSource [] = False"
| "authored_by_router sources vertexId currentSource (e # es) =
     (let currentSource' =
        (if event_type e = SubgraphFrozen
         then (case as_num (member (payload e) ''proposed_seq'') of
                 None \<Rightarrow> ''submitted'' | Some n \<Rightarrow> nullish (map_get sources n) ''submitted'')
         else currentSource) in
      if names_vertex VertexCreated vertexId e then currentSource' = ''router''
      else authored_by_router sources vertexId currentSource' es)"

definition ruleAuthored :: "stored_event list \<Rightarrow> string \<Rightarrow> bool" where
  "ruleAuthored events vertexId = authored_by_router (proposal_sources events) vertexId ''submitted'' events"

subsection \<open>Ancestor planners\<close>

record planner_at =
  pa_vertexId :: string
  pa_seq :: nat
  pa_depth :: nat

definition created_events :: "stored_event list \<Rightarrow> (string, stored_event) js_map" where
  "created_events events = new_map (map (\<lambda>e. (the (vertex_id e), e)) (filter (about VertexCreated) events))"

definition succeeded_seqs :: "stored_event list \<Rightarrow> (string, nat) js_map" where
  "succeeded_seqs events = new_map (map (\<lambda>e. (the (vertex_id e), run_seq e)) (filter (about VertexSucceeded) events))"

text \<open>A vertex that was created as a planner and has succeeded, at a distance.\<close>

definition planner_found ::
    "(string, stored_event) js_map \<Rightarrow> (string, nat) js_map \<Rightarrow> nat \<Rightarrow> string \<Rightarrow> planner_at list" where
  "planner_found created succeeded depth v =
     (case (map_get created v, map_get succeeded v) of
        (Some e, Some s) \<Rightarrow>
          if member (payload e) ''role'' = JStr ''planner'' then [\<lparr>pa_vertexId = v, pa_seq = s, pa_depth = depth\<rparr>] else []
      | _ \<Rightarrow> [])"

definition created_parents :: "(string, stored_event) js_map \<Rightarrow> string \<Rightarrow> string list" where
  "created_parents created v = (case map_get created v of None \<Rightarrow> [] | Some e \<Rightarrow> parent_refs e)"

text \<open>One layer of the search: what is seen, what is found, and the next frontier.\<close>

fun search_layer ::
    "(string, stored_event) js_map \<Rightarrow> (string, nat) js_map \<Rightarrow> nat \<Rightarrow> string list \<Rightarrow>
     string js_set \<times> planner_at list \<times> string list \<Rightarrow> string js_set \<times> planner_at list \<times> string list" where
  "search_layer created succeeded depth [] st = st"
| "search_layer created succeeded depth (v # vs) (seen, found, next) =
     (if v \<in> set seen then search_layer created succeeded depth vs (seen, found, next)
      else search_layer created succeeded depth vs
        (set_add seen v, found @ planner_found created succeeded depth v, next @ created_parents created v))"

lemma search_layer_seen:
  "set seen \<subseteq> set (fst (search_layer created succeeded depth vs (seen, found, next))) \<and>
   set (fst (search_layer created succeeded depth vs (seen, found, next))) \<subseteq> set seen \<union> set vs"
proof (induction vs arbitrary: seen found "next")
  case (Cons v vs)
  from Cons [of seen found "next"]
    Cons [of "set_add seen v" "found @ planner_found created succeeded depth v" "next @ created_parents created v"]
  show ?case by (simp add: subset_iff)
qed simp

lemma search_layer_next:
  assumes "mkeys created \<inter> set (fst (search_layer created succeeded depth vs (seen, found, next))) \<subseteq> set seen"
  shows "snd (snd (search_layer created succeeded depth vs (seen, found, next))) = next"
  using assms
proof (induction vs arbitrary: seen found "next")
  case (Cons v vs)
  show ?case
  proof (cases "v \<in> set seen")
    case False
    let ?r = "search_layer created succeeded depth vs (set_add seen v, found @ planner_found created succeeded depth v, next @ created_parents created v)"
    have "v \<in> set (fst ?r)" using search_layer_seen [of "set_add seen v" created succeeded depth vs] by fastforce
    then have "v \<notin> mkeys created" using Cons.prems False by auto
    then have "created_parents created v = []" by (simp add: created_parents_def map_get_mkeys [symmetric])
    with Cons.IH [of "set_add seen v" "found @ planner_found created succeeded depth v" "next"] Cons.prems False
    show ?thesis by auto
  qed (use Cons in simp)
qed simp

function search_ancestors ::
    "(string, stored_event) js_map \<Rightarrow> (string, nat) js_map \<Rightarrow> nat \<Rightarrow> string js_set \<Rightarrow> planner_at list \<Rightarrow> string list \<Rightarrow>
     planner_at list" where
  "search_ancestors created succeeded depth seen found frontier =
     (if frontier = [] then found
      else
        (let st = search_layer created succeeded depth frontier (seen, found, []) in
         search_ancestors created succeeded (Suc depth) (fst st) (fst (snd st)) (snd (snd st))))"
  by pat_completeness auto
termination
proof (relation "measures [\<lambda>(c, s, d, seen, f, fr). card (mkeys c - set seen), \<lambda>(c, s, d, seen, f, fr). length fr]", goal_cases)
  case (2 created succeeded depth seen found frontier st)
  obtain seen' found' fr' where st: "st = (seen', found', fr')" by (cases st)
  note layer = search_layer_seen [of seen created succeeded depth frontier found "[]", folded 2(2), unfolded st fst_conv]
  have fin: "finite (mkeys created - set seen)" by (simp add: mkeys_def)
  show ?case
  proof (cases "mkeys created \<inter> set seen' \<subseteq> set seen")
    case True
    then have "fr' = []" using search_layer_next [of created succeeded depth frontier seen found "[]", folded 2(2), unfolded st] by simp
    moreover have "mkeys created - set seen' = mkeys created - set seen" using True layer by blast
    ultimately show ?thesis using 2(1) by (simp add: st)
  next
    case False
    then have "mkeys created - set seen' \<subset> mkeys created - set seen" using layer by blast
    then have "card (mkeys created - set seen') < card (mkeys created - set seen)" by (rule psubset_card_mono [OF fin])
    then show ?thesis by (simp add: st)
  qed
qed simp

declare search_ancestors.simps [simp del]

text \<open>Nearest first, and the later planner first among equals.\<close>

definition ancestorPlanners :: "stored_event list \<Rightarrow> string \<Rightarrow> planner_at list" where
  "ancestorPlanners events vertexId =
     (let created = created_events events; succeeded = succeeded_seqs events in
      sort_key pa_depth (sort_key (\<lambda>p. - int (pa_seq p))
        (search_ancestors created succeeded 1 [vertexId] (planner_found created succeeded 0 vertexId) (created_parents created vertexId))))"

subsection \<open>Replan history\<close>

fun resolved_freezes :: "string set \<Rightarrow> stored_event list \<Rightarrow> nat list" where
  "resolved_freezes succeeded [] = []"
| "resolved_freezes succeeded (e # es) =
     (let created = List.map_filter (\<lambda>x. truthy_string (vertex_id x)) (takeWhile (\<lambda>x. event_type x = VertexCreated) es) in
      if event_type e = SubgraphFrozen \<and> created \<noteq> [] \<and> set created \<subseteq> succeeded
      then run_seq e # resolved_freezes succeeded es else resolved_freezes succeeded es)"

record replan_history =
  rh_episode :: nat
  rh_perPlanner :: "(string, nat) js_map"

definition succeeded_ids :: "stored_event list \<Rightarrow> string set" where
  "succeeded_ids events = (\<lambda>e. the (vertex_id e)) ` set (filter (about VertexSucceeded) events)"

definition selected_of :: "stored_event \<Rightarrow> string option" where
  "selected_of e = truthy_string (as_string (member (payload e) ''selected''))"

definition replanHistory :: "stored_event list \<Rightarrow> replan_history" where
  "replanHistory events =
     (let resolvedAt = resolved_freezes (succeeded_ids events) events;
          lastResolved = (if resolvedAt = [] then 0 else last resolvedAt);
          boundaries = filter (\<lambda>e. event_type e = ReplanBoundary) events in
      \<lparr>rh_episode = length (filter (\<lambda>e. run_seq e > lastResolved) boundaries),
       rh_perPlanner = foldl (\<lambda>m p. map_set p (nullish (map_get m p) 0 + 1) m) []
         (List.map_filter selected_of boundaries)\<rparr>)"

subsection \<open>Evidence\<close>

record failure_evidence =
  fe_failed_vertex_id :: string
  fe_tool :: "string option"
  fe_error_class :: string
  fe_error :: string
  fe_attempts :: rat
  fe_discarded_vertices :: nat
  fe_cancelled_scopes :: "string list"

definition unreadable_by :: "string \<Rightarrow> stored_event \<Rightarrow> bool" where
  "unreadable_by v e = (event_type e = SubgraphUnreadable \<and> member (payload e) ''planner_vertex_id'' = JStr v)"

definition failureEvidence :: "stored_event list \<Rightarrow> string \<Rightarrow> string list \<Rightarrow> string list \<Rightarrow> failure_evidence" where
  "failureEvidence events failedVertexId discarded cancelledScopes =
     (let created = find (names_vertex VertexCreated failedVertexId) events;
          failed = find (names_vertex VertexFailed failedVertexId) (rev events);
          unreadable = find (unreadable_by failedVertexId) (rev events);
          pl = (case failed of None \<Rightarrow> [] | Some e \<Rightarrow> payload e) in
      case (failed, unreadable) of
        (None, Some u) \<Rightarrow>
          \<lparr>fe_failed_vertex_id = failedVertexId, fe_tool = None, fe_error_class = ''unreadable_answer'',
           fe_error = nullish (as_string (member (payload u) ''reason'')) [],
           fe_attempts = of_nat (length (filter (unreadable_by failedVertexId) events)),
           fe_discarded_vertices = length discarded, fe_cancelled_scopes = cancelledScopes\<rparr>
      | _ \<Rightarrow>
          \<lparr>fe_failed_vertex_id = failedVertexId,
           fe_tool = (case created of None \<Rightarrow> None | Some e \<Rightarrow> as_string (member (payload e) ''tool'')),
           fe_error_class = nullish (as_string (member pl ''outcome'')) ''unknown'',
           fe_error = nullish (as_string (member pl ''error'')) [],
           fe_attempts = nullish (as_num (member pl ''attempts'')) 0,
           fe_discarded_vertices = length discarded, fe_cancelled_scopes = cancelledScopes\<rparr>)"

section \<open>The decision\<close>

record decision_context =
  dc_events :: "stored_event list"
  dc_failedVertexId :: string
  dc_policy :: recovery_policy
  dc_scopes :: "(string, scope_cancellation) js_map"
  dc_floor :: nat
  dc_perPlanner :: "(string, nat) js_map"
  dc_failedAt :: nat
  dc_ownScope :: "scope_cancellation option"
  dc_reported :: "string js_set"
  dc_locked :: "locked_scope list option"

subsection \<open>What a boundary discards and costs\<close>

definition already_hidden :: "stored_event list \<Rightarrow> string set" where
  "already_hidden events =
     (\<Union>e\<in>set (filter (\<lambda>e. event_type e = SubgraphShadowed) events). set (stringArray (member (payload e) ''vertex_ids'')))"

definition created_seqs :: "stored_event list \<Rightarrow> (string, nat) js_map" where
  "created_seqs events = new_map (map (\<lambda>e. (the (vertex_id e), run_seq e)) (filter (about VertexCreated) events))"

definition shadowSet :: "stored_event list \<Rightarrow> string \<Rightarrow> string list" where
  "shadowSet events boundary =
     sort_key (\<lambda>v. nullish (map_get (created_seqs events) v) 0)
       (sort (filter (\<lambda>v. v \<notin> already_hidden events) (causalDescendants events boundary)))"

definition toFixed12 :: "rat \<Rightarrow> rat" where
  "toFixed12 r = of_int \<lfloor>r * 10 ^ 12 + 1 / 2\<rfloor> / 10 ^ 12"

definition price :: "stored_event list \<Rightarrow> surface_view \<Rightarrow> planner_at \<Rightarrow> recovery_policy \<Rightarrow> boundary_candidate res" where
  "price events view planner policy =
     bind_res (slice view (pa_vertexId planner)) (\<lambda>relevant.
     let context = as_text (assemble id (linearize relevant) ''recovery-preflight'' ''recovery-preflight'');
         contextTokens = (length context + CHARS_PER_TOKEN - 1) div CHARS_PER_TOKEN;
         discarded = shadowSet events (pa_vertexId planner);
         contextCost = of_nat contextTokens * lp_cache_miss_input_per_million (rp_pricing policy) / 1000000;
         reworkCost = of_nat (length discarded * TOKENS_PER_REGENERATED_VERTEX) * lp_output_per_million (rp_pricing policy) / 1000000 in
     Inr \<lparr>bc_planner_vertex_id = pa_vertexId planner, bc_planner_seq = pa_seq planner,
          bc_cost = Some (toFixed12 (contextCost + reworkCost)), bc_currency = Some (lp_currency (rp_pricing policy)),
          bc_terms = Some \<lparr>ct_context_cost = toFixed12 contextCost, ct_rework_cost = toFixed12 reworkCost,
                           ct_risk_premium = rp_riskPremium policy\<rparr>,
          bc_rejected = None, bc_requires_cancel = None\<rparr>)"

subsection \<open>Which scopes a boundary touches\<close>

definition touchedScopes :: "stored_event list \<Rightarrow> string \<Rightarrow> (string, scope_cancellation) js_map \<Rightarrow> scope_cancellation list" where
  "touchedScopes events boundary scopes =
     (let discarded = set (shadowSet events boundary) in
      sort_key sc_firstMemberSeq (sort_key sc_scopeId
        (filter (\<lambda>s. sc_phase s \<noteq> Unmaterialized \<and> (\<exists>v\<in>set (sc_members s). v \<in> discarded)) (map snd scopes))))"

definition unresolvedRequests :: "decision_context \<Rightarrow> string list" where
  "unresolvedRequests ctx =
     map sc_scopeId (filter (\<lambda>s. sc_requestedFor s = Some (dc_failedVertexId ctx) \<and>
       (sc_phase s = PhCancelRequested \<or> sc_phase s = PhCancelling)) (map snd (dc_scopes ctx)))"

definition runBlocks :: "decision_context \<Rightarrow> string list" where
  "runBlocks ctx =
     sort (new_set (map sc_scopeId (filter (\<lambda>s. sc_phase s \<in> TRANSIENT) (map snd (dc_scopes ctx))) @
       map lk_scopeId (filter (\<lambda>row. lk_state row = ''open'' \<and> lk_hasExpiredTry row) (nullish (dc_locked ctx) []))))"

definition cancelledFor :: "decision_context \<Rightarrow> string list \<Rightarrow> string list" where
  "cancelledFor ctx relevant =
     sort (new_set (map sc_scopeId (filter (\<lambda>s.
       \<not> (sc_phase s \<noteq> PhCancelled \<or> nullish (sc_cancelledSeq s) 0 \<le> dc_failedAt ctx \<or> sc_scopeId s \<in> set (dc_reported ctx)) \<and>
       (sc_requestedFor s = Some (dc_failedVertexId ctx) \<or> sc_scopeId s \<in> set relevant)) (map snd (dc_scopes ctx)))))"

definition failureSeq :: "stored_event list \<Rightarrow> string \<Rightarrow> nat" where
  "failureSeq events v =
     foldl (\<lambda>s e. if names_vertex VertexFailed v e \<or> unreadable_by v e then run_seq e else s) 0 events"

definition scopeOf :: "stored_event list \<Rightarrow> string \<Rightarrow> (string, scope_cancellation) js_map \<Rightarrow> scope_cancellation option" where
  "scopeOf events v scopes =
     (case find (names_vertex VertexCreated v) events of
        None \<Rightarrow> None | Some e \<Rightarrow> if present (scope_id e) then map_get scopes (the (scope_id e)) else None)"

definition cancelRequestFor :: "stored_event list \<Rightarrow> string \<Rightarrow> nat option" where
  "cancelRequestFor events v =
     foldl (\<lambda>s e. if event_type e = ReplanCancelRequested \<and> member (payload e) ''failed_vertex_id'' = JStr v
                  then Some (run_seq e) else s) None events"

definition reportedCancellations :: "stored_event list \<Rightarrow> string js_set" where
  "reportedCancellations events =
     new_set (concat (map (\<lambda>e. stringArray (member (payload e) ''cancelled_scopes''))
       (filter (\<lambda>e. event_type e = ReplanBoundary) events)))"

definition abbreviate :: "string list \<Rightarrow> string" where
  "abbreviate ids = js_join '', '' (map (take 8) ids)"

subsection \<open>The verdict on one candidate\<close>

definition verdictFor :: "planner_at \<Rightarrow> decision_context \<Rightarrow> rejection_reason + string list" where
  "verdictFor planner ctx =
     (if pa_seq planner < dc_floor ctx then Inl BelowFloor
      else
        (let touched = touchedScopes (dc_events ctx) (pa_vertexId planner) (dc_scopes ctx);
             cancel = filter (\<lambda>s. sc_phase s \<in> CANCELLABLE) touched;
             undone = filter (\<lambda>s. sc_phase s = PhCancelled \<and> nullish (sc_cancelledSeq s) 0 > dc_failedAt ctx) touched in
         if \<exists>s\<in>set touched. sc_phase s \<in> UNRECOVERABLE then Inl OpenBracket
         else if \<exists>s\<in>set (cancel @ undone). sc_firstMemberSeq s < pa_seq planner then Inl SavepointPrecedes
         else if nullish (map_get (dc_perPlanner ctx) (pa_vertexId planner)) 0 \<ge> rp_maxReplansPerPlanner (dc_policy ctx)
         then Inl FailureCounterExhausted
         else Inr (sort (map sc_scopeId cancel))))"

definition rejected_candidate :: "planner_at \<Rightarrow> rejection_reason \<Rightarrow> boundary_candidate" where
  "rejected_candidate planner r =
     \<lparr>bc_planner_vertex_id = pa_vertexId planner, bc_planner_seq = pa_seq planner, bc_cost = None, bc_currency = None,
      bc_terms = None, bc_rejected = Some r, bc_requires_cancel = None\<rparr>"

definition candidate_for :: "decision_context \<Rightarrow> surface_view \<Rightarrow> planner_at \<Rightarrow> boundary_candidate res" where
  "candidate_for ctx view planner =
     (case verdictFor planner ctx of
        Inl r \<Rightarrow> Inr (rejected_candidate planner r)
      | Inr requiresCancel \<Rightarrow>
          bind_res (price (dc_events ctx) view planner (dc_policy ctx)) (\<lambda>p.
          let priced = (if requiresCancel = [] then p else p\<lparr>bc_requires_cancel := Some requiresCancel\<rparr>) in
          Inr (case rp_budgetRemaining (dc_policy ctx) of
                 Some budget \<Rightarrow> if the (bc_cost priced) > budget then rejected_candidate planner BudgetExceeded else priced
               | None \<Rightarrow> priced)))"

text \<open>The loop over the ancestor planners: every candidate, and the first cheapest one with its distance.\<close>

fun weigh ::
    "decision_context \<Rightarrow> surface_view \<Rightarrow> planner_at list \<Rightarrow> boundary_candidate list \<Rightarrow> (boundary_candidate \<times> nat) option \<Rightarrow>
     (boundary_candidate list \<times> (boundary_candidate \<times> nat) option) res" where
  "weigh ctx view [] candidates best = Inr (candidates, best)"
| "weigh ctx view (p # ps) candidates best =
     bind_res (candidate_for ctx view p) (\<lambda>c.
       weigh ctx view ps (candidates @ [c])
         (if bc_rejected c \<noteq> None then best
          else case best of
            None \<Rightarrow> Some (c, pa_depth p)
          | Some (b, _) \<Rightarrow> if the (bc_cost c) < the (bc_cost b) then Some (c, pa_depth p) else best))"

subsection \<open>The end of the ladder\<close>

definition terminal :: "decision_context \<Rightarrow> boundary_decision \<Rightarrow> recovery_level \<Rightarrow> string \<Rightarrow> boundary_decision" where
  "terminal ctx base level reason =
     (let own = dc_ownScope ctx in
      if own \<noteq> None \<and> (sc_phase (the own) = PhOpen \<or> sc_phase (the own) = PhFenced)
      then base\<lparr>bd_action := ActRequest, bd_level := L3, bd_requestScopes := [sc_scopeId (the own)],
                bd_reason := ''cancelling '' @ abbreviate [sc_scopeId (the own)] @ '' before escalating: '' @ reason\<rparr>
      else
        (let awaited = unresolvedRequests ctx @
               (if own \<noteq> None \<and> sc_phase (the own) \<in> {PhCancelRequested, PhCancelling, PhPivotInflight}
                then [sc_scopeId (the own)] else []);
             scopes = sort (new_set awaited) in
         if awaited \<noteq> []
         then base\<lparr>bd_action := ActWait, bd_level := level, bd_awaitedScopes := scopes,
                   bd_reason := ''waiting for '' @ abbreviate scopes @ '' to settle before escalating: '' @ reason\<rparr>
         else base\<lparr>bd_action := ActRecord, bd_level := level, bd_reason := reason,
                   bd_cancelledScopes := cancelledFor ctx (case own of None \<Rightarrow> [] | Some s \<Rightarrow> [sc_scopeId s])\<rparr>))"

definition nearestDepth :: "stored_event list \<Rightarrow> string \<Rightarrow> int" where
  "nearestDepth events v = (case ancestorPlanners events v of [] \<Rightarrow> -1 | p # _ \<Rightarrow> int (pa_depth p))"

definition base_decision :: "stored_event list \<Rightarrow> string \<Rightarrow> nat \<Rightarrow> boundary_decision" where
  "base_decision events failedVertexId episode =
     \<lparr>bd_action = ActRecord, bd_level = L4, bd_reason = [], bd_failedVertexId = failedVertexId, bd_candidates = [],
      bd_selected = None, bd_selectedSeq = None, bd_intended = None, bd_shadowed = [], bd_requestScopes = [],
      bd_awaitedScopes = [], bd_cancelledScopes = [], bd_cancelRequestSeq = cancelRequestFor events failedVertexId,
      bd_episode = episode, bd_estimatedCost = None, bd_currency = None\<rparr>"

definition decision_context_of ::
    "stored_event list \<Rightarrow> string \<Rightarrow> recovery_policy \<Rightarrow> locked_scope list option \<Rightarrow> decision_context" where
  "decision_context_of events failedVertexId policy locked =
     (let scopes = scopeCancellations events in
      \<lparr>dc_events = events, dc_failedVertexId = failedVertexId, dc_policy = policy, dc_scopes = scopes,
       dc_floor = backtrackFloor events, dc_perPlanner = rh_perPlanner (replanHistory events),
       dc_failedAt = failureSeq events failedVertexId, dc_ownScope = scopeOf events failedVertexId scopes,
       dc_reported = reportedCancellations events, dc_locked = locked\<rparr>)"

definition rejections_text :: "boundary_candidate list \<Rightarrow> string" where
  "rejections_text cs = js_join '', '' (map (\<lambda>c. take 8 (bc_planner_vertex_id c) @ '' '' @
     (case bc_rejected c of None \<Rightarrow> ''undefined'' | Some r \<Rightarrow> rejection_str r)) cs)"

text \<open>What follows once the cheapest legal candidate is known: ask, wait, or record.\<close>

definition conclude ::
    "decision_context \<Rightarrow> boundary_decision \<Rightarrow> boundary_candidate list \<Rightarrow> boundary_candidate \<Rightarrow> nat \<Rightarrow> boundary_decision" where
  "conclude ctx base candidates best depth =
     (let level = (if int depth = nearestDepth (dc_events ctx) (dc_failedVertexId ctx) then L1 else L2);
          boundary = bc_planner_vertex_id best;
          required = nullish (bc_requires_cancel best) [];
          toRequest = filter (\<lambda>k. case map_get (dc_scopes ctx) k of
                                None \<Rightarrow> False | Some s \<Rightarrow> sc_phase s = PhOpen \<or> sc_phase s = PhFenced) required;
          inFlight = sort (new_set (required @ unresolvedRequests ctx));
          blocking = runBlocks ctx in
      if toRequest \<noteq> []
      then base\<lparr>bd_candidates := candidates, bd_action := ActRequest, bd_level := level, bd_intended := Some boundary,
                bd_requestScopes := toRequest,
                bd_reason := ''cancelling '' @ abbreviate toRequest @ '' before resuming at '' @ take 8 boundary @
                  '' (03 '' @ [CHR 0xA7] @ ''2.4 rule 1)''\<rparr>
      else if inFlight \<noteq> []
      then base\<lparr>bd_candidates := candidates, bd_action := ActWait, bd_level := level, bd_intended := Some boundary,
                bd_awaitedScopes := inFlight,
                bd_reason := ''waiting for '' @ abbreviate inFlight @ '' to finish cancelling before resuming at '' @ take 8 boundary\<rparr>
      else if blocking \<noteq> []
      then base\<lparr>bd_candidates := candidates, bd_action := ActWait, bd_level := level, bd_intended := Some boundary,
                bd_awaitedScopes := blocking,
                bd_reason := ''waiting for '' @ abbreviate blocking @ '' to settle: the run admits no freeze until it does''\<rparr>
      else base\<lparr>bd_candidates := candidates, bd_action := ActRecord, bd_level := level,
                bd_reason := ''resuming at the cheapest legal boundary of '' @
                  nat_str (length (filter (\<lambda>c. bc_rejected c = None) candidates)),
                bd_selected := Some boundary, bd_selectedSeq := Some (bc_planner_seq best), bd_intended := Some boundary,
                bd_shadowed := shadowSet (dc_events ctx) boundary,
                bd_cancelledScopes := cancelledFor ctx (map sc_scopeId (touchedScopes (dc_events ctx) boundary (dc_scopes ctx))),
                bd_estimatedCost := bc_cost best, bd_currency := Some (lp_currency (rp_pricing (dc_policy ctx)))\<rparr>)"

definition selectBoundary ::
    "stored_event list \<Rightarrow> string \<Rightarrow> recovery_policy \<Rightarrow> locked_scope list option \<Rightarrow> boundary_decision res" where
  "selectBoundary events failedVertexId policy locked =
     (let episode = rh_episode (replanHistory events);
          ctx = decision_context_of events failedVertexId policy locked;
          base = base_decision events failedVertexId episode;
          disagree = (case locked of None \<Rightarrow> [] | Some rows \<Rightarrow> disagreeingScopes (dc_scopes ctx) rows);
          suspended = map sc_scopeId (filter (\<lambda>s. sc_phase s = PhSuspended) (map snd (dc_scopes ctx))) in
      if disagree \<noteq> []
      then Inr (base\<lparr>bd_action := ActWait, bd_awaitedScopes := disagree,
                     bd_reason := ''the log does not yet show what the scope rows hold for '' @ abbreviate disagree\<rparr>)
      else if ruleAuthored events failedVertexId
      then Inr (terminal ctx base L4 ''a rule authored this work, and no planner has the authority to propose a replacement for it'')
      else if episode \<ge> rp_maxReplansPerEpisode policy
      then Inr (terminal ctx base L3 (''this failure episode has already used '' @ nat_str episode @ '' replans, the protocol bound''))
      else if suspended \<noteq> []
      then Inr (terminal ctx base L4 (''scope '' @ abbreviate suspended @ '' is suspended, so no replan in this run can be admitted''))
      else
        bind_res (surface events None) (\<lambda>view.
        bind_res (weigh ctx view (ancestorPlanners events failedVertexId) [] None) (\<lambda>(candidates, best).
        case best of
          None \<Rightarrow>
            Inr (terminal ctx (base\<lparr>bd_candidates := candidates\<rparr>)
              (case dc_ownScope ctx of
                 None \<Rightarrow> L4 | Some own \<Rightarrow> if sc_phase own = PhCancelled \<or> sc_phase own \<in> CANCELLABLE then L3 else L4)
              (if candidates \<noteq> [] then ''no ancestor planner is a legal replan boundary: '' @ rejections_text candidates
               else ''the failed vertex has no ancestor planner''))
        | Some (c, depth) \<Rightarrow> Inr (conclude ctx base candidates c depth))))"

section \<open>What a decision appends\<close>

definition js_null_or :: "string option \<Rightarrow> js" where
  "js_null_or s = (case s of None \<Rightarrow> JNull | Some x \<Rightarrow> JStr x)"

definition terms_json :: "cost_terms \<Rightarrow> js" where
  "terms_json t = JObj [(''context_cost'', JNum (ct_context_cost t)), (''rework_cost'', JNum (ct_rework_cost t)),
     (''risk_premium'', JNum (ct_risk_premium t))]"

definition candidate_json :: "boundary_candidate \<Rightarrow> js" where
  "candidate_json c =
     JObj ([(''planner_vertex_id'', JStr (bc_planner_vertex_id c)), (''planner_seq'', num (bc_planner_seq c))] @
       (case bc_cost c of None \<Rightarrow> [] | Some r \<Rightarrow> [(''cost'', JNum r)]) @
       (case bc_currency c of None \<Rightarrow> [] | Some s \<Rightarrow> [(''currency'', JStr s)]) @
       (case bc_terms c of None \<Rightarrow> [] | Some t \<Rightarrow> [(''terms'', terms_json t)]) @
       (case bc_rejected c of None \<Rightarrow> [] | Some r \<Rightarrow> [(''rejected'', JStr (rejection_str r))]) @
       (case bc_requires_cancel c of None \<Rightarrow> [] | Some ks \<Rightarrow> [(''requires_cancel'', JArr (map JStr ks))]))"

definition boundary_payload :: "boundary_decision \<Rightarrow> failure_evidence \<Rightarrow> json_object" where
  "boundary_payload d evidence =
     [(''level'', JStr (level_str (bd_level d))), (''reason'', JStr (bd_reason d)),
      (''failed_vertex_id'', JStr (bd_failedVertexId d)), (''episode'', num (bd_episode d + 1)),
      (''candidates'', JArr (map candidate_json (bd_candidates d))), (''selected'', js_null_or (bd_selected d)),
      (''cancelled_scopes'', JArr (map JStr (fe_cancelled_scopes evidence)))] @
     (case bd_cancelRequestSeq d of None \<Rightarrow> [] | Some n \<Rightarrow> [(''cancel_request_seq'', num n)]) @
     (case bd_selectedSeq d of None \<Rightarrow> []
      | Some n \<Rightarrow> [(''boundary_seq'', num n), (''boundary_vertex_id'', js_null_or (bd_selected d))]) @
     (case bd_estimatedCost d of None \<Rightarrow> []
      | Some r \<Rightarrow> [(''estimated_cost'', JNum r), (''currency'', js_null_or (bd_currency d))])"

definition shadow_payload :: "boundary_decision \<Rightarrow> json_object" where
  "shadow_payload d =
     [(''vertex_ids'', JArr (map JStr (bd_shadowed d))), (''reason'', JStr (bd_reason d)),
      (''boundary_seq'', (case bd_selectedSeq d of None \<Rightarrow> JNull | Some n \<Rightarrow> num n)),
      (''boundary_vertex_id'', js_null_or (bd_selected d)), (''failed_vertex_id'', JStr (bd_failedVertexId d))]"

definition replanEvents :: "boundary_decision \<Rightarrow> failure_evidence \<Rightarrow> event_draft list" where
  "replanEvents d evidence =
     (draft ReplanBoundary (boundary_payload d evidence))\<lparr>dr_vertex_id := truthy_string (bd_selected d)\<rparr> #
     (if present (bd_selected d) then [draft SubgraphShadowed (shadow_payload d)] else [])"

definition cancelRequestEvent :: "boundary_decision \<Rightarrow> event_draft res" where
  "cancelRequestEvent d =
     (if bd_action d \<noteq> ActRequest \<or> bd_requestScopes d = []
      then Inl (Error ''only a request decision appends a cancellation request'')
      else Inr (draft ReplanCancelRequested
        [(''failed_vertex_id'', JStr (bd_failedVertexId d)),
         (''scope_ids'', JArr (map JStr (sort (bd_requestScopes d)))),
         (''level'', JStr (level_str (if bd_level d = L4 then L3 else bd_level d))), (''reason'', JStr (bd_reason d)),
         (''intended_boundary_vertex_id'', js_null_or (bd_intended d)),
         (''candidates'', JArr (map candidate_json (bd_candidates d)))]))"

definition decideRecovery ::
    "stored_event list \<Rightarrow> string \<Rightarrow> recovery_policy \<Rightarrow> locked_scope list option \<Rightarrow>
     (boundary_decision \<times> event_draft list) res" where
  "decideRecovery events failedVertexId policy locked =
     bind_res (selectBoundary events failedVertexId policy locked) (\<lambda>d.
     case bd_action d of
       ActWait \<Rightarrow> Inr (d, [])
     | ActRequest \<Rightarrow> bind_res (cancelRequestEvent d) (\<lambda>e. Inr (d, [e]))
     | ActRecord \<Rightarrow>
         Inr (d, replanEvents d (failureEvidence events failedVertexId (bd_shadowed d) (bd_cancelledScopes d))))"

section \<open>The loop\<close>

definition answered_stalls :: "stored_event list \<Rightarrow> string set" where
  "answered_stalls events =
     set (List.map_filter (\<lambda>e. as_string (member (payload e) ''failed_vertex_id''))
       (filter (\<lambda>e. event_type e = ReplanBoundary) events))"

definition has_later_child :: "stored_event list \<Rightarrow> stored_event \<Rightarrow> string \<Rightarrow> bool" where
  "has_later_child events e planner =
     (\<exists>x\<in>set events. run_seq x > run_seq e \<and> event_type x = VertexCreated \<and> planner \<in> set (parent_refs x))"

definition stalled_step :: "stored_event list \<Rightarrow> string list \<Rightarrow> stored_event \<Rightarrow> string list" where
  "stalled_step events stalled e =
     (if event_type e \<noteq> SubgraphUnreadable then stalled
      else case as_string (member (payload e) ''planner_vertex_id'') of
        None \<Rightarrow> stalled
      | Some planner \<Rightarrow>
          if planner \<in> answered_stalls events \<or> planner \<in> set stalled \<or> has_later_child events e planner
          then stalled else stalled @ [planner])"

definition stalledPlanners :: "stored_event list \<Rightarrow> string list" where
  "stalledPlanners events = foldl (stalled_step events) [] events"

definition answered_failures :: "stored_event list \<Rightarrow> string set" where
  "answered_failures events =
     already_hidden events \<union>
     set (List.map_filter (\<lambda>e. as_string (member (payload e) ''failed_vertex_id''))
       (filter (\<lambda>e. event_type e = ReplanBoundary \<and> member (payload e) ''selected'' = JNull) events))"

definition last_outcomes :: "stored_event list \<Rightarrow> (string, event_type) js_map" where
  "last_outcomes events =
     foldl (\<lambda>m e. if present (vertex_id e) \<and> event_type e \<in> {VertexFailed, VertexSucceeded, VertexRetried}
                  then map_set (the (vertex_id e)) (event_type e) m else m) [] events"

definition unrecoveredFailures :: "stored_event list \<Rightarrow> string list" where
  "unrecoveredFailures events =
     map (\<lambda>e. the (vertex_id e)) (filter (\<lambda>e. about VertexFailed e \<and> the (vertex_id e) \<notin> answered_failures events \<and>
       map_get (last_outcomes events) (the (vertex_id e)) = Some VertexFailed) events)"

definition outstanding :: "stored_event list \<Rightarrow> string list" where
  "outstanding events = unrecoveredFailures events @ stalledPlanners events"

text \<open>The decision of one pass: the first outstanding failure that need not wait, or everything that waits.\<close>

fun decide_outstanding ::
    "stored_event list \<Rightarrow> recovery_policy \<Rightarrow> locked_scope list \<Rightarrow> string list \<Rightarrow> boundary_decision list \<Rightarrow>
     ((boundary_decision \<times> event_draft list) option \<times> boundary_decision list) res" where
  "decide_outstanding events policy scopes [] waiting = Inr (None, waiting)"
| "decide_outstanding events policy scopes (failed # rest) waiting =
     bind_res (decideRecovery events failed policy (Some scopes)) (\<lambda>(d, drafts).
       if bd_action d = ActWait then decide_outstanding events policy scopes rest (waiting @ [d])
       else Inr (Some (d, drafts), waiting))"

record recovery_request =
  rq_runId :: string
  rq_taskInput :: json_object
  rq_workflowType :: string

record planner_turn_request =
  tr_runId :: string
  tr_plannerVertexId :: string
  tr_taskInput :: json_object
  tr_workflowType :: string
  tr_goal :: string
  tr_evidence :: "failure_evidence option"
  tr_attempt :: "nat option"

datatype 'turn recovery_result =
    Replanned boundary_decision failure_evidence 'turn
  | Escalated boundary_decision
  | CancelRequested boundary_decision nat
  | AwaitingCancellation "boundary_decision list"
  | Idle

text \<open>
  \<open>advance\<close> is the planner's turn and \<open>goalFor\<close> names the goal of a planner; the append is the
  store's transaction under the scope lock.
\<close>

definition pass_of :: "recovery_policy \<Rightarrow> scope_locked_view \<Rightarrow> ((boundary_decision \<times> event_draft list) option \<times> boundary_decision list) res" where
  "pass_of policy v = decide_outstanding (lv_events v) policy (lv_scopes v) (outstanding (lv_events v)) []"

definition locked_view :: "database \<Rightarrow> string \<Rightarrow> scope_locked_view" where
  "locked_view db runId =
     \<lparr>lv_events = readStream db runId None, lv_scopes = map locked_scope_of (lock_run_scopes db runId)\<rparr>"

definition recoverOne ::
    "validator \<Rightarrow> guard \<Rightarrow> recovery_policy \<Rightarrow> (planner_turn_request \<Rightarrow> database \<Rightarrow> ('turn \<times> database) res) \<Rightarrow> (string \<Rightarrow> string) \<Rightarrow>
     recovery_request \<Rightarrow> database \<Rightarrow> ('turn recovery_result \<times> database) res" where
  "recoverOne validateSchema guard policy advance goalFor q db =
     bind_res (appendUnderScopeLock Engine validateSchema guard (rq_runId q)
                 (\<lambda>v. map_sum id (\<lambda>(acted, waiting). map_option snd acted) (pass_of policy v)) db) (\<lambda>(sequences, db').
     bind_res (pass_of policy (locked_view db (rq_runId q))) (\<lambda>(acted, waiting).
     case acted of
       None \<Rightarrow> Inr (if waiting \<noteq> [] then AwaitingCancellation waiting else Idle, db')
     | Some (d, drafts) \<Rightarrow>
         if bd_action d = ActRequest then Inr (CancelRequested d (hd (the sequences)), db')
         else if \<not> present (bd_selected d) then Inr (Escalated d, db')
         else
           (let evidence = failureEvidence (readStream db (rq_runId q) None) (bd_failedVertexId d) (bd_shadowed d) (bd_cancelledScopes d) in
            bind_res (advance \<lparr>tr_runId = rq_runId q, tr_plannerVertexId = the (bd_selected d), tr_taskInput = rq_taskInput q,
                tr_workflowType = rq_workflowType q, tr_goal = goalFor (the (bd_selected d)), tr_evidence = Some evidence,
                tr_attempt = Some (bd_episode d + 1)\<rparr> db') (\<lambda>(turn, db'').
            Inr (Replanned d evidence turn, db'')))))"

end
