(* ===== verification/Recovery_Spec.thy ===== *)
theory Recovery_Spec
  imports Recovery Event_Store_Spec
begin

text \<open>
  What the recovery ladder guarantees: a boundary it selects is legal and the cheapest of the published
  comparison, a decision that acts has something to act on, a recorded decision answers its failure.
\<close>

section \<open>Scopes\<close>

definition cancel_closed :: "string \<Rightarrow> stored_event \<Rightarrow> bool" where
  "cancel_closed k e \<longleftrightarrow> scope_id e = Some k \<and>
     (event_type e = TxnCancel \<and> member (payload e) ''phase'' = JStr ''completed'' \<or>
      event_type e = TxnScope \<and> member (payload e) ''state'' = JStr ''cancelled'')"

definition commit_closed :: "string \<Rightarrow> stored_event \<Rightarrow> bool" where
  "commit_closed k e \<longleftrightarrow> scope_id e = Some k \<and> event_type e = TxnScope \<and> member (payload e) ''state'' = JStr ''committed''"

definition scope_inv :: "stored_event list \<Rightarrow> string \<Rightarrow> scope_cancellation \<Rightarrow> bool" where
  "scope_inv es k s \<longleftrightarrow> sc_scopeId s = k \<and>
     (sc_phase s = PhCancelled \<longrightarrow> (\<exists>e\<in>set es. cancel_closed k e)) \<and>
     (sc_phase s = PhCommitted \<longrightarrow> (\<exists>e\<in>set es. commit_closed k e))"

definition scopes_ok :: "stored_event list \<Rightarrow> scope_fold \<Rightarrow> bool" where
  "scopes_ok es st \<longleftrightarrow> distinct (map fst (sf_scopes st)) \<and>
     (\<forall>k s. map_get (sf_scopes st) k = Some s \<longrightarrow> scope_inv es k s)"

lemma distinct_keys_map_set: "distinct (map fst m) \<Longrightarrow> distinct (map fst (map_set k v m))"
  by (simp add: keys_map_set)

lemma scopes_ok_at: "scopes_ok es st \<Longrightarrow> scopes_ok es (scope_at k n st)"
  by (auto simp: scopes_ok_def scope_at_def map_get_map_set scope_inv_def distinct_keys_map_set split: if_splits)

lemma scopes_ok_on:
  "scopes_ok es st \<Longrightarrow> (\<And>s. scope_inv es k s \<Longrightarrow> scope_inv es k (f s)) \<Longrightarrow> scopes_ok es (on_scope k f st)"
  by (auto simp: scopes_ok_def on_scope_def map_get_map_set distinct_keys_map_set split: option.splits if_splits)

lemma scopes_ok_tries [simp]: "scopes_ok es (on_tries k f st) = scopes_ok es st"
  by (simp add: scopes_ok_def on_tries_def)

lemma scopes_ok_more: "scopes_ok es st \<Longrightarrow> scopes_ok (es @ [e]) st"
  by (fastforce simp: scopes_ok_def scope_inv_def)

lemma scopes_ok_requests: "scopes_ok es st \<Longrightarrow> scopes_ok es (foldl (request_scope e) st ks)"
proof (induction ks arbitrary: st)
  case (Cons k ks)
  have "scopes_ok es (request_scope e st k)"
    unfolding request_scope_def by (rule scopes_ok_on [OF scopes_ok_at [OF Cons.prems]]) (auto simp: scope_inv_def)
  then show ?case using Cons.IH by simp
qed simp

lemma scope_inv_changes:
  assumes "scope_inv (es @ [e]) k s" "scope_id e = Some k"
  shows "scope_inv (es @ [e]) k (add_member e s)" "scope_inv (es @ [e]) k (materialize s)"
    "scope_inv (es @ [e]) k (fence e s)"
    "event_type e = TxnScope \<Longrightarrow> scope_inv (es @ [e]) k (scope_state_change e s)"
    "p \<notin> {PhCancelled, PhCommitted} \<Longrightarrow> scope_inv (es @ [e]) k (sc_phase_update (\<lambda>_. p) s)"
    "cancel_closed k e \<Longrightarrow> scope_inv (es @ [e]) k (s\<lparr>sc_phase := PhCancelled, sc_cancelledSeq := Some n\<rparr>)"
  using assms
  by (auto simp: scope_inv_def add_member_def materialize_def fence_def scope_state_change_def Let_def cancel_closed_def
      commit_closed_def as_string_def split: if_splits js.splits)

lemma scope_event_ok:
  assumes "scopes_ok es st"
  shows "scopes_ok (es @ [e]) (scope_event st e)"
proof (cases "event_type e = ReplanCancelRequested \<or> \<not> present (scope_id e)")
  case True
  then show ?thesis using scopes_ok_requests [OF scopes_ok_more [OF assms]] scopes_ok_more [OF assms] by (auto simp: scope_event_def)
next
  case False
  then obtain k where k: "scope_id e = Some k" by (auto elim: presentE)
  note ok = scopes_ok_at [OF scopes_ok_more [OF assms, of e], of k "run_seq e"]
  show ?thesis
    using False k ok
    by (auto simp: scope_event_def Let_def cancel_closed_def intro!: scopes_ok_on scope_inv_changes split: event_type.split)
qed

lemma scope_fold_ok: "scopes_ok es (foldl scope_event \<lparr>sf_scopes = [], sf_tries = []\<rparr> es)"
proof (induction es rule: rev_induct)
  case Nil
  then show ?case by (simp add: scopes_ok_def map_get_def)
next
  case (snoc e es)
  then show ?case using scope_event_ok [OF snoc.IH] by simp
qed

lemma map_get_map_values: "map_get (map (\<lambda>(k, v). (k, f v)) m) k = map_option f (map_get m k)"
  by (induction m) (auto simp: map_get_def)

lemma scopeCancellations_inv:
  assumes "map_get (scopeCancellations events) k = Some s"
  shows "scope_inv events k s"
  using assms scope_fold_ok [of events]
  by (auto simp: scopeCancellations_def Let_def map_get_map_values scopes_ok_def scope_inv_def count_tries_def)

lemma scopeCancellations_values:
  "s \<in> snd ` set (scopeCancellations events) \<Longrightarrow> map_get (scopeCancellations events) (sc_scopeId s) = Some s"
proof -
  assume "s \<in> snd ` set (scopeCancellations events)"
  then obtain k where ks: "(k, s) \<in> set (scopeCancellations events)" by auto
  have "distinct (map fst (scopeCancellations events))"
    using scope_fold_ok [of events] by (simp add: scopeCancellations_def Let_def scopes_ok_def case_prod_beta comp_def)
  then have get: "map_get (scopeCancellations events) k = Some s" using ks by (simp add: map_get_distinct)
  with scopeCancellations_inv [OF get] show ?thesis by (simp add: scope_inv_def)
qed

section \<open>Ancestor planners\<close>

lemma map_get_new_mapD: "map_get (new_map es) k = Some v \<Longrightarrow> (k, v) \<in> set es"
  by (auto simp: map_get_new_map dest: map_of_SomeD)

lemma created_eventsD:
  assumes "map_get (created_events events) v = Some e"
  shows "e \<in> set events" "about VertexCreated e" "vertex_id e = Some v"
  using map_get_new_mapD [OF assms [unfolded created_events_def]] by (auto simp: about_def elim!: presentE)

lemma created_parents_edge: "p \<in> set (created_parents (created_events events) v) \<Longrightarrow> (p, v) \<in> causal_edges events"
  using created_eventsD [of events v]
  by (cases "map_get (created_events events) v") (auto simp: created_parents_def causal_edges_def)

definition succeeded_planner :: "stored_event list \<Rightarrow> planner_at \<Rightarrow> bool" where
  "succeeded_planner events p \<longleftrightarrow> pa_vertexId p \<noteq> [] \<and>
     (\<exists>e\<in>set events. names_vertex VertexCreated (pa_vertexId p) e \<and> member (payload e) ''role'' = JStr ''planner'') \<and>
     (\<exists>e\<in>set events. names_vertex VertexSucceeded (pa_vertexId p) e \<and> run_seq e = pa_seq p)"

lemma planner_found_ok:
  "p \<in> set (planner_found (created_events events) (succeeded_seqs events) depth v) \<Longrightarrow>
     succeeded_planner events p \<and> pa_vertexId p = v \<and> pa_depth p = depth"
proof -
  assume p: "p \<in> set (planner_found (created_events events) (succeeded_seqs events) depth v)"
  then obtain e s where e: "map_get (created_events events) v = Some e" "map_get (succeeded_seqs events) v = Some s"
    "member (payload e) ''role'' = JStr ''planner''" "p = \<lparr>pa_vertexId = v, pa_seq = s, pa_depth = depth\<rparr>"
    by (cases "map_get (created_events events) v"; cases "map_get (succeeded_seqs events) v")
      (auto simp: planner_found_def split: if_splits)
  from map_get_new_mapD [OF e(2) [unfolded succeeded_seqs_def]]
  have "\<exists>x\<in>set events. names_vertex VertexSucceeded v x \<and> run_seq x = s"
    by (auto simp: about_def names_vertex_def elim!: presentE)
  moreover have "v \<noteq> []" using created_eventsD(2,3) [OF e(1)] by (auto simp: about_def)
  ultimately show ?thesis
    using created_eventsD [OF e(1)] e(3,4) by (auto simp: succeeded_planner_def names_vertex_def about_def)
qed

text \<open>An ancestor planner: it succeeded, and the failed vertex is itself or below it.\<close>

definition resumable :: "stored_event list \<Rightarrow> string \<Rightarrow> planner_at \<Rightarrow> bool" where
  "resumable events v p \<longleftrightarrow> succeeded_planner events p \<and>
     (if pa_depth p = 0 then pa_vertexId p = v else (pa_vertexId p, v) \<in> (causal_edges events)\<^sup>+)"

lemma search_layer_resumable:
  assumes "0 < depth" "\<And>x. x \<in> set vs \<Longrightarrow> (x, v) \<in> (causal_edges events)\<^sup>+"
    "\<And>x. x \<in> set nx \<Longrightarrow> (x, v) \<in> (causal_edges events)\<^sup>+" "\<And>p. p \<in> set found \<Longrightarrow> resumable events v p"
    "search_layer (created_events events) (succeeded_seqs events) depth vs (seen, found, nx) = (seen', found', nx')"
  shows "(\<forall>x\<in>set nx'. (x, v) \<in> (causal_edges events)\<^sup>+) \<and> (\<forall>p\<in>set found'. resumable events v p)"
  using assms(2-5)
proof (induction vs arbitrary: seen found nx)
  case (Cons u vs)
  show ?case
  proof (cases "u \<in> set seen")
    case True
    then show ?thesis using Cons.IH [of nx found seen] Cons.prems by simp
  next
    case False
    have u: "(u, v) \<in> (causal_edges events)\<^sup>+" using Cons.prems(1) by simp
    have "resumable events v p" if "p \<in> set (planner_found (created_events events) (succeeded_seqs events) depth u)" for p
      using planner_found_ok [OF that] u assms(1) by (simp add: resumable_def)
    moreover have "(x, v) \<in> (causal_edges events)\<^sup>+" if "x \<in> set (created_parents (created_events events) u)" for x
      using created_parents_edge [OF that] u by (rule trancl_into_trancl2)
    moreover have "search_layer (created_events events) (succeeded_seqs events) depth vs (set_add seen u,
        found @ planner_found (created_events events) (succeeded_seqs events) depth u, nx @ created_parents (created_events events) u) =
        (seen', found', nx')"
      using Cons.prems(4) False by simp
    ultimately show ?thesis using Cons.prems(1-3) by (intro Cons.IH) auto
  qed
qed auto

lemma search_ancestors_resumable:
  assumes "0 < depth" "\<And>x. x \<in> set frontier \<Longrightarrow> (x, v) \<in> (causal_edges events)\<^sup>+" "\<And>p. p \<in> set found \<Longrightarrow> resumable events v p"
    "p \<in> set (search_ancestors (created_events events) (succeeded_seqs events) depth seen found frontier)"
  shows "resumable events v p"
  using assms
proof (induction "created_events events" "succeeded_seqs events" depth seen found frontier rule: search_ancestors.induct)
  case (1 depth seen found frontier)
  show ?case
  proof (cases "frontier = []")
    case True
    then show ?thesis using 1 by (simp add: search_ancestors.simps)
  next
    case False
    obtain seen' found' nx' where st: "search_layer (created_events events) (succeeded_seqs events) depth frontier (seen, found, []) =
        (seen', found', nx')" by (cases "search_layer (created_events events) (succeeded_seqs events) depth frontier (seen, found, [])")
    note layer = search_layer_resumable [OF "1.prems"(1,2) _ "1.prems"(3) st]
    have "p \<in> set (search_ancestors (created_events events) (succeeded_seqs events) (Suc depth) seen' found' nx')"
      using "1.prems"(4) False by (subst (asm) search_ancestors.simps) (simp add: st)
    with layer show ?thesis using "1.hyps" [OF False refl, unfolded st] by simp
  qed
qed

lemma ancestorPlanners_resumable: "p \<in> set (ancestorPlanners events v) \<Longrightarrow> resumable events v p"
proof -
  assume "p \<in> set (ancestorPlanners events v)"
  then have p: "p \<in> set (search_ancestors (created_events events) (succeeded_seqs events) 1 [v]
      (planner_found (created_events events) (succeeded_seqs events) 0 v) (created_parents (created_events events) v))"
    by (simp add: ancestorPlanners_def Let_def)
  show ?thesis
    by (rule search_ancestors_resumable [OF _ _ _ p])
      (auto simp: resumable_def dest: created_parents_edge planner_found_ok)
qed

section \<open>The comparison\<close>

lemma verdictFor_Inr:
  "verdictFor p ctx = Inr req \<longleftrightarrow>
     dc_floor ctx \<le> pa_seq p \<and>
     (\<forall>s\<in>set (touchedScopes (dc_events ctx) (pa_vertexId p) (dc_scopes ctx)). sc_phase s \<notin> UNRECOVERABLE \<and>
        (sc_phase s \<in> CANCELLABLE \<or> sc_phase s = PhCancelled \<and> nullish (sc_cancelledSeq s) 0 > dc_failedAt ctx \<longrightarrow>
           pa_seq p \<le> sc_firstMemberSeq s)) \<and>
     nullish (map_get (dc_perPlanner ctx) (pa_vertexId p)) 0 < rp_maxReplansPerPlanner (dc_policy ctx) \<and>
     req = sort (map sc_scopeId (filter (\<lambda>s. sc_phase s \<in> CANCELLABLE)
       (touchedScopes (dc_events ctx) (pa_vertexId p) (dc_scopes ctx))))"
  by (auto simp: verdictFor_def Let_def not_less not_le)

lemma price_Inr:
  "price events view p policy = Inr c \<Longrightarrow> bc_planner_vertex_id c = pa_vertexId p \<and> bc_planner_seq c = pa_seq p \<and>
     (\<exists>k. bc_cost c = Some k) \<and> bc_rejected c = None \<and> bc_requires_cancel c = None"
  by (auto simp: price_def bind_res_Inr Let_def)

lemma candidate_for_cases:
  assumes "candidate_for ctx view p = Inr c"
  shows "(\<exists>r. c = rejected_candidate p r) \<or>
    (\<exists>c0 req. verdictFor p ctx = Inr req \<and> price (dc_events ctx) view p (dc_policy ctx) = Inr c0 \<and>
      c = (if req = [] then c0 else c0\<lparr>bc_requires_cancel := Some req\<rparr>) \<and>
      (\<forall>budget. rp_budgetRemaining (dc_policy ctx) = Some budget \<longrightarrow> the (bc_cost c) \<le> budget))"
proof (cases "verdictFor p ctx")
  case (Inl r)
  then show ?thesis using assms by (auto simp: candidate_for_def)
next
  case (Inr req)
  obtain c0 where c0: "price (dc_events ctx) view p (dc_policy ctx) = Inr c0"
    using assms Inr by (cases "price (dc_events ctx) view p (dc_policy ctx)") (simp_all add: candidate_for_def)
  define c1 where "c1 = (if req = [] then c0 else c0\<lparr>bc_requires_cancel := Some req\<rparr>)"
  have "c = (case rp_budgetRemaining (dc_policy ctx) of
      Some budget \<Rightarrow> if the (bc_cost c1) > budget then rejected_candidate p BudgetExceeded else c1 | None \<Rightarrow> c1)"
    using assms [unfolded candidate_for_def Inr c0 sum.case bind_res_simps Let_def, folded c1_def] by simp
  then have "c = rejected_candidate p BudgetExceeded \<or>
      c = c1 \<and> (\<forall>budget. rp_budgetRemaining (dc_policy ctx) = Some budget \<longrightarrow> the (bc_cost c1) \<le> budget)"
    by (cases "rp_budgetRemaining (dc_policy ctx)") (auto simp: not_less)
  with Inr c0 show ?thesis unfolding c1_def by blast
qed

lemma candidate_for_id:
  assumes "candidate_for ctx view p = Inr c"
  shows "bc_planner_vertex_id c = pa_vertexId p \<and> bc_planner_seq c = pa_seq p"
  using candidate_for_cases [OF assms]
proof (elim disjE exE conjE)
  fix c0 req
  assume "price (dc_events ctx) view p (dc_policy ctx) = Inr c0" "c = (if req = [] then c0 else c0\<lparr>bc_requires_cancel := Some req\<rparr>)"
  then show ?thesis using price_Inr [of "dc_events ctx" view p "dc_policy ctx" c0] by simp
qed (simp add: rejected_candidate_def)

lemma candidate_for_selectable:
  assumes "candidate_for ctx view p = Inr c" "bc_rejected c = None"
  shows "verdictFor p ctx = Inr (nullish (bc_requires_cancel c) []) \<and>
    (\<exists>k. bc_cost c = Some k \<and> (\<forall>budget. rp_budgetRemaining (dc_policy ctx) = Some budget \<longrightarrow> k \<le> budget))"
proof -
  obtain c0 req where c: "verdictFor p ctx = Inr req" "price (dc_events ctx) view p (dc_policy ctx) = Inr c0"
    "c = (if req = [] then c0 else c0\<lparr>bc_requires_cancel := Some req\<rparr>)"
    "\<forall>budget. rp_budgetRemaining (dc_policy ctx) = Some budget \<longrightarrow> the (bc_cost c) \<le> budget"
    using candidate_for_cases [OF assms(1)] assms(2) by (auto simp: rejected_candidate_def)
  with price_Inr [OF c(2)] show ?thesis by (cases "req = []") auto
qed

text \<open>The candidate the loop keeps: unrejected, no dearer than any unrejected one, and cheaper than every
  nearer one.\<close>

definition best_of :: "(planner_at \<times> boundary_candidate) list \<Rightarrow> (boundary_candidate \<times> nat) option \<Rightarrow> bool" where
  "best_of pcs best \<longleftrightarrow>
     (case best of
        None \<Rightarrow> \<forall>(p, c)\<in>set pcs. bc_rejected c \<noteq> None
      | Some (b, d) \<Rightarrow> \<exists>pre p post. pcs = pre @ (p, b) # post \<and> d = pa_depth p \<and> bc_rejected b = None \<and>
          (\<forall>(p', c)\<in>set pre. bc_rejected c = None \<longrightarrow> the (bc_cost b) < the (bc_cost c)) \<and>
          (\<forall>(p', c)\<in>set post. bc_rejected c = None \<longrightarrow> the (bc_cost b) \<le> the (bc_cost c)))"

lemma best_of_snoc:
  assumes "best_of pcs best"
  shows "best_of (pcs @ [(p, c)])
    (if bc_rejected c \<noteq> None then best
     else case best of None \<Rightarrow> Some (c, pa_depth p)
       | Some (b, _) \<Rightarrow> if the (bc_cost c) < the (bc_cost b) then Some (c, pa_depth p) else best)"
proof (cases best)
  case None
  then show ?thesis using assms by (fastforce simp: best_of_def)
next
  case (Some bd)
  then obtain b d pre q post where best: "best = Some (b, d)" "pcs = pre @ (q, b) # post" "d = pa_depth q" "bc_rejected b = None"
    "\<forall>(p', c)\<in>set pre. bc_rejected c = None \<longrightarrow> the (bc_cost b) < the (bc_cost c)"
    "\<forall>(p', c)\<in>set post. bc_rejected c = None \<longrightarrow> the (bc_cost b) \<le> the (bc_cost c)"
    using assms by (auto simp: best_of_def)
  show ?thesis
  proof (cases "bc_rejected c = None \<and> the (bc_cost c) < the (bc_cost b)")
    case True
    then have "\<forall>(p', x)\<in>set pcs. bc_rejected x = None \<longrightarrow> the (bc_cost c) < the (bc_cost x)" using best by fastforce
    then show ?thesis using True best(1) by (auto simp: best_of_def intro!: exI [of _ pcs])
  next
    case False
    have "best_of (pcs @ [(p, c)]) best"
      unfolding best_of_def best(1) option.case prod.case
      by (rule exI [of _ pre], rule exI [of _ q], rule exI [of _ "post @ [(p, c)]"]) (use best(2-6) False in auto)
    then show ?thesis using False best(1) by auto
  qed
qed

lemma weigh_Inr:
  assumes "weigh ctx view ps cs best = Inr (cs', best')" "length qs = length cs" "best_of (zip qs cs) best"
  shows "\<exists>ds. cs' = cs @ ds \<and> list_all2 (\<lambda>p c. candidate_for ctx view p = Inr c) ps ds \<and> best_of (zip (qs @ ps) cs') best'"
  using assms
proof (induction ps arbitrary: cs best qs)
  case Nil
  then show ?case by auto
next
  case (Cons p ps)
  let ?best = "\<lambda>c. if bc_rejected c \<noteq> None then best
     else case best of None \<Rightarrow> Some (c, pa_depth p)
       | Some (b, _) \<Rightarrow> if the (bc_cost c) < the (bc_cost b) then Some (c, pa_depth p) else best"
  obtain c where c: "candidate_for ctx view p = Inr c" "weigh ctx view ps (cs @ [c]) (?best c) = Inr (cs', best')"
    using Cons.prems(1) by (auto simp: bind_res_Inr)
  have "best_of (zip (qs @ [p]) (cs @ [c])) (?best c)"
    using best_of_snoc [OF Cons.prems(3), of p c] Cons.prems(2) by simp
  from Cons.IH [OF c(2) _ this] Cons.prems(2) obtain ds where
    "cs' = (cs @ [c]) @ ds" "list_all2 (\<lambda>p c. candidate_for ctx view p = Inr c) ps ds" "best_of (zip ((qs @ [p]) @ ps) cs') best'"
    by auto
  then show ?case using c(1) by (intro exI [of _ "c # ds"]) simp
qed

section \<open>The decision\<close>

lemma selectBoundary_cases:
  assumes "selectBoundary events v policy locked = Inr d"
    and ctx: "ctx = decision_context_of events v policy locked"
    and base: "base = base_decision events v (rh_episode (replanHistory events))"
  shows "(\<exists>ks reason. ks \<noteq> [] \<and> d = base\<lparr>bd_action := ActWait, bd_awaitedScopes := ks, bd_reason := reason\<rparr>) \<or>
    (\<exists>cs level reason. d = terminal ctx (base\<lparr>bd_candidates := cs\<rparr>) level reason) \<or>
    (\<exists>view cs c depth. \<not> ruleAuthored events v \<and> rh_episode (replanHistory events) < rp_maxReplansPerEpisode policy \<and>
       (\<forall>s\<in>snd ` set (scopeCancellations events). sc_phase s \<noteq> PhSuspended) \<and>
       weigh ctx view (ancestorPlanners events v) [] None = Inr (cs, Some (c, depth)) \<and>
       d = conclude ctx base cs c depth)"
proof -
  have scopes: "dc_scopes ctx = scopeCancellations events" by (simp add: ctx decision_context_of_def Let_def)
  have same: "base\<lparr>bd_candidates := []\<rparr> = base" by (simp add: base base_decision_def)
  define disagree where "disagree = (case locked of None \<Rightarrow> [] | Some rows \<Rightarrow> disagreeingScopes (dc_scopes ctx) rows)"
  define suspended where "suspended = map sc_scopeId (filter (\<lambda>s. sc_phase s = PhSuspended) (map snd (dc_scopes ctx)))"
  note sel = assms(1) [unfolded selectBoundary_def Let_def, folded ctx, folded base, folded disagree_def, folded suspended_def]
  consider "disagree \<noteq> []" | "disagree = []" "ruleAuthored events v \<or> rh_episode (replanHistory events) \<ge> rp_maxReplansPerEpisode policy \<or> suspended \<noteq> []"
    | "disagree = []" "\<not> ruleAuthored events v" "rh_episode (replanHistory events) < rp_maxReplansPerEpisode policy" "suspended = []"
    by fastforce
  then show ?thesis
  proof cases
    case 1
    then show ?thesis using sel by auto
  next
    case 2
    then have "\<exists>level reason. d = terminal ctx base level reason" using sel by (auto split: if_splits)
    then show ?thesis using same by metis
  next
    case 3
    have none: "\<forall>s\<in>snd ` set (scopeCancellations events). sc_phase s \<noteq> PhSuspended"
      using 3(4) by (auto simp: suspended_def scopes filter_empty_conv)
    from sel 3 obtain view cs best where w: "weigh ctx view (ancestorPlanners events v) [] None = Inr (cs, best)"
      and d: "(case best of None \<Rightarrow>
            Inr (terminal ctx (base\<lparr>bd_candidates := cs\<rparr>)
              (case dc_ownScope ctx of
                 None \<Rightarrow> L4 | Some own \<Rightarrow> if sc_phase own = PhCancelled \<or> sc_phase own \<in> CANCELLABLE then L3 else L4)
              (if cs \<noteq> [] then ''no ancestor planner is a legal replan boundary: '' @ rejections_text cs
               else ''the failed vertex has no ancestor planner''))
        | Some (c, depth) \<Rightarrow> Inr (conclude ctx base cs c depth)) = (Inr d :: boundary_decision res)"
      by (auto simp: bind_res_Inr not_le)
    show ?thesis
    proof (cases best)
      case None
      then have "d = terminal ctx (base\<lparr>bd_candidates := cs\<rparr>)
              (case dc_ownScope ctx of
                 None \<Rightarrow> L4 | Some own \<Rightarrow> if sc_phase own = PhCancelled \<or> sc_phase own \<in> CANCELLABLE then L3 else L4)
              (if cs \<noteq> [] then ''no ancestor planner is a legal replan boundary: '' @ rejections_text cs
               else ''the failed vertex has no ancestor planner'')" using d by simp
      then show ?thesis by blast
    next
      case (Some cd)
      then obtain c depth where "best = Some (c, depth)" by (cases cd) auto
      moreover from this d have "d = conclude ctx base cs c depth" by simp
      ultimately show ?thesis using w none 3(2,3) by blast
    qed
  qed
qed

lemma terminal_fields:
  "bd_selected (terminal ctx base level reason) = bd_selected base"
  "bd_shadowed (terminal ctx base level reason) = bd_shadowed base"
  "bd_failedVertexId (terminal ctx base level reason) = bd_failedVertexId base"
  by (simp_all add: terminal_def Let_def)

lemma base_fields [simp]:
  "bd_selected (base_decision events v n) = None" "bd_requestScopes (base_decision events v n) = []"
  "bd_awaitedScopes (base_decision events v n) = []" "bd_failedVertexId (base_decision events v n) = v"
  "bd_shadowed (base_decision events v n) = []" "bd_episode (base_decision events v n) = n"
  by (simp_all add: base_decision_def)

lemma context_fields [simp]:
  "dc_events (decision_context_of events v policy locked) = events"
  "dc_failedVertexId (decision_context_of events v policy locked) = v"
  "dc_policy (decision_context_of events v policy locked) = policy"
  "dc_scopes (decision_context_of events v policy locked) = scopeCancellations events"
  "dc_floor (decision_context_of events v policy locked) = backtrackFloor events"
  "dc_perPlanner (decision_context_of events v policy locked) = rh_perPlanner (replanHistory events)"
  "dc_failedAt (decision_context_of events v policy locked) = failureSeq events v"
  "dc_ownScope (decision_context_of events v policy locked) = scopeOf events v (scopeCancellations events)"
  "dc_locked (decision_context_of events v policy locked) = locked"
  by (simp_all add: decision_context_of_def Let_def)

lemma sorted_set_Nil: "sort (new_set xs) = [] \<longleftrightarrow> xs = []"
  by (metis set_sort set_new_set set_empty)

lemma conclude_selected:
  assumes "bd_selected (conclude ctx base cs c depth) = Some b" "bd_selected base = None"
  shows "b = bc_planner_vertex_id c" "nullish (bc_requires_cancel c) [] = []" "runBlocks ctx = []"
    "bd_action (conclude ctx base cs c depth) = ActRecord" "bd_selectedSeq (conclude ctx base cs c depth) = Some (bc_planner_seq c)"
    "bd_shadowed (conclude ctx base cs c depth) = shadowSet (dc_events ctx) b"
    "bd_candidates (conclude ctx base cs c depth) = cs" "bd_estimatedCost (conclude ctx base cs c depth) = bc_cost c"
  using assms by (auto simp: conclude_def Let_def sorted_set_Nil split: if_splits)

text \<open>The selected boundary, traced back to the comparison.\<close>

lemma selectBoundary_selected:
  assumes "selectBoundary events v policy locked = Inr d" "bd_selected d = Some b"
    and ctx: "ctx = decision_context_of events v policy locked"
  obtains view cs c p pre post where
    "\<not> ruleAuthored events v" "rh_episode (replanHistory events) < rp_maxReplansPerEpisode policy"
    "\<forall>s\<in>snd ` set (scopeCancellations events). sc_phase s \<noteq> PhSuspended" "runBlocks ctx = []"
    "list_all2 (\<lambda>p c. candidate_for ctx view p = Inr c) (ancestorPlanners events v) cs"
    "zip (ancestorPlanners events v) cs = pre @ (p, c) # post" "b = bc_planner_vertex_id c" "bc_rejected c = None"
    "nullish (bc_requires_cancel c) [] = []"
    "\<forall>(p', c')\<in>set pre. bc_rejected c' = None \<longrightarrow> the (bc_cost c) < the (bc_cost c')"
    "\<forall>(p', c')\<in>set post. bc_rejected c' = None \<longrightarrow> the (bc_cost c) \<le> the (bc_cost c')"
    "bd_action d = ActRecord" "bd_selectedSeq d = Some (bc_planner_seq c)" "bd_shadowed d = shadowSet events b"
    "bd_candidates d = cs" "bd_estimatedCost d = bc_cost c"
proof -
  let ?base = "base_decision events v (rh_episode (replanHistory events))"
  have "bd_selected (?base\<lparr>bd_action := ActWait, bd_awaitedScopes := ks, bd_reason := reason\<rparr>) = None"
    "bd_selected (terminal ctx (?base\<lparr>bd_candidates := cs\<rparr>) level reason) = None" for ks reason cs level
    by (simp_all add: terminal_fields)
  then obtain view cs c depth where sel: "\<not> ruleAuthored events v"
    "rh_episode (replanHistory events) < rp_maxReplansPerEpisode policy"
    "\<forall>s\<in>snd ` set (scopeCancellations events). sc_phase s \<noteq> PhSuspended"
    "weigh ctx view (ancestorPlanners events v) [] None = Inr (cs, Some (c, depth))" "d = conclude ctx ?base cs c depth"
    using selectBoundary_cases [OF assms(1) ctx refl] assms(2) by (metis option.distinct(1))
  note con = conclude_selected [OF assms(2) [unfolded sel(5)], folded sel(5)]
  have "best_of (zip [] []) None" by (simp add: best_of_def)
  from weigh_Inr [OF sel(4) _ this] have w: "list_all2 (\<lambda>p c. candidate_for ctx view p = Inr c) (ancestorPlanners events v) cs"
    "best_of (zip (ancestorPlanners events v) cs) (Some (c, depth))" by auto
  then obtain pre p post where "zip (ancestorPlanners events v) cs = pre @ (p, c) # post" "bc_rejected c = None"
    "\<forall>(p', c')\<in>set pre. bc_rejected c' = None \<longrightarrow> the (bc_cost c) < the (bc_cost c')"
    "\<forall>(p', c')\<in>set post. bc_rejected c' = None \<longrightarrow> the (bc_cost c) \<le> the (bc_cost c')"
    by (auto simp: best_of_def)
  then show ?thesis using that [of view cs pre p c post] sel(1-3) w(1) con ctx by simp
qed

lemma sort_Nil_iff: "sort xs = [] \<longleftrightarrow> xs = []"
  by (metis set_sort set_empty)

lemma set_touchedScopes:
  "set (touchedScopes events b scopes) =
     {s \<in> snd ` set scopes. sc_phase s \<noteq> Unmaterialized \<and> (\<exists>v\<in>set (sc_members s). v \<in> set (shadowSet events b))}"
  by (auto simp: touchedScopes_def Let_def)

lemma zip_middle:
  assumes "list_all2 P xs ys" "zip xs ys = pre @ (x, y) # later"
  shows "P x y" "x \<in> set xs" "y \<in> set ys"
proof -
  have "(x, y) \<in> set (zip xs ys)" using assms(2) by simp
  with assms(1) show "P x y" "x \<in> set xs" "y \<in> set ys" by (auto simp: list_all2_iff dest: set_zip_leftD set_zip_rightD)
qed

lemma list_all2_zip_mem: "length xs = length ys \<Longrightarrow> y \<in> set ys \<Longrightarrow> \<exists>x. (x, y) \<in> set (zip xs ys)"
  by (metis in_set_impl_in_set_zip2)

lemma selected_ancestor:
  assumes "selectBoundary events v policy locked = Inr d" "bd_selected d = Some b"
  obtains p where "p \<in> set (ancestorPlanners events v)" "resumable events v p" "pa_vertexId p = b"
    "bd_selectedSeq d = Some (pa_seq p)" "bd_shadowed d = shadowSet events b"
proof -
  obtain view cs c p pre later where
    cs: "list_all2 (\<lambda>p c. candidate_for (decision_context_of events v policy locked) view p = Inr c) (ancestorPlanners events v) cs"
    "zip (ancestorPlanners events v) cs = pre @ (p, c) # later" "b = bc_planner_vertex_id c"
    "bd_selectedSeq d = Some (bc_planner_seq c)" "bd_shadowed d = shadowSet events b"
    by (rule selectBoundary_selected [OF assms refl])
  have cand: "candidate_for (decision_context_of events v policy locked) view p = Inr c" "p \<in> set (ancestorPlanners events v)"
    using zip_middle [OF cs(1,2)] by auto
  then show ?thesis using that [of p] candidate_for_id [OF cand(1)] ancestorPlanners_resumable [OF cand(2)] cs(3-5) by simp
qed

text \<open>C16: a boundary the ladder selects is legal.  It is a planner that succeeded, the failed vertex itself
  or above it, at or after the last irreversible pivot; no rule authored the failed work; neither the
  episode nor the planner has used up its replans; every transaction scope holding a discarded vertex was
  never opened, is committed, or has completed its cancellation in the log; and no scope of the run is in
  a phase that would refuse the freeze.\<close>

theorem selectBoundary_legal:
  assumes "selectBoundary events v policy locked = Inr d" "bd_selected d = Some b"
  shows "bd_action d = ActRecord \<and>
    (\<exists>p. resumable events v p \<and> pa_vertexId p = b \<and> bd_selectedSeq d = Some (pa_seq p) \<and> backtrackFloor events \<le> pa_seq p) \<and>
    \<not> ruleAuthored events v \<and>
    rh_episode (replanHistory events) < rp_maxReplansPerEpisode policy \<and>
    nullish (map_get (rh_perPlanner (replanHistory events)) b) 0 < rp_maxReplansPerPlanner policy \<and>
    (\<forall>s\<in>snd ` set (scopeCancellations events). sc_phase s \<notin> TRANSIENT \<and> sc_phase s \<noteq> PhSuspended) \<and>
    (\<forall>s\<in>snd ` set (scopeCancellations events). (\<exists>w\<in>set (sc_members s). w \<in> set (bd_shadowed d)) \<longrightarrow>
       sc_phase s = Unmaterialized \<or>
       sc_phase s = PhCommitted \<and> (\<exists>e\<in>set events. commit_closed (sc_scopeId s) e) \<or>
       sc_phase s = PhCancelled \<and> (\<exists>e\<in>set events. cancel_closed (sc_scopeId s) e))"
proof -
  define ctx where "ctx = decision_context_of events v policy locked"
  obtain view cs c p pre later where sel: "\<not> ruleAuthored events v"
    "rh_episode (replanHistory events) < rp_maxReplansPerEpisode policy"
    "\<forall>s\<in>snd ` set (scopeCancellations events). sc_phase s \<noteq> PhSuspended" "runBlocks ctx = []"
    and cs: "list_all2 (\<lambda>p c. candidate_for ctx view p = Inr c) (ancestorPlanners events v) cs"
    "zip (ancestorPlanners events v) cs = pre @ (p, c) # later" "b = bc_planner_vertex_id c" "bc_rejected c = None"
    "nullish (bc_requires_cancel c) [] = []"
    and d: "bd_action d = ActRecord" "bd_selectedSeq d = Some (bc_planner_seq c)" "bd_shadowed d = shadowSet events b"
    by (rule selectBoundary_selected [OF assms ctx_def])
  have cand: "candidate_for ctx view p = Inr c" "p \<in> set (ancestorPlanners events v)" using zip_middle [OF cs(1,2)] by auto
  then have p: "pa_vertexId p = b" "pa_seq p = bc_planner_seq c" using candidate_for_id [OF cand(1)] cs(3) by auto
  have "verdictFor p ctx = Inr []" using candidate_for_selectable [OF cand(1) cs(4)] cs(5) by simp
  then have verdict: "backtrackFloor events \<le> pa_seq p"
    "\<forall>s\<in>set (touchedScopes events b (scopeCancellations events)). sc_phase s \<notin> UNRECOVERABLE"
    "nullish (map_get (rh_perPlanner (replanHistory events)) b) 0 < rp_maxReplansPerPlanner policy"
    "filter (\<lambda>s. sc_phase s \<in> CANCELLABLE) (touchedScopes events b (scopeCancellations events)) = []"
    unfolding verdictFor_Inr by (simp_all add: ctx_def p eq_commute [of "[]"] sort_Nil_iff)
  have transient: "sc_phase s \<notin> TRANSIENT" if "s \<in> snd ` set (scopeCancellations events)" for s
    using that sel(4) by (auto simp: runBlocks_def sorted_set_Nil ctx_def filter_empty_conv)
  have closed: "sc_phase s = Unmaterialized \<or> sc_phase s = PhCommitted \<or> sc_phase s = PhCancelled"
    if "s \<in> snd ` set (scopeCancellations events)" "\<exists>w\<in>set (sc_members s). w \<in> set (bd_shadowed d)" for s
  proof (cases "sc_phase s = Unmaterialized")
    case False
    then have "s \<in> set (touchedScopes events b (scopeCancellations events))" using that d(3) by (simp add: set_touchedScopes)
    then have "sc_phase s \<notin> UNRECOVERABLE \<union> CANCELLABLE" using verdict(2,4) by (auto simp: filter_empty_conv)
    then show ?thesis by (cases "sc_phase s") (auto simp: UNRECOVERABLE_def CANCELLABLE_def)
  qed simp
  have evidence: "scope_inv events (sc_scopeId s) s" if "s \<in> snd ` set (scopeCancellations events)" for s
    by (rule scopeCancellations_inv [OF scopeCancellations_values [OF that]])
  show ?thesis
    using d(1,2) sel(1-3) verdict(1,3) transient closed evidence ancestorPlanners_resumable [OF cand(2)] p
    unfolding scope_inv_def by metis
qed

text \<open>C17: the comparison is complete and the selected boundary is its cheapest entry.  The published
  candidates are exactly the ancestor planners in order, every selectable one has a price within the
  remaining budget, none is cheaper than the selected one, and every nearer selectable one is dearer.\<close>

theorem selectBoundary_cheapest:
  assumes "selectBoundary events v policy locked = Inr d" "bd_selected d = Some b"
  shows "map bc_planner_vertex_id (bd_candidates d) = map pa_vertexId (ancestorPlanners events v) \<and>
    (\<exists>pre c later k. bd_candidates d = pre @ c # later \<and> bc_planner_vertex_id c = b \<and> bc_rejected c = None \<and>
      bc_cost c = Some k \<and> bd_estimatedCost d = Some k \<and>
      (\<forall>x\<in>set pre. bc_rejected x = None \<longrightarrow> k < the (bc_cost x)) \<and>
      (\<forall>x\<in>set later. bc_rejected x = None \<longrightarrow> k \<le> the (bc_cost x))) \<and>
    (\<forall>x\<in>set (bd_candidates d). bc_rejected x = None \<longrightarrow> (\<exists>k. bc_cost x = Some k \<and>
      (\<forall>budget. rp_budgetRemaining policy = Some budget \<longrightarrow> k \<le> budget)))"
proof -
  define ctx where "ctx = decision_context_of events v policy locked"
  obtain view cs c p pre later where
    cs: "list_all2 (\<lambda>p c. candidate_for ctx view p = Inr c) (ancestorPlanners events v) cs"
    "zip (ancestorPlanners events v) cs = pre @ (p, c) # later" "b = bc_planner_vertex_id c" "bc_rejected c = None"
    and least: "\<forall>(p', c')\<in>set pre. bc_rejected c' = None \<longrightarrow> the (bc_cost c) < the (bc_cost c')"
    "\<forall>(p', c')\<in>set later. bc_rejected c' = None \<longrightarrow> the (bc_cost c) \<le> the (bc_cost c')"
    and d: "bd_candidates d = cs" "bd_estimatedCost d = bc_cost c"
    by (rule selectBoundary_selected [OF assms ctx_def])
  have "map bc_planner_vertex_id cs = map pa_vertexId (ancestorPlanners events v)"
    using cs(1) by (induction rule: list_all2_induct) (auto dest: candidate_for_id)
  moreover have priced: "\<exists>k. bc_cost x = Some k \<and> (\<forall>budget. rp_budgetRemaining policy = Some budget \<longrightarrow> k \<le> budget)"
    if x: "x \<in> set cs" "bc_rejected x = None" for x
  proof -
    obtain q where "(q, x) \<in> set (zip (ancestorPlanners events v) cs)"
      using list_all2_zip_mem [OF list_all2_lengthD [OF cs(1)] x(1)] by auto
    then have "candidate_for ctx view q = Inr x" using cs(1) by (auto simp: list_all2_iff)
    from candidate_for_selectable [OF this x(2)] show ?thesis by (simp add: ctx_def)
  qed
  moreover have split: "cs = map snd pre @ c # map snd later"
    using arg_cong [OF cs(2), of "map snd"] list_all2_lengthD [OF cs(1)] by simp
  moreover obtain k where "bc_cost c = Some k" using priced [of c] split cs(4) by auto
  moreover from this least have "\<forall>x\<in>set (map snd pre). bc_rejected x = None \<longrightarrow> k < the (bc_cost x)"
    "\<forall>x\<in>set (map snd later). bc_rejected x = None \<longrightarrow> k \<le> the (bc_cost x)" by fastforce+
  ultimately show ?thesis using d cs(3,4) by metis
qed

subsection \<open>The action of a decision\<close>

lemma conclude_request:
  "k \<in> set (bd_requestScopes (conclude ctx base cs c depth)) \<Longrightarrow> bd_requestScopes base = [] \<Longrightarrow>
     \<exists>s. map_get (dc_scopes ctx) k = Some s \<and> sc_phase s \<in> {PhOpen, PhFenced}"
  by (cases "map_get (dc_scopes ctx) k") (auto simp: conclude_def Let_def split: if_splits)

lemma conclude_action:
  assumes "bd_requestScopes base = []" "bd_awaitedScopes base = []" "bd_selected base = None"
  shows "(bd_action (conclude ctx base cs c depth) = ActRequest) = (bd_requestScopes (conclude ctx base cs c depth) \<noteq> [])"
    "(bd_action (conclude ctx base cs c depth) = ActWait) = (bd_awaitedScopes (conclude ctx base cs c depth) \<noteq> [])"
    "bd_selected (conclude ctx base cs c depth) = None \<or> bd_action (conclude ctx base cs c depth) = ActRecord"
    "bd_failedVertexId (conclude ctx base cs c depth) = bd_failedVertexId base"
  using assms by (simp_all add: conclude_def Let_def sorted_set_Nil)

lemma terminal_action:
  fixes ctx base level reason
  defines "d \<equiv> terminal ctx base level reason"
  assumes "bd_requestScopes base = []" "bd_awaitedScopes base = []" "bd_selected base = None"
  shows "(bd_action d = ActRequest) = (bd_requestScopes d \<noteq> [])" "(bd_action d = ActWait) = (bd_awaitedScopes d \<noteq> [])"
    "bd_selected d = None"
    "k \<in> set (bd_requestScopes d) \<Longrightarrow> \<exists>s. dc_ownScope ctx = Some s \<and> k = sc_scopeId s \<and> sc_phase s \<in> {PhOpen, PhFenced}"
  using assms unfolding d_def
  by (auto simp: terminal_def Let_def sorted_set_Nil split: if_splits)

lemma scopeOf_registered: "scopeOf events v (scopeCancellations events) = Some s \<Longrightarrow> map_get (scopeCancellations events) (sc_scopeId s) = Some s"
  using scopeCancellations_inv [of events _ s] by (auto simp: scopeOf_def scope_inv_def split: option.splits if_splits)

lemma selectBoundary_shape:
  assumes "selectBoundary events v policy locked = Inr d"
  shows "(bd_action d = ActRequest) = (bd_requestScopes d \<noteq> [])" "(bd_action d = ActWait) = (bd_awaitedScopes d \<noteq> [])"
    "bd_selected d \<noteq> None \<Longrightarrow> bd_action d = ActRecord" "bd_failedVertexId d = v"
    "k \<in> set (bd_requestScopes d) \<Longrightarrow> \<exists>s. map_get (scopeCancellations events) k = Some s \<and> sc_phase s \<in> {PhOpen, PhFenced}"
proof -
  define ctx where "ctx = decision_context_of events v policy locked"
  define base where "base = base_decision events v (rh_episode (replanHistory events))"
  have b: "bd_requestScopes base = []" "bd_awaitedScopes base = []" "bd_selected base = None" "bd_action base = ActRecord"
    "bd_failedVertexId base = v" by (simp_all add: base_def base_decision_def)
  consider (wait) ks reason where "ks \<noteq> []" "d = base\<lparr>bd_action := ActWait, bd_awaitedScopes := ks, bd_reason := reason\<rparr>"
    | (end_) cs level reason where "d = terminal ctx (base\<lparr>bd_candidates := cs\<rparr>) level reason"
    | (best) cs c depth where "d = conclude ctx base cs c depth"
    using selectBoundary_cases [OF assms ctx_def base_def] by blast
  then have "((bd_action d = ActRequest) = (bd_requestScopes d \<noteq> [])) \<and> ((bd_action d = ActWait) = (bd_awaitedScopes d \<noteq> [])) \<and>
    (bd_selected d \<noteq> None \<longrightarrow> bd_action d = ActRecord) \<and> bd_failedVertexId d = v \<and>
    (k \<in> set (bd_requestScopes d) \<longrightarrow> (\<exists>s. map_get (scopeCancellations events) k = Some s \<and> sc_phase s \<in> {PhOpen, PhFenced}))"
  proof cases
    case wait then show ?thesis using b by simp
  next
    case end_
    then show ?thesis
      using b terminal_action [where base = "base\<lparr>bd_candidates := cs\<rparr>" and ctx = ctx and level = level and reason = reason] scopeOf_registered [of events v]
      by (auto simp: terminal_fields ctx_def)
  next
    case best then show ?thesis using b conclude_action [of base ctx cs c depth] conclude_request [of k ctx base cs c depth] by (auto simp: ctx_def)
  qed
  then show "(bd_action d = ActRequest) = (bd_requestScopes d \<noteq> [])" "(bd_action d = ActWait) = (bd_awaitedScopes d \<noteq> [])"
    "bd_selected d \<noteq> None \<Longrightarrow> bd_action d = ActRecord" "bd_failedVertexId d = v"
    "k \<in> set (bd_requestScopes d) \<Longrightarrow> \<exists>s. map_get (scopeCancellations events) k = Some s \<and> sc_phase s \<in> {PhOpen, PhFenced}"
    by blast+
qed

text \<open>C18: a decision is well formed.  It asks for cancellations exactly when it names scopes to cancel, each
  of them open or fenced in the log; it waits exactly when it names scopes to await; it resumes at a planner only
  by recording a boundary; and whatever it is, it yields a batch of drafts, empty exactly for a wait, so
  the append never fails on a decision that contradicts itself.\<close>

theorem selectBoundary_well_formed:
  assumes "selectBoundary events v policy locked = Inr d"
  shows "(bd_action d = ActRequest \<longleftrightarrow> bd_requestScopes d \<noteq> []) \<and> (bd_action d = ActWait \<longleftrightarrow> bd_awaitedScopes d \<noteq> []) \<and>
    (bd_selected d \<noteq> None \<longrightarrow> bd_action d = ActRecord) \<and>
    (\<forall>k\<in>set (bd_requestScopes d). \<exists>s. map_get (scopeCancellations events) k = Some s \<and> sc_phase s \<in> {PhOpen, PhFenced}) \<and>
    (\<exists>drafts. decideRecovery events v policy locked = Inr (d, drafts) \<and> (drafts = [] \<longleftrightarrow> bd_action d = ActWait))"
proof -
  note shape = selectBoundary_shape [OF assms]
  have "\<exists>drafts. decideRecovery events v policy locked = Inr (d, drafts) \<and> (drafts = [] \<longleftrightarrow> bd_action d = ActWait)"
    using assms shape(1) by (cases "bd_action d") (auto simp: decideRecovery_def cancelRequestEvent_def replanEvents_def)
  then show ?thesis using shape by blast
qed

subsection \<open>A recorded decision answers its failure\<close>

lemma decideRecovery_record:
  assumes "decideRecovery events v policy locked = Inr (d, drafts)" "bd_action d = ActRecord"
  shows "selectBoundary events v policy locked = Inr d"
    "drafts = replanEvents d (failureEvidence events v (bd_shadowed d) (bd_cancelledScopes d))"
proof -
  obtain x where x: "selectBoundary events v policy locked = Inr x"
    using assms(1) unfolding decideRecovery_def bind_res_Inr by blast
  have "x = d \<and> drafts = replanEvents d (failureEvidence events v (bd_shadowed d) (bd_cancelledScopes d))"
    using assms x by (cases "bd_action x") (auto simp: decideRecovery_def bind_res_Inr)
  with x show "selectBoundary events v policy locked = Inr d"
    "drafts = replanEvents d (failureEvidence events v (bd_shadowed d) (bd_cancelledScopes d))" by simp_all
qed

lemma mem_map_filter: "x \<in> set xs \<Longrightarrow> f x = Some y \<Longrightarrow> y \<in> set (List.map_filter f xs)"
  by (induction xs) (auto simp: List.map_filter_def)

lemma answered_stallsI:
  "e \<in> set events \<Longrightarrow> event_type e = ReplanBoundary \<Longrightarrow> member (payload e) ''failed_vertex_id'' = JStr v \<Longrightarrow>
     v \<in> answered_stalls events"
  unfolding answered_stalls_def by (rule mem_map_filter [of e]) simp_all

lemma answered_not_stalled: "p \<in> answered_stalls events \<Longrightarrow> p \<notin> set (stalledPlanners events)"
proof -
  assume p: "p \<in> answered_stalls events"
  have "p \<notin> set xs \<Longrightarrow> p \<notin> set (stalled_step events xs e)" for xs e
    using p by (cases "as_string (member (payload e) ''planner_vertex_id'')") (auto simp: stalled_step_def)
  then have "p \<notin> set xs \<Longrightarrow> p \<notin> set (foldl (stalled_step events) xs es)" for xs es
    by (induction es arbitrary: xs) simp_all
  then show ?thesis by (simp add: stalledPlanners_def)
qed

lemma answered_not_unrecovered: "v \<in> answered_failures events \<Longrightarrow> v \<notin> set (unrecoveredFailures events)"
  by (auto simp: unrecoveredFailures_def)

lemma boundary_payload_members:
  "member (boundary_payload d ev) ''failed_vertex_id'' = JStr (bd_failedVertexId d)"
  "member (boundary_payload d ev) ''selected'' = js_null_or (bd_selected d)"
  by (simp_all add: boundary_payload_def member_def)

lemma shadow_payload_members: "stringArray (member (shadow_payload d) ''vertex_ids'') = bd_shadowed d"
  by (simp add: shadow_payload_def member_def)

lemma selected_present:
  assumes "resumable events v p" shows "present (Some (pa_vertexId p))"
  using assms by (auto simp: resumable_def succeeded_planner_def about_def)


subsection \<open>Witnesses\<close>

definition wit_failure_drafts :: "event_draft list" where
  "wit_failure_drafts =
     [(draft VertexCreated [(''role'', JStr ''planner'')])\<lparr>dr_vertex_id := Some ''p''\<rparr>,
      (draft VertexSucceeded [])\<lparr>dr_vertex_id := Some ''p''\<rparr>,
      (draft VertexCreated [(''role'', JStr ''tool''), (''tool'', JStr ''ship'')])\<lparr>dr_vertex_id := Some ''t'', dr_parent_refs := Some [''p'']\<rparr>,
      (draft VertexFailed [(''outcome'', JStr ''timeout'')])\<lparr>dr_vertex_id := Some ''t''\<rparr>]"

definition wit_failure :: "stored_event list" where
  "wit_failure = draft_rows (empty_database ''c'') ''r'' 1 wit_failure_drafts"

definition wit_policy :: recovery_policy where
  "wit_policy = DEFAULT_RECOVERY_POLICY
     \<lparr>lp_currency = ''USD'', lp_cache_hit_input_per_million = 0, lp_cache_miss_input_per_million = 1 / 4, lp_output_per_million = 1,
      lp_reference = ''list'', lp_tier = None\<rparr>"

definition wit_decision :: boundary_decision where
  "wit_decision = projr (selectBoundary wit_failure ''t'' wit_policy None)"

lemma wit_selects: "selectBoundary wit_failure ''t'' wit_policy None = Inr wit_decision"
  "bd_selected wit_decision = Some ''p''"
proof -
  have "\<not> isl (selectBoundary wit_failure ''t'' wit_policy None)" by code_simp
  then show "selectBoundary wit_failure ''t'' wit_policy None = Inr wit_decision"
    unfolding wit_decision_def by (cases "selectBoundary wit_failure ''t'' wit_policy None") auto
  show "bd_selected wit_decision = Some ''p''" by code_simp
qed

theorem selectBoundary_legal_witness:
  "bd_selected wit_decision = Some ''p'' \<and> bd_shadowed wit_decision = [''t''] \<and> bd_action wit_decision = ActRecord \<and>
   (\<exists>p. resumable wit_failure ''t'' p \<and> pa_vertexId p = ''p'' \<and> pa_seq p = 2)"
proof -
  have "bd_shadowed wit_decision = [''t''] \<and> bd_selectedSeq wit_decision = Some 2" by code_simp
  then show ?thesis using selectBoundary_legal [OF wit_selects] wit_selects(2) by auto
qed

theorem selectBoundary_cheapest_witness:
  "map bc_planner_vertex_id (bd_candidates wit_decision) = [''p''] \<and> (\<exists>k. bd_estimatedCost wit_decision = Some k)"
proof -
  have "map pa_vertexId (ancestorPlanners wit_failure ''t'') = [''p'']" by code_simp
  then show ?thesis using selectBoundary_cheapest [OF wit_selects] by auto
qed

theorem selectBoundary_well_formed_witness:
  "\<exists>drafts. decideRecovery wit_failure ''t'' wit_policy None = Inr (wit_decision, drafts) \<and> drafts \<noteq> []"
proof -
  have "bd_action wit_decision = ActRecord" by code_simp
  then show ?thesis using selectBoundary_well_formed [OF wit_selects(1)] by auto
qed


subsection \<open>A planner that stalls a second time\<close>

text \<open>
  The log of a planner whose turn was unreadable, which the ladder answered by resuming at that planner,
  and whose next turn was unreadable again.
\<close>

definition stall_draft :: event_draft where
  "stall_draft = draft SubgraphUnreadable [(''planner_vertex_id'', JStr ''p''), (''reason'', JStr ''not json'')]"

definition stall_log :: "stored_event list" where
  "stall_log = draft_rows (empty_database ''c'') ''r'' 1
     [(draft VertexCreated [(''role'', JStr ''planner'')])\<lparr>dr_vertex_id := Some ''p''\<rparr>,
      (draft VertexSucceeded [])\<lparr>dr_vertex_id := Some ''p''\<rparr>, stall_draft]"

definition stall_answer :: "boundary_decision \<times> event_draft list" where
  "stall_answer = projr (decideRecovery stall_log ''p'' wit_policy None)"

definition second_stall_log :: "stored_event list" where
  "second_stall_log = stall_log @ draft_rows (empty_database ''c'') ''r'' 4 (snd stall_answer @ [stall_draft])"

text \<open>C20: a second stall of the same planner is never seen.  The first unreadable turn is outstanding, and the
  ladder answers it by resuming at the planner; when that turn is unreadable too, nothing is outstanding
  although no replan follows the second refusal and the planner has replans left, so the run stops with
  neither a retry nor an escalation.\<close>

theorem second_stall_unseen:
  "outstanding stall_log = [''p''] \<and> decideRecovery stall_log ''p'' wit_policy None = Inr stall_answer \<and>
   bd_selected (fst stall_answer) = Some ''p'' \<and>
   member (payload (last second_stall_log)) ''planner_vertex_id'' = JStr ''p'' \<and>
   event_type (last second_stall_log) = SubgraphUnreadable \<and>
   rh_episode (replanHistory second_stall_log) < rp_maxReplansPerEpisode wit_policy \<and>
   nullish (map_get (rh_perPlanner (replanHistory second_stall_log)) ''p'') 0 < rp_maxReplansPerPlanner wit_policy \<and>
   outstanding second_stall_log = []"
proof -
  have "\<not> isl (decideRecovery stall_log ''p'' wit_policy None)" by code_simp
  then have "decideRecovery stall_log ''p'' wit_policy None = Inr stall_answer"
    unfolding stall_answer_def by (cases "decideRecovery stall_log ''p'' wit_policy None") auto
  moreover have "outstanding stall_log = [''p'']" by code_simp
  moreover have "bd_selected (fst stall_answer) = Some ''p''" by code_simp
  moreover have "member (payload (last second_stall_log)) ''planner_vertex_id'' = JStr ''p''"
    "event_type (last second_stall_log) = SubgraphUnreadable" by code_simp+
  moreover have "rh_episode (replanHistory second_stall_log) < rp_maxReplansPerEpisode wit_policy"
    "nullish (map_get (rh_perPlanner (replanHistory second_stall_log)) ''p'') 0 < rp_maxReplansPerPlanner wit_policy" by code_simp+
  moreover have "outstanding second_stall_log = []" by code_simp
  ultimately show ?thesis by simp
qed

end
