(* ===== verification/Submission.thy ===== *)
theory Submission
  imports Workflow Event_Store
begin

text \<open>
  Workflow submission (engine/src/admission/submission.ts): the proposal a submission records, the
  resolution check, the decision taken under the scope lock, and the freeze or the rejection that
  ends it.  A step that throws keeps what was committed before it, so an operation is a function of
  the database that returns its result or error together with the database it leaves.
\<close>

section \<open>Operations on the database\<close>

type_synonym 'a store_op = "database \<Rightarrow> 'a res \<times> database"

text \<open>A store transaction commits when it returns and leaves the database alone when it throws.\<close>

definition transaction :: "(database \<Rightarrow> ('a \<times> database) res) \<Rightarrow> 'a store_op" where
  "transaction f db = (case f db of Inl e \<Rightarrow> (Inl e, db) | Inr (x, db') \<Rightarrow> (Inr x, db'))"

definition pure_op :: "'a res \<Rightarrow> 'a store_op" where
  "pure_op r db = (r, db)"

definition bind_op :: "'a store_op \<Rightarrow> ('a \<Rightarrow> 'b store_op) \<Rightarrow> 'b store_op" where
  "bind_op f g db = (case f db of (Inl e, db') \<Rightarrow> (Inl e, db') | (Inr x, db') \<Rightarrow> g x db')"

lemma bind_op_simps [simp]:
  "f db = (Inl e, db') \<Longrightarrow> bind_op f g db = (Inl e, db')"
  "f db = (Inr x, db') \<Longrightarrow> bind_op f g db = g x db'"
  by (simp_all add: bind_op_def)

section \<open>Data\<close>

datatype rejection_stage = StageResolution | StageRegistry | StageAdmission

definition stage_str :: "rejection_stage \<Rightarrow> string" where
  "stage_str s = (case s of StageResolution \<Rightarrow> ''resolution'' | StageRegistry \<Rightarrow> ''registry'' | StageAdmission \<Rightarrow> ''admission'')"

datatype submission_result =
    Accepted (res_proposedSeq: nat) (res_frozenSeq: nat) (res_vertexIds: "(string, string) js_map")
  | Rejected (res_proposedSeq: nat) (res_rejectedSeq: nat) (res_stage: rejection_stage) (res_violations: "check_violation list")

definition REGISTRY_RULES :: "rule_code set" where
  "REGISTRY_RULES = {R4, R6}"

record rule_resolver =
  tr_resolve :: "string \<Rightarrow> published_rule_template option"
  tr_resolveSlot :: "string \<Rightarrow> published_rule_template option"

record bound_router =
  bo_template :: "published_rule_template option"
  bo_binding :: router_binding

section \<open>The checks\<close>

definition resolutionViolations :: "workflow_submission \<Rightarrow> resolved_tool_view \<Rightarrow> check_violation list" where
  "resolutionViolations w resolved =
     List.map_filter (\<lambda>v. case sv_body v of
         ToolBody t _ _ _ \<Rightarrow>
           if registry_has (rv_registry resolved) t then None
           else Some (violation R13 (sv_id v @ '' names '' @ t @ '', absent from this run's role-scoped tool view'') [sv_id v])
       | _ \<Rightarrow> None) (ws_vertices w)"

definition business_key :: "resolved_tool_view \<Rightarrow> submitted_vertex \<Rightarrow> string option" where
  "business_key resolved v =
     (case sv_body v of
        ToolBody t input key _ \<Rightarrow>
          (case map_get (contracts_of resolved) t of
             None \<Rightarrow> None
           | Some contract \<Rightarrow> (case baseIdempotencyKey (sv_id v) input key contract of Inl _ \<Rightarrow> None | Inr k \<Rightarrow> k))
      | _ \<Rightarrow> None)"

definition businessKeys :: "workflow_submission \<Rightarrow> resolved_tool_view \<Rightarrow> string list" where
  "businessKeys w resolved = List.map_filter (business_key resolved) (ws_vertices w)"

definition router_template :: "rule_resolver option \<Rightarrow> string option \<Rightarrow> string option \<Rightarrow> published_rule_template option" where
  "router_template templates templateRef slotId =
     (if present templateRef then Option.bind templates (\<lambda>t. tr_resolve t (the templateRef))
      else if present slotId then Option.bind templates (\<lambda>t. tr_resolveSlot t (the slotId))
      else None)"

definition bindRouters ::
    "(string \<Rightarrow> string) \<Rightarrow> rule_resolver option \<Rightarrow> workflow_submission \<Rightarrow> router_placement \<Rightarrow> (string, bound_router) js_map" where
  "bindRouters sha256 templates w placement =
     (let slots = routerSlotIds sha256 w in
      foldl (\<lambda>bound v. case sv_body v of
          RouterBody templateRef \<Rightarrow>
            (let template = router_template templates templateRef (map_get slots (sv_id v)) in
             map_set (sv_id v) \<lparr>bo_template = template,
               bo_binding = \<lparr>bi_placement = placement, bi_pinVersion = map_option pt_digest template\<rparr>\<rparr> bound)
        | _ \<Rightarrow> bound) [] (ws_vertices w))"

definition router_violations ::
    "resolved_tool_view \<Rightarrow> scope_snapshot list \<Rightarrow> bool \<Rightarrow> string \<times> bound_router \<Rightarrow> check_violation list res" where
  "router_violations resolved scopes isCounterfactual entry =
     (case bo_template (snd entry) of
        None \<Rightarrow> Inr []
      | Some template \<Rightarrow>
          bind_res (checkFreezeAdmission (pt_branches template)
            \<lparr>sp_placement = bi_placement (bo_binding (snd entry)), sp_isReadOnlyContext = isCounterfactual,
             sp_roleToolView = rv_registry resolved\<rparr> scopes) (\<lambda>outcome.
          Inr (map (\<lambda>v. v\<lparr>cv_message := fst entry @ '' pins '' @ pt_templateRef template @ '': '' @ cv_message v\<rparr>)
                 (cr_violations outcome))))"

definition admissionViolations ::
    "(string, bound_router) js_map \<Rightarrow> resolved_tool_view \<Rightarrow> scope_snapshot list \<Rightarrow> bool \<Rightarrow> check_violation list res" where
  "admissionViolations bound resolved scopes isCounterfactual =
     bind_res (map_res (router_violations resolved scopes isCounterfactual) bound) (\<lambda>vss. Inr (concat vss))"

section \<open>The events\<close>

definition source_str :: "submission_source option \<Rightarrow> string" where
  "source_str s = (case s of Some FromRouter \<Rightarrow> ''router'' | _ \<Rightarrow> ''submitted'')"

definition proposed_draft :: "(string \<Rightarrow> string) \<Rightarrow> workflow_submission \<Rightarrow> normalized_workflow \<Rightarrow> resolved_tool_view \<Rightarrow> event_draft" where
  "proposed_draft sha256 submission nw resolved =
     draft SubgraphProposed
       [(''tool_view_ref'', JStr (vi_tool_view_ref (rv_identity resolved))),
        (''tool_view_digest'', JStr (vi_tool_view_digest (rv_identity resolved))),
        (''submission_id'', JStr (ws_submissionId submission)),
        (''submission_digest'', JStr (submissionDigest sha256 submission)),
        (''source'', JStr (source_str (ws_source submission))),
        (''vertex_count'', num (length (ws_vertices (nw_workflow nw)))),
        (''interposed_routers'', JArr (map JStr (nw_interposed nw)))]"

definition frozen_draft :: "nat \<Rightarrow> workflow_submission \<Rightarrow> resolved_tool_view \<Rightarrow> compiled_subgraph \<Rightarrow> event_draft" where
  "frozen_draft proposedSeq w resolved compiled =
     draft SubgraphFrozen
       [(''proposed_seq'', num proposedSeq),
        (''tool_view_ref'', JStr (vi_tool_view_ref (rv_identity resolved))),
        (''tool_view_digest'', JStr (vi_tool_view_digest (rv_identity resolved))),
        (''vertices'', JArr (map (\<lambda>v. JObj [(''author_id'', JStr (sv_id v)),
            (''vertex_id'', JStr (nullish (map_get (cs_vertexIds compiled) (sv_id v)) [])),
            (''role'', JStr (kind_str (sv_kind v)))]) (ws_vertices w))),
        (''scopes'', JArr (map (\<lambda>(authorId, scopeId). JObj [(''author_id'', JStr authorId), (''scope_id'', JStr scopeId)])
            (cs_scopeIds compiled)))]"

definition violation_json :: "check_violation \<Rightarrow> js" where
  "violation_json v = JObj [(''rule'', JStr (rule_str (cv_rule v))), (''message'', JStr (cv_message v)),
     (''vertices'', JArr (map JStr (cv_vertices v)))]"

definition rejected_draft :: "nat \<Rightarrow> rejection_stage \<Rightarrow> check_violation list \<Rightarrow> event_draft" where
  "rejected_draft proposedSeq stage vs =
     draft SubgraphRejected
       [(''proposed_seq'', num proposedSeq), (''stage'', JStr (stage_str stage)), (''violations'', JArr (map violation_json vs))]"

section \<open>The decision under the lock\<close>

text \<open>A refusal, or the events to freeze with the ids they gave the vertices.\<close>

type_synonym freeze_decision = "(rejection_stage \<times> check_violation list) + (event_draft list \<times> (string, string) js_map)"

definition decide_freeze ::
    "(string \<Rightarrow> string) \<Rightarrow> rule_resolver option \<Rightarrow> (nat \<Rightarrow> string) \<Rightarrow> workflow_submission \<Rightarrow> resolved_tool_view \<Rightarrow> nat \<Rightarrow>
     run_admission_context \<Rightarrow> freeze_decision res" where
  "decide_freeze sha256 templates newId w resolved proposedSeq context =
     (let runtime = checkScopeAdmission (ac_scopes context) in
      if \<not> cr_accepted runtime then Inr (Inl (StageAdmission, cr_violations runtime))
      else
        bind_res (checkSubDag (lowerToProposal w) (rv_registry resolved) (ac_scopes context)) (\<lambda>result.
        if \<not> cr_accepted result
        then Inr (Inl (if \<forall>v\<in>set (cr_violations result). cv_rule v \<in> REGISTRY_RULES then StageRegistry else StageAdmission,
                       cr_violations result))
        else
          (let bound = bindRouters sha256 templates w (derivePlacement (ac_scopes context)) in
           bind_res (admissionViolations bound resolved (ac_scopes context) (ac_isCounterfactual context)) (\<lambda>branchViolations.
           if branchViolations \<noteq> [] then Inr (Inl (StageAdmission, branchViolations))
           else
             bind_res (compileVertexDrafts sha256 w resolved (map (\<lambda>(a, r). (a, bo_binding r)) bound) newId (ac_brackets context))
               (\<lambda>compiled. Inr (Inr (frozen_draft proposedSeq w resolved compiled # cs_drafts compiled, cs_vertexIds compiled)))))))"

definition decided_events :: "freeze_decision \<Rightarrow> event_draft list option" where
  "decided_events d = (case d of Inl _ \<Rightarrow> None | Inr (events, _) \<Rightarrow> Some events)"

section \<open>Submission\<close>

text \<open>
  \<open>newId\<close> generates the ids of one freeze, \<open>resolveToolView\<close> is what the gateway answers under the
  caller's authorization.
\<close>

definition appendOne :: "validator \<Rightarrow> guard \<Rightarrow> string \<Rightarrow> event_draft \<Rightarrow> nat store_op" where
  "appendOne validateSchema guard runId d =
     bind_op (transaction (appendEvents validateSchema guard runId [d])) (\<lambda>seqs. pure_op (Inr (hd seqs)))"

definition reject ::
    "validator \<Rightarrow> guard \<Rightarrow> string \<Rightarrow> nat \<Rightarrow> rejection_stage \<Rightarrow> check_violation list \<Rightarrow> submission_result store_op" where
  "reject validateSchema guard runId proposedSeq stage vs =
     bind_op (appendOne validateSchema guard runId (rejected_draft proposedSeq stage vs)) (\<lambda>rejectedSeq.
     pure_op (Inr (Rejected proposedSeq rejectedSeq stage vs)))"

text \<open>
  The locked transaction and what follows it.  The decision the transaction took is the one it
  computed from the context it read, which is the value the closure leaves in its variables.
\<close>

definition freeze_or_reject ::
    "(string \<Rightarrow> string) \<Rightarrow> validator \<Rightarrow> guard \<Rightarrow> rule_resolver option \<Rightarrow> (nat \<Rightarrow> string) \<Rightarrow> string \<Rightarrow> workflow_submission \<Rightarrow>
     resolved_tool_view \<Rightarrow> nat \<Rightarrow> submission_result store_op" where
  "freeze_or_reject sha256 validateSchema guard templates newId runId w resolved proposedSeq db =
     (let keys = businessKeys w resolved;
          decide = decide_freeze sha256 templates newId w resolved proposedSeq in
      bind_op (transaction (freezeUnderScopeLock Engine validateSchema guard runId
                 (\<lambda>context. map_sum id decided_events (decide context)) keys)) (\<lambda>sequences.
      bind_op (pure_op (decide (readAdmissionContextWith db runId keys))) (\<lambda>decision.
      case decision of
        Inl (stage, vs) \<Rightarrow> reject validateSchema guard runId proposedSeq stage vs
      | Inr (events, vertexIds) \<Rightarrow> pure_op (Inr (Accepted proposedSeq (hd (the sequences)) vertexIds)))) db)"

definition submit ::
    "(string \<Rightarrow> string) \<Rightarrow> validator \<Rightarrow> guard \<Rightarrow> rule_resolver option \<Rightarrow> (nat \<Rightarrow> string) \<Rightarrow> resolved_tool_view res \<Rightarrow>
     string \<Rightarrow> workflow_submission \<Rightarrow> submission_result store_op" where
  "submit sha256 validateSchema guard templates newId resolveToolView runId submission =
     bind_op (pure_op (normalizeWorkflow submission)) (\<lambda>nw.
     bind_op (pure_op resolveToolView) (\<lambda>resolved.
     bind_op (appendOne validateSchema guard runId (proposed_draft sha256 submission nw resolved)) (\<lambda>proposedSeq.
     let unresolvable = resolutionViolations (nw_workflow nw) resolved in
     if unresolvable \<noteq> [] then reject validateSchema guard runId proposedSeq StageResolution unresolvable
     else freeze_or_reject sha256 validateSchema guard templates newId runId (nw_workflow nw) resolved proposedSeq)))"

end
