(* ===== verification/Router.thy ===== *)
theory Router
  imports Submission
begin

text \<open>
  Routers (engine/src/router/router.ts, router-executor.ts): the conditions of a rule, their
  evaluation against the summary fields of the upstream tools, the first matching branch, and the
  executor that starts a router vertex, submits its branch and ends it.  Numbers are exact
  rationals; the literal \<open>Infinity\<close> is the one number outside them.
\<close>

section \<open>Literals\<close>

datatype literal = Lit js | Infinite bool

definition digits_value :: "nat \<Rightarrow> (char \<Rightarrow> nat) \<Rightarrow> string \<Rightarrow> nat" where
  "digits_value base value s = foldl (\<lambda>n c. base * n + value c) 0 s"

definition char_value :: "char \<Rightarrow> nat" where
  "char_value c = (let n = of_char c :: nat in if is_digit c then n - 48 else if 97 \<le> n then n - 87 else n - 55)"

definition digit_of_base :: "nat \<Rightarrow> char \<Rightarrow> bool" where
  "digit_of_base base c = ((is_digit c \<or> is_alpha c) \<and> char_value c < base)"

text \<open>The exponent behind the digits: none, or \<open>e\<close> with an optional sign and digits to the end.\<close>

definition exponent_of :: "string \<Rightarrow> int option" where
  "exponent_of s =
     (case s of
        [] \<Rightarrow> Some 0
      | c # cs \<Rightarrow>
          if c \<noteq> CHR ''e'' \<and> c \<noteq> CHR ''E'' then None
          else
            (let negative = startsWith cs ''-''; ds = (if negative \<or> startsWith cs ''+'' then tl cs else cs) in
             if ds = [] \<or> \<not> list_all is_digit ds then None
             else Some ((if negative then -1 else 1) * int (digits_value 10 char_value ds))))"

definition scale10 :: "rat \<Rightarrow> int \<Rightarrow> rat" where
  "scale10 r e = (if 0 \<le> e then r * 10 ^ nat e else r / 10 ^ nat (- e))"

definition unsigned_number :: "string \<Rightarrow> literal option" where
  "unsigned_number s =
     (if s = ''Infinity'' then Some (Infinite True)
      else
        (let whole = takeWhile is_digit s; rest = dropWhile is_digit s;
             fraction = (if startsWith rest ''.'' then takeWhile is_digit (tl rest) else []);
             behind = (if startsWith rest ''.'' then dropWhile is_digit (tl rest) else rest) in
         if whole = [] \<and> fraction = [] then None
         else map_option (\<lambda>e. Lit (JNum (scale10 (of_nat (digits_value 10 char_value (whole @ fraction))) (e - int (length fraction)))))
                (exponent_of behind)))"

definition negate_literal :: "literal \<Rightarrow> literal" where
  "negate_literal l = (case l of Lit (JNum r) \<Rightarrow> Lit (JNum (- r)) | Lit v \<Rightarrow> Lit v | Infinite b \<Rightarrow> Infinite (\<not> b))"

definition based_number :: "nat \<Rightarrow> string \<Rightarrow> literal option" where
  "based_number base ds =
     (if ds = [] \<or> \<not> list_all (digit_of_base base) ds then None else Some (Lit (JNum (of_nat (digits_value base char_value ds)))))"

text \<open>\<open>Number(text)\<close> of a text that is not blank; None is \<open>NaN\<close>.\<close>

definition js_number :: "string \<Rightarrow> literal option" where
  "js_number s =
     (let prefix = map lower_char (take 2 s) in
      if prefix = ''0x'' then based_number 16 (drop 2 s)
      else if prefix = ''0o'' then based_number 8 (drop 2 s)
      else if prefix = ''0b'' then based_number 2 (drop 2 s)
      else if startsWith s ''-'' then map_option negate_literal (unsigned_number (tl s))
      else if startsWith s ''+'' then unsigned_number (tl s)
      else unsigned_number s)"

definition quoted :: "char \<Rightarrow> string \<Rightarrow> bool" where
  "quoted q s = (2 \<le> length s \<and> hd s = q \<and> last s = q)"

definition parseLiteral :: "string \<Rightarrow> literal res" where
  "parseLiteral s =
     (if quoted CHR 0x22 s \<or> quoted CHR 0x27 s then Inr (Lit (JStr (butlast (tl s))))
      else if s = ''true'' then Inr (Lit (JBool True))
      else if s = ''false'' then Inr (Lit (JBool False))
      else if s = ''null'' then Inr (Lit JNull)
      else if list_all is_space s then Inl (Error (''unsupported literal '' @ s))
      else case js_number s of Some l \<Rightarrow> Inr l | None \<Rightarrow> Inl (Error (''unsupported literal '' @ s)))"

section \<open>Comparisons\<close>

definition js_typeof :: "js \<Rightarrow> string" where
  "js_typeof v = (case v of JUndef \<Rightarrow> ''undefined'' | JBool _ \<Rightarrow> ''boolean'' | JNum _ \<Rightarrow> ''number'' | JStr _ \<Rightarrow> ''string'' | _ \<Rightarrow> ''object'')"

definition literal_typeof :: "literal \<Rightarrow> string" where
  "literal_typeof l = (case l of Lit v \<Rightarrow> js_typeof v | Infinite _ \<Rightarrow> ''number'')"

definition number_less :: "rat \<Rightarrow> literal \<Rightarrow> bool" where
  "number_less a l = (case l of Lit (JNum b) \<Rightarrow> a < b | Lit _ \<Rightarrow> False | Infinite pos \<Rightarrow> pos)"

definition number_equal :: "rat \<Rightarrow> literal \<Rightarrow> bool" where
  "number_equal a l = (l = Lit (JNum a))"

text \<open>\<open>left\<close> comes out of a JSON payload, so it is never infinite.\<close>

definition compare :: "js \<Rightarrow> string \<Rightarrow> literal \<Rightarrow> bool res" where
  "compare left operator right =
     (if operator = ''=='' then Inr (right = Lit left)
      else if operator = ''!='' then Inr (right \<noteq> Lit left)
      else case left of
        JNum a \<Rightarrow>
          if literal_typeof right \<noteq> ''number''
          then Inl (Error (''operator '' @ operator @ '' requires numbers, got number and '' @ literal_typeof right))
          else Inr (if operator = ''<'' then number_less a right
                    else if operator = ''<='' then number_less a right \<or> number_equal a right
                    else if operator = ''>'' then \<not> (number_less a right \<or> number_equal a right)
                    else \<not> number_less a right)
      | _ \<Rightarrow> Inl (Error (''operator '' @ operator @ '' requires numbers, got '' @ js_typeof left @ '' and '' @ literal_typeof right)))"

section \<open>Reading a clause\<close>

definition is_line_end :: "char \<Rightarrow> bool" where
  "is_line_end c = (c = CHR 0x0A \<or> c = CHR 0x0D)"

definition trim_end :: "string \<Rightarrow> string" where
  "trim_end s = rev (dropWhile is_space (rev s))"

text \<open>
  \<open>\s*(.+?)\s*$\<close>: the rest without the space around it, which may hold no line end.  When the rest is
  blank the greedy \<open>\s*\<close> gives one character back, the last that is no line end.
\<close>

definition literal_of :: "string \<Rightarrow> string option" where
  "literal_of r =
     (let s = trim_end (dropWhile is_space r) in
      if s \<noteq> [] then (if list_ex is_line_end s then None else Some s)
      else case filter (\<lambda>c. \<not> is_line_end c) r of [] \<Rightarrow> None | cs \<Rightarrow> Some [last cs])"

definition OPERATORS :: "string list" where
  "OPERATORS = [''=='', ''!='', ''<='', ''>='', ''<'', ''>'']"

text \<open>The operator is the first alternative that leaves a literal behind it.\<close>

fun match_operator :: "string list \<Rightarrow> string \<Rightarrow> (string \<times> string) option" where
  "match_operator [] s = None"
| "match_operator (opr # ops) s =
     (if startsWith s opr
      then (case literal_of (drop (length opr) s) of Some l \<Rightarrow> Some (opr, l) | None \<Rightarrow> match_operator ops s)
      else match_operator ops s)"

text \<open>
  \<open>COMPARISON\<close>: tool, path, operator and literal of a clause.  A shorter tool part than the longest leaves
  the same text behind the path, or a \<open>-\<close> that is no operator, so the search never has to return to it.
\<close>

definition COMPARISON :: "string \<Rightarrow> (string \<times> string \<times> string \<times> string) option" where
  "COMPARISON clause =
     (case match_field (dropWhile is_space clause) of
        None \<Rightarrow> None
      | Some (tool, path, rest) \<Rightarrow>
          map_option (\<lambda>(opr, l). (tool, path, opr, l)) (match_operator OPERATORS (dropWhile is_space rest)))"

section \<open>Evaluation\<close>

type_synonym router_facts = "(string, json_object) js_map"

text \<open>A property of an object or an element of an array.\<close>

definition js_property :: "js \<Rightarrow> string \<Rightarrow> js" where
  "js_property v segment =
     (case v of
        JObj ob \<Rightarrow> member ob segment
      | JArr xs \<Rightarrow>
          if segment = ''length'' then num (length xs)
          else (case find (\<lambda>(i, x). nat_str i = segment) (enumerate 0 xs) of None \<Rightarrow> JUndef | Some (i, x) \<Rightarrow> x)
      | _ \<Rightarrow> JUndef)"

definition readPath :: "json_object \<Rightarrow> string \<Rightarrow> js" where
  "readPath facts path =
     (if map_of facts path \<noteq> None then member facts path
      else foldl js_property (JObj facts) (js_split CHR ''.'' path))"

definition js_trim :: "string \<Rightarrow> string" where
  "js_trim s = trim_end (dropWhile is_space s)"

definition evaluateComparison :: "string \<Rightarrow> router_facts \<Rightarrow> bool res" where
  "evaluateComparison clause facts =
     (case COMPARISON clause of
        None \<Rightarrow> Inl (Error (''cannot parse condition clause '' @ [CHR 0x22] @ js_trim clause @ [CHR 0x22]))
      | Some (toolId, path, operator, l) \<Rightarrow>
          (case map_get facts toolId of
             None \<Rightarrow> Inl (Error (''condition reads '' @ toolId @ '', which produced no summary fields upstream''))
           | Some produced \<Rightarrow>
               (let value = readPath produced path in
                if value = JUndef then Inl (Error (toolId @ '' did not report the summary field '' @ path))
                else bind_res (parseLiteral l) (compare value operator))))"

text \<open>\<open>split\<close> at a doubled character, \<open>every\<close> and \<open>some\<close> with a predicate that may throw.\<close>

fun split_pair :: "char \<Rightarrow> string \<Rightarrow> string list" where
  "split_pair c [] = [[]]"
| "split_pair c [x] = [[x]]"
| "split_pair c (x # y # xs) =
     (if x = c \<and> y = c then [] # split_pair c xs
      else case split_pair c (y # xs) of [] \<Rightarrow> [[x]] | p # ps \<Rightarrow> (x # p) # ps)"

fun every_res :: "('a \<Rightarrow> bool res) \<Rightarrow> 'a list \<Rightarrow> bool res" where
  "every_res f [] = Inr True"
| "every_res f (x # xs) = bind_res (f x) (\<lambda>b. if b then every_res f xs else Inr False)"

fun some_res :: "('a \<Rightarrow> bool res) \<Rightarrow> 'a list \<Rightarrow> bool res" where
  "some_res f [] = Inr False"
| "some_res f (x # xs) = bind_res (f x) (\<lambda>b. if b then Inr True else some_res f xs)"

definition evaluateCondition :: "string \<Rightarrow> router_facts \<Rightarrow> bool res" where
  "evaluateCondition condition facts =
     some_res (\<lambda>disjunct. every_res (\<lambda>clause. evaluateComparison clause facts) (split_pair CHR ''&'' disjunct))
       (split_pair CHR ''|'' condition)"

datatype router_outcome =
    Matched nat string sub_dag_proposal
  | NoMatch
  | EvaluationError string
  | ProposalRejected "check_violation list"

definition error_message :: "js_error \<Rightarrow> string" where
  "error_message e = (case e of Error m \<Rightarrow> m | GatewayRefusal _ m \<Rightarrow> m)"

fun first_match :: "router_facts \<Rightarrow> nat \<Rightarrow> admissible_branch list \<Rightarrow> router_outcome" where
  "first_match facts index [] = NoMatch"
| "first_match facts index (b # bs) =
     (case evaluateCondition (ab_condition b) facts of
        Inl e \<Rightarrow> EvaluationError (error_message e)
      | Inr True \<Rightarrow> Matched index (ab_condition b) (ab_subDag b)
      | Inr False \<Rightarrow> first_match facts (Suc index) bs)"

definition evaluateRouter :: "published_rule_template option \<Rightarrow> router_facts \<Rightarrow> router_outcome" where
  "evaluateRouter template facts =
     (case template of None \<Rightarrow> NoMatch | Some t \<Rightarrow> first_match facts 0 (pt_branches t))"

definition admissibleBranches :: "published_rule_template \<Rightarrow> admissible_branch list" where
  "admissibleBranches template = pt_branches template"

section \<open>The executor\<close>

record router_evaluation =
  re_outcome :: router_outcome
  re_emitted :: "(string, string) js_map option"

definition bind_template :: "template_store \<Rightarrow> stored_event \<Rightarrow> published_rule_template option" where
  "bind_template templates created =
     (let templateRef = as_string (member (payload created) ''template_ref'');
          slotId = as_string (member (payload created) ''slot_id'') in
      if present (pin_version created) then resolve templates (the (pin_version created))
      else if present templateRef then resolve templates (the templateRef)
      else if present slotId then resolveSlot templates (the slotId)
      else None)"

definition toSubmittedVertex :: "proposal_vertex \<Rightarrow> submitted_vertex" where
  "toSubmittedVertex v =
     \<lparr>sv_id = pv_id v, sv_parents = Some (pv_parents v), sv_scope = truthy_string (pv_scopeId v),
      sv_body = (case pv_kind v of
          KTool \<Rightarrow> ToolBody (nullish (pv_tool v) []) None None None
        | KRouter \<Rightarrow> RouterBody None
        | KPlanner \<Rightarrow> PlannerBody None
        | KBarrier \<Rightarrow> BarrierBody)\<rparr>"

definition branch_submission :: "string \<Rightarrow> nat \<Rightarrow> sub_dag_proposal \<Rightarrow> workflow_submission" where
  "branch_submission routerVertexId branch subDag =
     \<lparr>ws_submissionId = routerVertexId @ '':branch-'' @ nat_str branch, ws_schemaVersion = ''v1'',
      ws_vertices = map toSubmittedVertex (sd_vertices subDag), ws_scopes = Some (sd_scopes subDag),
      ws_workflowType = None, ws_attachTo = Some [routerVertexId], ws_source = Some FromRouter\<rparr>"

text \<open>The upstream tools of the parents, and the fields their successes lifted.\<close>

definition tool_of :: "stored_event list \<Rightarrow> string list \<Rightarrow> (string, string) js_map" where
  "tool_of events parentRefs =
     foldl (\<lambda>m e. if \<not> about VertexCreated e \<or> the (vertex_id e) \<notin> set parentRefs then m
                  else let tool = as_string (member (payload e) ''tool'') in
                       if present tool then map_set (the (vertex_id e)) (the tool) m else m) [] events"

definition summaryFacts :: "stored_event list \<Rightarrow> string list \<Rightarrow> router_facts" where
  "summaryFacts events parentRefs =
     (let toolOf = tool_of events parentRefs in
      foldl (\<lambda>facts e. if \<not> about VertexSucceeded e then facts
                       else case map_get toolOf (the (vertex_id e)) of
                         None \<Rightarrow> facts
                       | Some tool \<Rightarrow> (case member (payload e) ''log_fields'' of
                             JObj lifted \<Rightarrow> map_set tool lifted facts | _ \<Rightarrow> facts)) [] events)"

definition router_draft :: "event_type \<Rightarrow> string \<Rightarrow> json_object \<Rightarrow> event_draft" where
  "router_draft t v p = (draft t p)\<lparr>dr_vertex_id := Some v\<rparr>"

definition started_draft :: "string \<Rightarrow> event_draft" where
  "started_draft v = router_draft VertexStarted v [(''attempt'', num 1), (''execution'', JStr ''router'')]"

definition outcome_draft :: "string \<Rightarrow> router_outcome \<Rightarrow> event_draft" where
  "outcome_draft v outcome =
     (case outcome of
        EvaluationError reason \<Rightarrow> router_draft VertexFailed v [(''outcome'', JStr ''evaluation_error''), (''reason'', JStr reason)]
      | NoMatch \<Rightarrow> router_draft VertexSucceeded v [(''matched_condition'', JNull)]
      | ProposalRejected vs \<Rightarrow> router_draft VertexFailed v
          [(''outcome'', JStr ''proposal_rejected''), (''violations'', JArr (map violation_json vs))]
      | Matched branch condition _ \<Rightarrow> router_draft VertexSucceeded v
          [(''matched_condition'', JStr condition), (''branch'', num branch)])"

text \<open>The end of a router: its terminal event, and the evaluation it returns.\<close>

definition conclude_router ::
    "validator \<Rightarrow> guard \<Rightarrow> string \<Rightarrow> string \<Rightarrow> router_outcome \<Rightarrow> (string, string) js_map option \<Rightarrow> router_evaluation store_op" where
  "conclude_router validateSchema guard runId v outcome emitted =
     bind_op (transaction (appendEvents validateSchema guard runId [outcome_draft v outcome])) (\<lambda>_.
     pure_op (Inr \<lparr>re_outcome = outcome, re_emitted = emitted\<rparr>))"

definition run_branch ::
    "validator \<Rightarrow> guard \<Rightarrow> (workflow_submission \<Rightarrow> submission_result store_op) \<Rightarrow> string \<Rightarrow> string \<Rightarrow> router_outcome \<Rightarrow>
     router_evaluation store_op" where
  "run_branch validateSchema guard submitter runId v outcome =
     (case outcome of
        Matched branch condition subDag \<Rightarrow>
          bind_op (submitter (branch_submission v branch subDag)) (\<lambda>result.
          case result of
            Rejected _ _ _ violations \<Rightarrow> conclude_router validateSchema guard runId v (ProposalRejected violations) None
          | Accepted _ _ vertexIds \<Rightarrow> conclude_router validateSchema guard runId v outcome (Some vertexIds))
      | _ \<Rightarrow> conclude_router validateSchema guard runId v outcome None)"

definition evaluate ::
    "validator \<Rightarrow> guard \<Rightarrow> template_store \<Rightarrow> (workflow_submission \<Rightarrow> submission_result store_op) \<Rightarrow> string \<Rightarrow> string \<Rightarrow>
     router_evaluation store_op" where
  "evaluate validateSchema guard templates submitter runId v db =
     (let events = readStream db runId None in
      case find (names_vertex VertexCreated v) events of
        None \<Rightarrow> (Inl (Error (''run '' @ runId @ '' has no vertex/created for router '' @ v)), db)
      | Some created \<Rightarrow>
          (let template = bind_template templates created; facts = summaryFacts events (parent_refs created) in
           bind_op (transaction (appendEvents validateSchema guard runId [started_draft v])) (\<lambda>_.
             run_branch validateSchema guard submitter runId v (evaluateRouter template facts)) db))"

end
