(* ===== verification/LLM_Client.thy ===== *)
theory LLM_Client
  imports Recovery Router
begin

text \<open>
  The model client (engine/src/planner/llm-client.ts): its configuration from the environment, the
  request it sends, the usage and result it reads out of a provider's answer, and the cost of a call.
  The URL parser, the JSON parser, the key file and \<open>fetch\<close> are parameters.
\<close>

section \<open>Data\<close>

record llm_message =
  lm_role :: string
  lm_content :: string

datatype llm_protocol = OpenAiChatCompletions | AnthropicMessages

definition protocol_str :: "llm_protocol \<Rightarrow> string" where
  "protocol_str p = (case p of OpenAiChatCompletions \<Rightarrow> ''openai-chat-completions'' | AnthropicMessages \<Rightarrow> ''anthropic-messages'')"

record llm_provider_config =
  pc_provider :: string
  pc_protocol :: llm_protocol
  pc_endpoint :: string
  pc_apiKey :: string
  pc_model :: string
  pc_timeoutMs :: rat
  pc_maxOutputTokens :: "rat option"
  pc_requestOptions :: "json_object option"
  pc_additionalHeaders :: "json_object option"
  pc_pricing :: "llm_pricing option"

record llm_usage =
  lu_input_tokens :: rat
  lu_output_tokens :: rat
  lu_total_tokens :: rat
  lu_reasoning_tokens :: rat
  lu_cache_hit_input_tokens :: rat
  lu_cache_miss_input_tokens :: rat

record llm_cost_estimate =
  ce_currency :: string
  ce_amount :: rat
  ce_pricing_ref :: string
  ce_pricing_tier :: "string option"
  ce_cache_hit_input :: rat
  ce_cache_miss_input :: rat
  ce_output :: rat

record llm_call_result =
  cl_responseId :: "string option"
  cl_responseModel :: string
  cl_content :: string
  cl_finishReason :: "string option"
  cl_durationMs :: rat
  cl_usage :: llm_usage

section \<open>Configuration\<close>

type_synonym environment = "string \<Rightarrow> string option"

definition required :: "string option \<Rightarrow> string \<Rightarrow> string res" where
  "required value name =
     (if js_trim (nullish value []) = [] then Inl (Error (name @ '' is required'')) else Inr (js_trim (nullish value [])))"

text \<open>\<open>Number(value)\<close>; a blank text is zero.\<close>

definition number_of_text :: "string \<Rightarrow> literal option" where
  "number_of_text s = (if js_trim s = [] then Some (Lit (JNum 0)) else js_number (js_trim s))"

definition positiveInteger :: "string option \<Rightarrow> rat \<Rightarrow> string \<Rightarrow> rat res" where
  "positiveInteger value fallback name =
     (if value = None \<or> value = Some [] then Inr fallback
      else case number_of_text (the value) of
        Some (Lit (JNum r)) \<Rightarrow>
          if of_int \<lfloor>r\<rfloor> = r \<and> 0 < r then Inr r else Inl (Error (name @ '' must be a positive integer''))
      | _ \<Rightarrow> Inl (Error (name @ '' must be a positive integer'')))"

definition optionalNumber :: "string option \<Rightarrow> string \<Rightarrow> rat option res" where
  "optionalNumber value name =
     (if value = None \<or> value = Some [] then Inr None
      else case number_of_text (the value) of
        Some (Lit (JNum r)) \<Rightarrow> if 0 \<le> r then Inr (Some r) else Inl (Error (name @ '' must be a non-negative number''))
      | _ \<Rightarrow> Inl (Error (name @ '' must be a non-negative number'')))"

definition jsonObject :: "(string \<Rightarrow> js res) \<Rightarrow> string option \<Rightarrow> string \<Rightarrow> json_object option res" where
  "jsonObject parseJson value name =
     (if \<not> present value then Inr None
      else bind_res (parseJson (the value)) (\<lambda>parsed.
        case parsed of JObj ob \<Rightarrow> Inr (Some ob) | _ \<Rightarrow> Inl (Error (name @ '' must be a JSON object''))))"

text \<open>The parts of a URL the client reads and writes.\<close>

record url =
  ur_protocol :: string
  ur_username :: string
  ur_password :: string
  ur_hostname :: string
  ur_search :: string
  ur_hash :: string
  ur_rest :: string

record url_library =
  parse_url :: "string \<Rightarrow> url res"
  url_text :: "url \<Rightarrow> string"

definition validateEndpoint :: "url_library \<Rightarrow> string \<Rightarrow> string res" where
  "validateEndpoint lib endpoint =
     bind_res (parse_url lib endpoint) (\<lambda>u.
     if ur_protocol u \<noteq> ''https:'' \<and>
        \<not> (ur_protocol u = ''http:'' \<and> ur_hostname u \<in> {''127.0.0.1'', ''localhost'', ''::1''})
     then Inl (Error ''FLORY_LLM_ENDPOINT must use HTTPS except for a loopback endpoint'')
     else Inr (url_text lib u))"

definition publicEndpoint :: "url_library \<Rightarrow> string \<Rightarrow> string res" where
  "publicEndpoint lib endpoint =
     bind_res (parse_url lib endpoint) (\<lambda>u.
     Inr (url_text lib (u\<lparr>ur_username := [], ur_password := [], ur_search := [], ur_hash := []\<rparr>)))"

definition read_protocol :: "string \<Rightarrow> llm_protocol res" where
  "read_protocol s =
     (if s = ''openai-chat-completions'' then Inr OpenAiChatCompletions
      else if s = ''anthropic-messages'' then Inr AnthropicMessages
      else Inl (Error (''unsupported FLORY_LLM_PROTOCOL: '' @ s)))"

definition trimmed :: "string option \<Rightarrow> string option" where
  "trimmed s = map_option js_trim s"

definition load_pricing :: "environment \<Rightarrow> llm_pricing option res" where
  "load_pricing env =
     bind_res (optionalNumber (env ''FLORY_LLM_PRICE_CACHE_HIT_INPUT'') ''FLORY_LLM_PRICE_CACHE_HIT_INPUT'') (\<lambda>hit.
     bind_res (optionalNumber (env ''FLORY_LLM_PRICE_CACHE_MISS_INPUT'') ''FLORY_LLM_PRICE_CACHE_MISS_INPUT'') (\<lambda>miss.
     bind_res (optionalNumber (env ''FLORY_LLM_PRICE_OUTPUT'') ''FLORY_LLM_PRICE_OUTPUT'') (\<lambda>output.
     if list_ex (\<lambda>v. v \<noteq> None) [hit, miss, output] \<and> list_ex (\<lambda>v. v = None) [hit, miss, output]
     then Inl (Error ''all three FLORY_LLM_PRICE_* rates are required when cost estimation is enabled'')
     else case hit of
       None \<Rightarrow> Inr None
     | Some h \<Rightarrow>
         bind_res (required (env ''FLORY_LLM_PRICE_REFERENCE'') ''FLORY_LLM_PRICE_REFERENCE'') (\<lambda>reference.
         Inr (Some \<lparr>lp_currency = (if present (trimmed (env ''FLORY_LLM_PRICE_CURRENCY''))
                                   then the (trimmed (env ''FLORY_LLM_PRICE_CURRENCY'')) else ''USD''),
                    lp_cache_hit_input_per_million = h, lp_cache_miss_input_per_million = the miss,
                    lp_output_per_million = the output, lp_reference = reference,
                    lp_tier = truthy_string (trimmed (env ''FLORY_LLM_PRICE_TIER''))\<rparr>)))))"

definition load_api_key :: "(string \<Rightarrow> string res) \<Rightarrow> environment \<Rightarrow> string res" where
  "load_api_key readFile env =
     (case env ''FLORY_LLM_API_KEY'' of
        Some k \<Rightarrow> Inr (js_trim k)
      | None \<Rightarrow>
          (let keyFile = trimmed (env ''FLORY_LLM_API_KEY_FILE'') in
           if present keyFile then bind_res (readFile (the keyFile)) (\<lambda>text. Inr (js_trim text)) else Inr []))"

definition loadLlmConfig ::
    "(string \<Rightarrow> string res) \<Rightarrow> (string \<Rightarrow> js res) \<Rightarrow> url_library \<Rightarrow> environment \<Rightarrow> llm_provider_config res" where
  "loadLlmConfig readFile parseJson lib env =
     bind_res (load_api_key readFile env) (\<lambda>apiKey.
     bind_res (required (env ''FLORY_LLM_PROTOCOL'') ''FLORY_LLM_PROTOCOL'') (\<lambda>protocolText.
     bind_res (read_protocol protocolText) (\<lambda>protocol.
     bind_res (load_pricing env) (\<lambda>pricing.
     bind_res (required (env ''FLORY_LLM_PROVIDER'') ''FLORY_LLM_PROVIDER'') (\<lambda>provider.
     bind_res (required (env ''FLORY_LLM_ENDPOINT'') ''FLORY_LLM_ENDPOINT'') (\<lambda>endpointText.
     bind_res (validateEndpoint lib endpointText) (\<lambda>endpoint.
     bind_res (required (Some apiKey) ''FLORY_LLM_API_KEY or FLORY_LLM_API_KEY_FILE'') (\<lambda>key.
     bind_res (required (env ''FLORY_LLM_MODEL'') ''FLORY_LLM_MODEL'') (\<lambda>model.
     bind_res (positiveInteger (env ''FLORY_LLM_TIMEOUT_MS'') 60000 ''FLORY_LLM_TIMEOUT_MS'') (\<lambda>timeoutMs.
     bind_res (if present (env ''FLORY_LLM_MAX_OUTPUT_TOKENS'')
               then bind_res (positiveInteger (env ''FLORY_LLM_MAX_OUTPUT_TOKENS'') 0 ''FLORY_LLM_MAX_OUTPUT_TOKENS'') (\<lambda>n. Inr (Some n))
               else Inr None) (\<lambda>maxOutputTokens.
     bind_res (jsonObject parseJson (env ''FLORY_LLM_REQUEST_OPTIONS'') ''FLORY_LLM_REQUEST_OPTIONS'') (\<lambda>requestOptions.
     bind_res (jsonObject parseJson (env ''FLORY_LLM_HEADERS'') ''FLORY_LLM_HEADERS'') (\<lambda>additionalHeaders.
     Inr \<lparr>pc_provider = provider, pc_protocol = protocol, pc_endpoint = endpoint, pc_apiKey = key, pc_model = model,
          pc_timeoutMs = timeoutMs, pc_maxOutputTokens = maxOutputTokens, pc_requestOptions = requestOptions,
          pc_additionalHeaders = additionalHeaders, pc_pricing = pricing\<rparr>)))))))))))))"

section \<open>Cost\<close>

definition estimateLlmCost :: "llm_usage \<Rightarrow> llm_pricing \<Rightarrow> llm_cost_estimate" where
  "estimateLlmCost usage pricing =
     (let amount = (lu_cache_hit_input_tokens usage * lp_cache_hit_input_per_million pricing +
                    lu_cache_miss_input_tokens usage * lp_cache_miss_input_per_million pricing +
                    lu_output_tokens usage * lp_output_per_million pricing) / 1000000 in
      \<lparr>ce_currency = lp_currency pricing, ce_amount = toFixed12 amount, ce_pricing_ref = lp_reference pricing,
       ce_pricing_tier = truthy_string (lp_tier pricing), ce_cache_hit_input = lp_cache_hit_input_per_million pricing,
       ce_cache_miss_input = lp_cache_miss_input_per_million pricing, ce_output = lp_output_per_million pricing\<rparr>)"

section \<open>Reading an answer\<close>

text \<open>A member of a decoded body: \<open>x?.k\<close>, and \<open>x?.k ?? d\<close> where it is a number or a string.\<close>

definition num_or :: "js \<Rightarrow> string \<Rightarrow> rat \<Rightarrow> rat" where
  "num_or v k d = nullish (as_num (get_member v k)) d"

definition normalizeOpenAiUsage :: "js \<Rightarrow> llm_usage" where
  "normalizeOpenAiUsage response =
     (let usage = get_member response ''usage'';
          input = num_or usage ''prompt_tokens'' 0;
          output = num_or usage ''completion_tokens'' 0;
          hit = num_or usage ''prompt_cache_hit_tokens'' (num_or (get_member usage ''prompt_tokens_details'') ''cached_tokens'' 0);
          miss = num_or usage ''prompt_cache_miss_tokens'' (max 0 (input - hit)) in
      \<lparr>lu_input_tokens = input, lu_output_tokens = output, lu_total_tokens = num_or usage ''total_tokens'' (input + output),
       lu_reasoning_tokens = num_or (get_member usage ''completion_tokens_details'') ''reasoning_tokens'' 0,
       lu_cache_hit_input_tokens = hit, lu_cache_miss_input_tokens = miss\<rparr>)"

definition normalizeAnthropicUsage :: "js \<Rightarrow> llm_usage" where
  "normalizeAnthropicUsage response =
     (let usage = get_member response ''usage'';
          uncached = num_or usage ''input_tokens'' 0;
          hit = num_or usage ''cache_read_input_tokens'' 0;
          created = num_or usage ''cache_creation_input_tokens'' 0;
          input = uncached + hit + created;
          output = num_or usage ''output_tokens'' 0 in
      \<lparr>lu_input_tokens = input, lu_output_tokens = output, lu_total_tokens = input + output, lu_reasoning_tokens = 0,
       lu_cache_hit_input_tokens = hit, lu_cache_miss_input_tokens = uncached + created\<rparr>)"

text \<open>\<open>s.replaceAll(old, new)\<close>; \<open>skip\<close> characters belong to the last occurrence.\<close>

fun scan_replace :: "string \<Rightarrow> string \<Rightarrow> nat \<Rightarrow> string \<Rightarrow> string" where
  "scan_replace old new skip [] = []"
| "scan_replace old new (Suc n) (c # cs) = scan_replace old new n cs"
| "scan_replace old new 0 (c # cs) =
     (if startsWith (c # cs) old then new @ scan_replace old new (length old - 1) cs else c # scan_replace old new 0 cs)"

definition replaceAll :: "string \<Rightarrow> string \<Rightarrow> string \<Rightarrow> string" where
  "replaceAll old new s =
     (if old = [] then new @ concat (map (\<lambda>c. c # new) s) else scan_replace old new 0 s)"

definition REDACTED :: string where
  "REDACTED = ''[redacted]''"

definition errorMessage :: "nat \<Rightarrow> js \<Rightarrow> string \<Rightarrow> string" where
  "errorMessage status body apiKey =
     (let providerError = get_member body ''error'';
          detail = map_option (replaceAll apiKey REDACTED)
            (case as_string (get_member providerError ''type'') of
               Some t \<Rightarrow> Some t | None \<Rightarrow> as_string (get_member providerError ''message'')) in
      if present detail then ''LLM endpoint returned HTTP '' @ nat_str status @ '': '' @ the detail
      else ''LLM endpoint returned HTTP '' @ nat_str status)"

section \<open>A call\<close>

record llm_request =
  lr_endpoint :: string
  lr_headers :: json_object
  lr_body :: json_object

datatype fetch_result = FetchAborted | FetchFailed js_error | FetchResponse bool nat js

definition spread :: "json_object \<Rightarrow> json_object \<Rightarrow> json_object" where
  "spread ob members = foldl (\<lambda>m (k, v). map_set k v m) ob members"

definition message_json :: "llm_message \<Rightarrow> js" where
  "message_json msg = JObj [(''role'', JStr (lm_role msg)), (''content'', JStr (lm_content msg))]"

definition request_body :: "llm_provider_config \<Rightarrow> llm_message list \<Rightarrow> json_object" where
  "request_body config messages =
     (let system = js_join [CHR 0x0A, CHR 0x0A] (map lm_content (filter (\<lambda>msg. lm_role msg = ''system'') messages)) in
      case pc_protocol config of
        AnthropicMessages \<Rightarrow>
          spread (nullish (pc_requestOptions config) [])
            ([(''model'', JStr (pc_model config)), (''max_tokens'', JNum (nullish (pc_maxOutputTokens config) 4096))] @
             (if system \<noteq> [] then [(''system'', JStr system)] else []) @
             [(''messages'', JArr (map message_json (filter (\<lambda>msg. lm_role msg \<noteq> ''system'') messages)))])
      | OpenAiChatCompletions \<Rightarrow>
          spread (nullish (pc_requestOptions config) [])
            ([(''model'', JStr (pc_model config))] @
             (case pc_maxOutputTokens config of Some n \<Rightarrow> if n \<noteq> 0 then [(''max_tokens'', JNum n)] else [] | None \<Rightarrow> []) @
             [(''messages'', JArr (map message_json messages))]))"

definition request_headers :: "llm_provider_config \<Rightarrow> json_object" where
  "request_headers config =
     spread [(''content-type'', JStr ''application/json'')]
       ((case pc_protocol config of
           AnthropicMessages \<Rightarrow> [(''x-api-key'', JStr (pc_apiKey config)), (''anthropic-version'', JStr ''2023-06-01'')]
         | OpenAiChatCompletions \<Rightarrow> [(''authorization'', JStr (''Bearer '' @ pc_apiKey config))]) @
        nullish (pc_additionalHeaders config) [])"

definition array_of :: "js \<Rightarrow> js list" where
  "array_of v = (case v of JArr xs \<Rightarrow> xs | _ \<Rightarrow> [])"

definition anthropic_result :: "llm_provider_config \<Rightarrow> rat \<Rightarrow> js \<Rightarrow> llm_call_result" where
  "anthropic_result config durationMs value =
     \<lparr>cl_responseId = as_string (get_member value ''id''),
      cl_responseModel = nullish (as_string (get_member value ''model'')) (pc_model config),
      cl_content = concat (map (\<lambda>part. nullish (as_string (get_member part ''text'')) [])
        (filter (\<lambda>part. get_member part ''type'' = JStr ''text'') (array_of (get_member value ''content'')))),
      cl_finishReason = as_string (get_member value ''stop_reason''), cl_durationMs = durationMs,
      cl_usage = normalizeAnthropicUsage value\<rparr>"

definition openai_result :: "llm_provider_config \<Rightarrow> rat \<Rightarrow> js \<Rightarrow> llm_call_result" where
  "openai_result config durationMs value =
     (let choice = (case array_of (get_member value ''choices'') of [] \<Rightarrow> JUndef | c # _ \<Rightarrow> c) in
      \<lparr>cl_responseId = as_string (get_member value ''id''),
       cl_responseModel = nullish (as_string (get_member value ''model'')) (pc_model config),
       cl_content = nullish (as_string (get_member (get_member choice ''message'') ''content'')) [],
       cl_finishReason = as_string (get_member choice ''finish_reason''), cl_durationMs = durationMs,
       cl_usage = normalizeOpenAiUsage value\<rparr>)"

text \<open>\<open>fetch\<close> is the outcome of a request and \<open>durationMs\<close> the time it took.\<close>

definition llm_call :: "(llm_request \<Rightarrow> fetch_result) \<Rightarrow> rat \<Rightarrow> llm_provider_config \<Rightarrow> llm_message list \<Rightarrow> llm_call_result res" where
  "llm_call fetch durationMs config messages =
     (if messages = [] then Inl (Error ''an LLM call requires at least one message'')
      else case fetch \<lparr>lr_endpoint = pc_endpoint config, lr_headers = request_headers config, lr_body = request_body config messages\<rparr> of
        FetchAborted \<Rightarrow> Inl (Error (''LLM endpoint timed out after '' @ number_str (pc_timeoutMs config) @ '' ms''))
      | FetchFailed e \<Rightarrow> Inl e
      | FetchResponse ok status decoded \<Rightarrow>
          if \<not> ok then Inl (Error (errorMessage status decoded (pc_apiKey config)))
          else Inr (case pc_protocol config of
            AnthropicMessages \<Rightarrow> anthropic_result config durationMs decoded
          | OpenAiChatCompletions \<Rightarrow> openai_result config durationMs decoded))"

end
