(* ===== verification/Planner.thy ===== *)
theory Planner
  imports LLM_Client
begin

text \<open>
  One planner turn (engine/src/planner/planner-executor.ts, planner-loop.ts): the recorded thought call,
  the prompt, the reading of the model's answer, and the submission of what it proposes.
\<close>

section \<open>The executor\<close>

record planner_execution_result =
  px_call :: llm_call_result
  px_inputDigest :: string
  px_outputDigest :: string

definition digest :: "(string \<Rightarrow> string) \<Rightarrow> js \<Rightarrow> string" where
  "digest sha256 value = ''sha256:'' @ sha256 (nullish (canonicalJson value) ''undefined'')"

definition error_name :: "js_error \<Rightarrow> string" where
  "error_name e = (case e of Error _ \<Rightarrow> ''Error'' | GatewayRefusal _ _ \<Rightarrow> ''GatewayRefusal'')"

definition safeFailure :: "js_error \<Rightarrow> string list \<Rightarrow> json_object" where
  "safeFailure e secrets =
     (let message = foldl (\<lambda>value secret. if secret \<noteq> [] then replaceAll secret REDACTED value else value) (error_message e) secrets in
      [(''error_type'', JStr (error_name e)), (''message'', JStr (take 500 message))])"

definition usage_json :: "llm_usage \<Rightarrow> js" where
  "usage_json u = JObj [(''input_tokens'', JNum (lu_input_tokens u)), (''output_tokens'', JNum (lu_output_tokens u)),
     (''total_tokens'', JNum (lu_total_tokens u)), (''reasoning_tokens'', JNum (lu_reasoning_tokens u)),
     (''cache_hit_input_tokens'', JNum (lu_cache_hit_input_tokens u)),
     (''cache_miss_input_tokens'', JNum (lu_cache_miss_input_tokens u))]"

definition estimate_json :: "llm_cost_estimate \<Rightarrow> js" where
  "estimate_json e = JObj ([(''currency'', JStr (ce_currency e)), (''amount'', JNum (ce_amount e)), (''pricing_ref'', JStr (ce_pricing_ref e))] @
     optional_str ''pricing_tier'' (ce_pricing_tier e) @
     [(''rates_per_million'', JObj [(''cache_hit_input'', JNum (ce_cache_hit_input e)), (''cache_miss_input'', JNum (ce_cache_miss_input e)),
        (''output'', JNum (ce_output e))])])"

definition call_started_draft :: "string \<Rightarrow> string \<Rightarrow> event_draft" where
  "call_started_draft plannerId inputDigest =
     router_draft VertexStarted plannerId [(''attempt'', num 1), (''execution'', JStr ''llm''), (''input_digest'', JStr inputDigest)]"

definition charged_draft :: "llm_provider_config \<Rightarrow> string \<Rightarrow> string \<Rightarrow> llm_call_result \<Rightarrow> event_draft" where
  "charged_draft config endpoint plannerId result =
     router_draft BudgetCharged plannerId
       ([(''category'', JStr ''llm''), (''provider'', JStr (pc_provider config)), (''protocol'', JStr (protocol_str (pc_protocol config))),
         (''endpoint'', JStr endpoint), (''requested_model'', JStr (pc_model config)),
         (''response_model'', JStr (cl_responseModel result)), (''duration_ms'', JNum (cl_durationMs result)),
         (''usage'', usage_json (cl_usage result))] @
        (case pc_pricing config of None \<Rightarrow> [] | Some p \<Rightarrow> [(''estimated_cost'', estimate_json (estimateLlmCost (cl_usage result) p))]))"

definition call_succeeded_draft :: "string \<Rightarrow> llm_call_result \<Rightarrow> string \<Rightarrow> event_draft" where
  "call_succeeded_draft plannerId result outputDigest =
     router_draft VertexSucceeded plannerId
       [(''attempts'', num 1),
        (''result'', JObj [(''response_id'', js_null_or (cl_responseId result)), (''response_model'', JStr (cl_responseModel result)),
           (''finish_reason'', js_null_or (cl_finishReason result)), (''output_digest'', JStr outputDigest)])]"

definition call_failed_draft :: "llm_provider_config \<Rightarrow> string \<Rightarrow> js_error \<Rightarrow> event_draft" where
  "call_failed_draft config plannerId e =
     router_draft VertexFailed plannerId
       [(''attempts'', num 1), (''failure'', JObj (safeFailure e [pc_apiKey config, pc_endpoint config]))]"

text \<open>\<open>try\<close> with a handler that records the failure and throws it again.\<close>

definition catch_op :: "'a store_op \<Rightarrow> (js_error \<Rightarrow> 'a store_op) \<Rightarrow> 'a store_op" where
  "catch_op f handler db = (case f db of (Inl e, db') \<Rightarrow> handler e db' | (Inr x, db') \<Rightarrow> (Inr x, db'))"

text \<open>\<open>llm\<close> is the client's \<open>call\<close>.\<close>

definition record_call ::
    "(string \<Rightarrow> string) \<Rightarrow> validator \<Rightarrow> guard \<Rightarrow> url_library \<Rightarrow> (llm_message list \<Rightarrow> llm_call_result res) \<Rightarrow> llm_provider_config \<Rightarrow>
     string \<Rightarrow> string \<Rightarrow> llm_message list \<Rightarrow> planner_execution_result store_op" where
  "record_call sha256 validateSchema guard lib llm config runId plannerId messages =
     bind_op (pure_op (llm messages)) (\<lambda>result.
     bind_op (pure_op (publicEndpoint lib (pc_endpoint config))) (\<lambda>endpoint.
     let outputDigest = digest sha256 (JStr (cl_content result)) in
     bind_op (transaction (appendEvents validateSchema guard runId
       [charged_draft config endpoint plannerId result, call_succeeded_draft plannerId result outputDigest])) (\<lambda>_.
     pure_op (Inr \<lparr>px_call = result, px_inputDigest = digest sha256 (JArr (map message_json messages)), px_outputDigest = outputDigest\<rparr>))))"

definition execute ::
    "(string \<Rightarrow> string) \<Rightarrow> validator \<Rightarrow> guard \<Rightarrow> url_library \<Rightarrow> (llm_message list \<Rightarrow> llm_call_result res) \<Rightarrow> llm_provider_config \<Rightarrow>
     string \<Rightarrow> string \<Rightarrow> llm_message list \<Rightarrow> planner_execution_result store_op" where
  "execute sha256 validateSchema guard lib llm config runId plannerId messages =
     (let inputDigest = digest sha256 (JArr (map message_json messages)) in
      bind_op (transaction (appendEvents validateSchema guard runId [call_started_draft plannerId inputDigest])) (\<lambda>_.
      catch_op (record_call sha256 validateSchema guard lib llm config runId plannerId messages) (\<lambda>e.
        bind_op (transaction (appendEvents validateSchema guard runId [call_failed_draft config plannerId e])) (\<lambda>_.
        pure_op (Inl e)))))"

lemma size_element: "x \<in> set xs \<Longrightarrow> size (x::js) \<le> size_list size xs"
  by (erule size_list_estimation') simp

lemma size_member: "(k, v::js) \<in> set ob \<Longrightarrow> size v \<le> size_list (size_prod (\<lambda>_. 0) size) ob"
  by (erule size_list_estimation') simp

section \<open>Reading an answer\<close>

record read_proposal =
  rp_vertices :: "submitted_vertex list"
  rp_scopes :: "proposal_scope list"

text \<open>A refusal is the reason it gives.\<close>

type_synonym 'a reading = "string + 'a"

definition bind_reading :: "'a reading \<Rightarrow> ('a \<Rightarrow> 'b reading) \<Rightarrow> 'b reading" where
  "bind_reading r f = (case r of Inl reason \<Rightarrow> Inl reason | Inr x \<Rightarrow> f x)"

lemma bind_reading_simps [simp]: "bind_reading (Inl e) f = Inl e" "bind_reading (Inr x) f = f x"
  by (simp_all add: bind_reading_def)

lemma bind_reading_Inr: "bind_reading r f = Inr y \<longleftrightarrow> (\<exists>x. r = Inr x \<and> f x = Inr y)"
  by (cases r) auto

fun map_reading :: "('a \<Rightarrow> 'b reading) \<Rightarrow> 'a list \<Rightarrow> 'b list reading" where
  "map_reading f [] = Inr []"
| "map_reading f (x # xs) = bind_reading (f x) (\<lambda>y. bind_reading (map_reading f xs) (\<lambda>ys. Inr (y # ys)))"

definition FENCE :: string where
  "FENCE = [CHR 0x60, CHR 0x60, CHR 0x60]"

definition not_newline :: "char \<Rightarrow> bool" where
  "not_newline c = (c \<noteq> CHR 0x0A)"

text \<open>
  \<open>/^\s*```(?:json)?\s*\n([\s\S]*?)\n?\s*```\s*$/\<close>.  The leading \<open>\s*\n\<close> is greedy, so it ends with the last
  line end of the blank text behind the opening fence.  The closing fence ends the text up to blanks;
  the content is the shortest, so it gives back the blanks before the closing fence.
\<close>

definition behind_open :: "string \<Rightarrow> string option" where
  "behind_open s =
     (let t = dropWhile is_space s in
      if \<not> startsWith t FENCE then None
      else
        (let u = drop 3 t; v = (if startsWith u ''json'' then drop 4 u else u);
             blank = takeWhile is_space v in
         if CHR 0x0A \<notin> set blank then None
         else Some (rev (takeWhile not_newline (rev blank)) @ dropWhile is_space v)))"

definition before_close :: "string \<Rightarrow> string option" where
  "before_close s =
     (let t = trim_end s in
      if length t < 3 \<or> drop (length t - 3) t \<noteq> FENCE then None else Some (take (length t - 3) t))"

definition unfence :: "string \<Rightarrow> string" where
  "unfence content =
     (case Option.bind (behind_open content) before_close of
        None \<Rightarrow> js_trim content
      | Some inner \<Rightarrow> js_trim inner)"

section \<open>JSON text\<close>

abbreviation NL :: string where
  "NL \<equiv> [CHR 0x0A]"

text \<open>\<open>JSON.stringify\<close> in its compact form and indented by two; members that are undefined are left out.\<close>

function json_stringify :: "js \<Rightarrow> string option" where
  "json_stringify JUndef = None"
| "json_stringify JNull = Some ''null''"
| "json_stringify (JBool b) = Some (if b then ''true'' else ''false'')"
| "json_stringify (JNum r) = Some (number_str r)"
| "json_stringify (JStr s) = Some (quote s)"
| "json_stringify (JArr xs) = Some (''['' @ js_join '','' (map (\<lambda>x. nullish (json_stringify x) ''null'') xs) @ '']'')"
| "json_stringify (JObj ob) =
     Some (''{'' @ js_join '','' (concat (map (\<lambda>(k, v). case json_stringify v of None \<Rightarrow> [] | Some t \<Rightarrow> [quote k @ '':'' @ t]) ob)) @ ''}'')"
  by pat_completeness auto
termination
  by (relation "measure size") (auto simp: less_Suc_eq_le intro: size_element size_member)

definition indent :: "nat \<Rightarrow> string" where
  "indent n = replicate (2 * n) CHR '' ''"

definition block :: "string \<Rightarrow> string \<Rightarrow> nat \<Rightarrow> string list \<Rightarrow> string" where
  "block left right level items =
     (if items = [] then left @ right
      else left @ NL @ js_join ('','' @ NL) (map (\<lambda>item. indent (Suc level) @ item) items) @ NL @ indent level @ right)"

function json_pretty :: "nat \<Rightarrow> js \<Rightarrow> string option" where
  "json_pretty level JUndef = None"
| "json_pretty level JNull = Some ''null''"
| "json_pretty level (JBool b) = Some (if b then ''true'' else ''false'')"
| "json_pretty level (JNum r) = Some (number_str r)"
| "json_pretty level (JStr s) = Some (quote s)"
| "json_pretty level (JArr xs) = Some (block ''['' '']'' level (map (\<lambda>x. nullish (json_pretty (Suc level) x) ''null'') xs))"
| "json_pretty level (JObj ob) =
     Some (block ''{'' ''}'' level
       (concat (map (\<lambda>(k, v). case json_pretty (Suc level) v of None \<Rightarrow> [] | Some t \<Rightarrow> [quote k @ '': '' @ t]) ob)))"
  by pat_completeness auto
termination
  by (relation "measure (\<lambda>(n, v). size v)") (auto simp: less_Suc_eq_le intro: size_element size_member)

section \<open>Reading a vertex\<close>

definition not_blank :: "js \<Rightarrow> bool" where
  "not_blank v = (case v of JStr s \<Rightarrow> js_trim s \<noteq> [] | _ \<Rightarrow> False)"

definition is_string :: "js \<Rightarrow> bool" where
  "is_string v = (as_string v \<noteq> None)"

text \<open>\<open>v ?? d\<close>.\<close>

definition value_or :: "js \<Rightarrow> js \<Rightarrow> js" where
  "value_or v d = (if v = JUndef \<or> v = JNull then d else v)"

definition read_parents :: "string \<Rightarrow> js \<Rightarrow> string list reading" where
  "read_parents i v =
     (case value_or v (JArr []) of
        JArr xs \<Rightarrow> if list_all is_string xs then Inr (List.map_filter as_string xs) else Inl (i @ '' has a malformed parents list'')
      | _ \<Rightarrow> Inl (i @ '' has a malformed parents list''))"

definition read_body :: "string \<Rightarrow> json_object \<Rightarrow> vertex_body reading" where
  "read_body i vertex =
     (let kind = member vertex ''kind'' in
      if kind = JStr ''planner'' then Inr (PlannerBody (as_string (member vertex ''goal'')))
      else if kind \<noteq> JStr ''tool''
      then Inl (i @ '' declares kind '' @ nullish (json_stringify kind) ''undefined'' @ ''; a planner may propose only tool and planner vertices'')
      else if \<not> not_blank (member vertex ''tool'') then Inl (i @ '' is a tool vertex with no tool'')
      else case value_or (member vertex ''input'') (JObj []) of
        JObj input \<Rightarrow> Inr (ToolBody (the (as_string (member vertex ''tool''))) (Some input) None None)
      | _ \<Rightarrow> Inl (i @ '' has a malformed input''))"

definition read_vertex :: "nat \<times> js \<Rightarrow> submitted_vertex reading" where
  "read_vertex entry =
     (case snd entry of
        JObj vertex \<Rightarrow>
          if \<not> not_blank (member vertex ''id'') then Inl (''vertex '' @ nat_str (fst entry) @ '' has no id'')
          else
            (let i = the (as_string (member vertex ''id'')) in
             bind_reading (read_parents i (member vertex ''parents'')) (\<lambda>parents.
             bind_reading (read_body i vertex) (\<lambda>body.
             Inr \<lparr>sv_id = i, sv_parents = Some parents, sv_scope = as_string (member vertex ''scope''), sv_body = body\<rparr>)))
      | _ \<Rightarrow> Inl (''vertex '' @ nat_str (fst entry) @ '' is not an object''))"

definition read_scope :: "nat \<times> js \<Rightarrow> proposal_scope reading" where
  "read_scope entry =
     (case (get_member (snd entry) ''id'', get_member (snd entry) ''members'') of
        (JStr i, JArr xs) \<Rightarrow>
          if list_all is_string xs then Inr \<lparr>ps_id = i, ps_members = List.map_filter as_string xs\<rparr>
          else Inl (''scope '' @ nat_str (fst entry) @ '' is malformed'')
      | _ \<Rightarrow> Inl (''scope '' @ nat_str (fst entry) @ '' is malformed''))"

definition read_scopes :: "js \<Rightarrow> proposal_scope list reading" where
  "read_scopes v =
     (case v of
        JUndef \<Rightarrow> Inr []
      | JArr xs \<Rightarrow> map_reading read_scope (enumerate 0 xs)
      | _ \<Rightarrow> Inl ''scopes is not an array'')"

text \<open>The first parent a vertex names that is not in the answer; an empty one is no reason to refuse.\<close>

definition foreign_parent :: "submitted_vertex list \<Rightarrow> submitted_vertex \<Rightarrow> string option" where
  "foreign_parent vertices v =
     truthy_string (find (\<lambda>p. p \<notin> set (map sv_id vertices)) (nullish (sv_parents v) []))"

fun refuse_foreign :: "submitted_vertex list \<Rightarrow> submitted_vertex list \<Rightarrow> unit reading" where
  "refuse_foreign vertices [] = Inr ()"
| "refuse_foreign vertices (v # vs) =
     (case foreign_parent vertices v of
        Some p \<Rightarrow> Inl (sv_id v @ '' names parent '' @ p @
          '', which is not in this answer; where this work attaches is not the planner's to choose'')
      | None \<Rightarrow> refuse_foreign vertices vs)"

section \<open>Scope membership\<close>

fun declare_members :: "string \<Rightarrow> string list \<Rightarrow> (string, string) js_map \<Rightarrow> (string, string) js_map reading" where
  "declare_members scope [] declared = Inr declared"
| "declare_members scope (x # xs) declared =
     (let existing = map_get declared x in
      if present existing \<and> existing \<noteq> Some scope
      then Inl (x @ '' is claimed by both scope '' @ the existing @ '' and scope '' @ scope)
      else declare_members scope xs (map_set x scope declared))"

fun declare_scopes :: "proposal_scope list \<Rightarrow> (string, string) js_map \<Rightarrow> (string, string) js_map reading" where
  "declare_scopes [] declared = Inr declared"
| "declare_scopes (s # ss) declared = bind_reading (declare_members (ps_id s) (ps_members s) declared) (declare_scopes ss)"

definition bind_vertex :: "(string, string) js_map \<Rightarrow> submitted_vertex \<Rightarrow> submitted_vertex" where
  "bind_vertex declared v =
     (let membership = map_get declared (sv_id v) in
      if \<not> present membership \<or> present (sv_scope v) then v else v\<lparr>sv_scope := membership\<rparr>)"

fun check_bound :: "proposal_scope list \<Rightarrow> (string, string) js_map \<Rightarrow> submitted_vertex list \<Rightarrow> unit reading" where
  "check_bound scopes declared [] = Inr ()"
| "check_bound scopes declared (v # vs) =
     (let membership = map_get declared (sv_id v) in
      if present (sv_scope v) \<and> present membership \<and> sv_scope v \<noteq> membership
      then Inl (sv_id v @ '' names scope '' @ the (sv_scope v) @ '' but scope '' @ the membership @ '' lists it as a member'')
      else if present (sv_scope v) \<and> the (sv_scope v) \<notin> ps_id ` set scopes
      then Inl (sv_id v @ '' names scope '' @ the (sv_scope v) @ '', which is not declared'')
      else check_bound scopes declared vs)"

definition complete_scope :: "submitted_vertex list \<Rightarrow> proposal_scope \<Rightarrow> proposal_scope" where
  "complete_scope bound s =
     \<lparr>ps_id = ps_id s, ps_members = new_set (ps_members s @ map sv_id (filter (\<lambda>v. sv_scope v = Some (ps_id s)) bound))\<rparr>"

definition bindScopeMembership :: "submitted_vertex list \<Rightarrow> proposal_scope list \<Rightarrow> read_proposal reading" where
  "bindScopeMembership vertices scopes =
     bind_reading (declare_scopes scopes []) (\<lambda>declared.
     let bound = map (bind_vertex declared) vertices in
     bind_reading (check_bound scopes declared bound) (\<lambda>_.
     Inr \<lparr>rp_vertices = bound, rp_scopes = map (complete_scope bound) scopes\<rparr>))"

text \<open>\<open>parseJson\<close> is \<open>JSON.parse\<close>, with the message of the error it throws.\<close>

definition readProposal :: "(string \<Rightarrow> js reading) \<Rightarrow> string \<Rightarrow> read_proposal reading" where
  "readProposal parseJson content =
     (case parseJson (unfence content) of
        Inl message \<Rightarrow> Inl (''answer is not JSON: '' @ message)
      | Inr (JObj body) \<Rightarrow>
          (case member body ''vertices'' of
             JArr (x # xs) \<Rightarrow>
               bind_reading (map_reading read_vertex (enumerate 0 (x # xs))) (\<lambda>vertices.
               bind_reading (read_scopes (member body ''scopes'')) (\<lambda>scopes.
               bind_reading (refuse_foreign vertices vertices) (\<lambda>_.
               if length (new_set (map sv_id vertices)) \<noteq> length vertices then Inl ''two vertices share an id''
               else bindScopeMembership vertices scopes)))
           | _ \<Rightarrow> Inl ''answer declares no vertices'')
      | Inr _ \<Rightarrow> Inl ''answer is not a JSON object'')"

section \<open>The prompt\<close>

definition SYSTEM_CONTRACT :: string where
  \<open>SYSTEM_CONTRACT = js_join NL
    [''You plan one step of a long-running business workflow.'',
     [],
     ''Answer with a single JSON object and no prose, no markdown fence:'',
     ''{"vertices": [...], "scopes": [...]}'',
     [],
     ''Each vertex is {"id": string, "kind": "tool"|"planner", "parents": [ids within this answer], '' @
       ''"tool"?: string, "input"?: object, "scope"?: string, "goal"?: string}.'',
     ''Each scope is {"id": string, "members": [tool vertex ids]}.'',
     [],
     ''Rules:'',
     ''- Plan only the next step. Do not plan the whole workflow; you will be called again with the '' @
       ''results.'',
     ''- "tool" is required on a tool vertex and must be one of the listed tool ids. A planner vertex has '' @
       ''no tool.'',
     ''- Only tool vertices may belong to a scope. Group into one scope the side-effecting tools that must '' @
       ''succeed or fail together.'',
     ''- Every tool whose effect_class is not "none" must belong to a scope.'',
     ''- A scope may contain at most one tool whose effect_class is "irreversible".'',
     ''- If a side-effecting tool reads the output of another side-effecting tool, both must be in the '' @
       ''SAME scope.'',
     ''- An uncommitted effect may not be consumed across a scope boundary, so a chain of dependent side '' @
       ''effects is one scope, not several.'',
     ''- A scope holding an irreversible tool must also hold every reversible tool that irreversible one '' @
       ''depends on.'',
     ''- Never emit a vertex of kind "router". Routing is not yours to decide.'',
     ''- Never name a tool version, a tool view digest, or a rule template. Those are resolved for you.'',
     ''- Every value in "input" must come from the task, or from a result you can see above. Do not invent '' @
       ''identifiers, prices, or quantities.'',
     ''- "parents" may only name ids inside this same answer. Where your work attaches to the existing '' @
       ''graph is decided for you.'']\<close>

definition catalogue_entry :: "js \<Rightarrow> string" where
  "catalogue_entry tool =
     nullish (json_stringify (JObj [(''tool'', get_member tool ''tool_id''), (''description'', value_or (get_member tool ''description'') (JStr [])),
       (''effect_class'', get_member (get_member tool ''txn'') ''effect_class''), (''mode'', get_member (get_member tool ''txn'') ''mode''),
       (''input_schema'', get_member tool ''input_schema'')])) []"

definition catalogue :: "resolved_tool_view \<Rightarrow> string" where
  "catalogue view = js_join NL (map catalogue_entry (array_of (get_member (rv_document view) ''tools'')))"

definition evidence_json :: "failure_evidence \<Rightarrow> js" where
  "evidence_json e = JObj [(''failed_vertex_id'', JStr (fe_failed_vertex_id e)), (''tool'', js_null_or (fe_tool e)),
     (''error_class'', JStr (fe_error_class e)), (''error'', JStr (fe_error e)), (''attempts'', JNum (fe_attempts e)),
     (''discarded_vertices'', num (fe_discarded_vertices e)), (''cancelled_scopes'', JArr (map JStr (fe_cancelled_scopes e)))]"

definition pretty_text :: "js \<Rightarrow> string" where
  "pretty_text v = nullish (json_pretty 0 v) ''undefined''"

definition compose :: "string \<Rightarrow> planner_turn_request \<Rightarrow> resolved_tool_view \<Rightarrow> llm_message list" where
  "compose context request view =
     [\<lparr>lm_role = ''system'', lm_content = SYSTEM_CONTRACT\<rparr>,
      \<lparr>lm_role = ''user'', lm_content = js_join (NL @ NL)
        ([''# Task'' @ NL @ pretty_text (JObj (tr_taskInput request)),
          ''# Goal for this step'' @ NL @ tr_goal request,
          ''# Tools you may call'' @ NL @ catalogue view,
          ''# What has happened so far'' @ NL @ context] @
         (case tr_evidence request of None \<Rightarrow> []
          | Some e \<Rightarrow> [''# A previous attempt from here failed and was discarded'' @ NL @ pretty_text (evidence_json e) @ NL @
              ''Propose a different approach. Repeating the failed call will fail again.'']) @
         [''# Your answer'' @ NL @ ''Return one JSON object and nothing else.''])\<rparr>]"

section \<open>The turn\<close>

datatype planner_turn =
    TurnFrozen submission_result string
  | TurnRejected submission_result string
  | TurnUnreadable string string

text \<open>What the planner may see, as text.\<close>

definition planner_context :: "(string \<Rightarrow> string) \<Rightarrow> string \<Rightarrow> string \<Rightarrow> database \<Rightarrow> string \<Rightarrow> string \<Rightarrow> string res" where
  "planner_context sha256 projectorVersion harnessVersion db runId v =
     bind_res (surface (readStream db runId None) None) (\<lambda>view.
     bind_res (slice view v) (\<lambda>relevant.
     Inr (as_text (assemble sha256 (linearize relevant) projectorVersion harnessVersion))))"

definition unreadable_draft :: "(string \<Rightarrow> string) \<Rightarrow> string \<Rightarrow> string \<Rightarrow> string \<Rightarrow> event_draft" where
  "unreadable_draft sha256 v reason content =
     router_draft SubgraphUnreadable v
       [(''planner_vertex_id'', JStr v), (''reason'', JStr reason), (''answer_digest'', JStr (''sha256:'' @ sha256 content)),
        (''answer_length'', num (length content))]"

definition turn_submission :: "planner_turn_request \<Rightarrow> read_proposal \<Rightarrow> workflow_submission" where
  "turn_submission request parsed =
     \<lparr>ws_submissionId = tr_plannerVertexId request @
        (if nullish (tr_attempt request) 0 \<noteq> 0 then '':replan-'' @ nat_str (the (tr_attempt request)) else '':turn''),
      ws_schemaVersion = ''v1'', ws_vertices = rp_vertices parsed,
      ws_scopes = (if rp_scopes parsed = [] then None else Some (rp_scopes parsed)),
      ws_workflowType = Some (tr_workflowType request), ws_attachTo = Some [tr_plannerVertexId request], ws_source = None\<rparr>"

definition advance ::
    "(string \<Rightarrow> string) \<Rightarrow> validator \<Rightarrow> guard \<Rightarrow> (string \<Rightarrow> js reading) \<Rightarrow> string \<Rightarrow> string \<Rightarrow>
     (llm_message list \<Rightarrow> planner_execution_result store_op) \<Rightarrow> (workflow_submission \<Rightarrow> submission_result store_op) \<Rightarrow>
     planner_turn_request \<Rightarrow> resolved_tool_view \<Rightarrow> planner_turn store_op" where
  "advance sha256 validateSchema guard parseJson projectorVersion harnessVersion executor submitter request view db =
     (let v = tr_plannerVertexId request in
      bind_op (pure_op (planner_context sha256 projectorVersion harnessVersion db (tr_runId request) v)) (\<lambda>context.
      bind_op (executor (compose context request view)) (\<lambda>execution.
      let content = cl_content (px_call execution) in
      case readProposal parseJson content of
        Inl reason \<Rightarrow>
          bind_op (transaction (appendEvents validateSchema guard (tr_runId request) [unreadable_draft sha256 v reason content])) (\<lambda>_.
          pure_op (Inr (TurnUnreadable reason content)))
      | Inr parsed \<Rightarrow>
          bind_op (submitter (turn_submission request parsed)) (\<lambda>result.
          pure_op (Inr (case result of
            Accepted _ _ _ \<Rightarrow> TurnFrozen result content | Rejected _ _ _ _ \<Rightarrow> TurnRejected result content))))) db)"

end
