(* ===== verification/Submission_Spec.thy ===== *)
theory Submission_Spec
  imports Submission Event_Store_Spec Workflow_Spec
begin

text \<open>
  What a submission leaves in the log: the proposal and then its freeze or its rejection; what an
  accepted submission was checked against; and the submissions that throw after their proposal.
\<close>

section \<open>Appending drafts\<close>

text \<open>The row that stores a draft, and a database that differs from another by the rows of some drafts
  at the end of one run.\<close>

definition stores :: "event_draft \<Rightarrow> stored_event \<Rightarrow> bool" where
  "stores d row \<longleftrightarrow> (\<exists>db k n. row = draft_row db k n d)"

definition recorded :: "string \<Rightarrow> event_draft list \<Rightarrow> database \<Rightarrow> database \<Rightarrow> bool" where
  "recorded k ds db db' \<longleftrightarrow> numbered db' \<and> (\<forall>k'. k' \<noteq> k \<longrightarrow> readStream db' k' None = readStream db k' None) \<and>
     (\<exists>r rows. map_get (db_runs db) k = Some r \<and>
       map_get (db_runs db') k = Some (r\<lparr>rr_next_seq := rr_next_seq r + length ds\<rparr>) \<and>
       readStream db' k None = readStream db k None @ rows \<and> list_all2 stores ds rows \<and>
       map run_seq rows = [rr_next_seq r..<rr_next_seq r + length ds])"

definition next_seq :: "database \<Rightarrow> string \<Rightarrow> nat" where
  "next_seq db k = rr_next_seq (the (map_get (db_runs db) k))"

lemma stores_draft_rows: "list_all2 stores ds (draft_rows db k n ds)"
  by (induction ds arbitrary: db n) (auto simp: stores_def)

lemma appendWith_recorded:
  assumes "numbered db" "appendWith vs guard k ds db = Inr (seqs, db')"
  shows "recorded k ds db db'" "seqs = [next_seq db k..<next_seq db k + length ds]" "ds \<noteq> []"
proof -
  from appendWith_Inr [OF assms] obtain r where r: "map_get (db_runs db) k = Some r" "ds \<noteq> []" "numbered db'"
    "seqs = [rr_next_seq r..<rr_next_seq r + length ds]"
    "db' = (bump k r (length ds) db)\<lparr>db_log := db_log db @ draft_rows db k (rr_next_seq r) ds\<rparr>" .
  have "db_log db' = db_log db @ draft_rows db k (rr_next_seq r) ds" by (simp add: r(5))
  note read = readStream_own [OF assms(1) r(1) this]
  have "map_get (db_runs db') k = Some (r\<lparr>rr_next_seq := rr_next_seq r + length ds\<rparr>)"
    by (simp add: r(5) bump_def map_get_map_set)
  then show "recorded k ds db db'"
    using r(1,3) read stores_draft_rows [of ds db k "rr_next_seq r"] draft_rows_props(1) [of db k "rr_next_seq r" ds]
    unfolding recorded_def by auto
  show "seqs = [next_seq db k..<next_seq db k + length ds]" "ds \<noteq> []" using r by (simp_all add: next_seq_def)
qed

lemma recorded_trans:
  assumes "recorded k ds db db1" "recorded k es db1 db2"
  shows "recorded k (ds @ es) db db2"
proof -
  from assms(1) obtain r rows where r: "map_get (db_runs db) k = Some r"
    "map_get (db_runs db1) k = Some (r\<lparr>rr_next_seq := rr_next_seq r + length ds\<rparr>)"
    "readStream db1 k None = readStream db k None @ rows" "list_all2 stores ds rows"
    "map run_seq rows = [rr_next_seq r..<rr_next_seq r + length ds]" by (auto simp: recorded_def)
  from assms(2) r(2) obtain rows' where r': "map_get (db_runs db2) k = Some (r\<lparr>rr_next_seq := rr_next_seq r + length ds + length es\<rparr>)"
    "readStream db2 k None = readStream db1 k None @ rows'" "list_all2 stores es rows'"
    "map run_seq rows' = [rr_next_seq r + length ds..<rr_next_seq r + length ds + length es]" by (auto simp: recorded_def)
  have "map run_seq (rows @ rows') = [rr_next_seq r..<rr_next_seq r + length (ds @ es)]"
    using r(5) r'(4) upt_add_eq_append [of "rr_next_seq r" "rr_next_seq r + length ds" "length es"] by (simp add: ac_simps)
  moreover have "list_all2 stores (ds @ es) (rows @ rows')" using r(4) r'(3) by (rule list_all2_appendI)
  moreover have "readStream db2 k None = readStream db k None @ rows @ rows'" using r(3) r'(2) by simp
  moreover have "map_get (db_runs db2) k = Some (r\<lparr>rr_next_seq := rr_next_seq r + length (ds @ es)\<rparr>)"
    using r'(1) by (simp add: ac_simps)
  ultimately show ?thesis using assms r(1) unfolding recorded_def by metis
qed

lemma recorded_next: "recorded k ds db db' \<Longrightarrow> next_seq db' k = next_seq db k + length ds"
  by (auto simp: recorded_def next_seq_def)

lemma appendOne_cases:
  assumes "numbered db" "appendOne vs guard k d db = (r, db')"
  shows "(\<exists>e. r = Inl e) \<and> db' = db \<or> r = Inr (next_seq db k) \<and> recorded k [d] db db'"
proof (cases "appendEvents vs guard k [d] db")
  case (Inl e)
  then show ?thesis using assms(2) by (auto simp: appendOne_def bind_op_def transaction_def)
next
  case (Inr x)
  obtain seqs db1 where x: "x = (seqs, db1)" by (cases x)
  then have app: "appendWith vs guard k [d] db = Inr (seqs, db1)" using Inr by (simp add: appendEvents_def)
  have r: "r = Inr (hd seqs)" "db' = db1" using assms(2) Inr x by (simp_all add: appendOne_def bind_op_def transaction_def pure_op_def)
  show ?thesis using appendWith_recorded [OF assms(1) app] r by (simp add: upt_rec)
qed

lemma reject_cases:
  assumes "numbered db" "reject vs guard k p stage violations db = (r, db')"
  shows "(\<exists>e. r = Inl e) \<and> db' = db \<or>
    r = Inr (Rejected p (next_seq db k) stage violations) \<and> recorded k [rejected_draft p stage violations] db db'"
proof -
  obtain q db1 where one: "appendOne vs guard k (rejected_draft p stage violations) db = (q, db1)" by (meson prod.exhaust)
  then show ?thesis
    using appendOne_cases [OF assms(1) one] assms(2) by (auto simp: reject_def bind_op_def pure_op_def)
qed

section \<open>The decision\<close>

text \<open>What the checks under the lock establish about an admitted workflow.\<close>

definition admitted_under ::
    "(string \<Rightarrow> string) \<Rightarrow> rule_resolver option \<Rightarrow> workflow_submission \<Rightarrow> resolved_tool_view \<Rightarrow> run_admission_context \<Rightarrow> bool" where
  "admitted_under sha256 templates w resolved context \<longleftrightarrow>
     (\<forall>s\<in>set (ac_scopes context). ss_admissionBlock s = None) \<and>
     (\<exists>result. checkSubDag (lowerToProposal w) (rv_registry resolved) (ac_scopes context) = Inr result \<and> cr_accepted result) \<and>
     (\<forall>(author, router)\<in>set (bindRouters sha256 templates w (derivePlacement (ac_scopes context))).
        \<forall>template. bo_template router = Some template \<longrightarrow>
          (\<exists>outcome. checkFreezeAdmission (pt_branches template)
             \<lparr>sp_placement = bi_placement (bo_binding router), sp_isReadOnlyContext = ac_isCounterfactual context,
              sp_roleToolView = rv_registry resolved\<rparr> (ac_scopes context) = Inr outcome \<and> cr_violations outcome = []))"

lemma check_result_accepted: "cr_accepted (check_result_of vs) \<longleftrightarrow> vs = []"
  by (simp add: check_result_of_def)

lemma scope_admission_clear:
  "cr_accepted (checkScopeAdmission scopes) \<longleftrightarrow> (\<forall>s\<in>set scopes. ss_admissionBlock s = None)"
  by (auto simp: checkScopeAdmission_def check_result_accepted List.map_filter_def filter_empty_conv)

lemma map_res_Inr_mem: "map_res f xs = Inr ys \<Longrightarrow> x \<in> set xs \<Longrightarrow> \<exists>y\<in>set ys. f x = Inr y"
  unfolding map_res_Inr by (induction rule: list_all2_induct) auto

lemma admissionViolations_Nil:
  assumes "admissionViolations bound resolved scopes c = Inr []" "(a, router) \<in> set bound" "bo_template router = Some t"
  shows "\<exists>outcome. checkFreezeAdmission (pt_branches t)
    \<lparr>sp_placement = bi_placement (bo_binding router), sp_isReadOnlyContext = c, sp_roleToolView = rv_registry resolved\<rparr> scopes =
      Inr outcome \<and> cr_violations outcome = []"
proof -
  obtain vss where vss: "map_res (router_violations resolved scopes c) bound = Inr vss" "\<forall>vs\<in>set vss. vs = []"
    using assms(1) by (auto simp: admissionViolations_def bind_res_Inr)
  then obtain vs where "vs \<in> set vss" "router_violations resolved scopes c (a, router) = Inr vs"
    using assms(2) map_res_Inr_mem by metis
  then show ?thesis using vss(2) assms(3) by (auto simp: router_violations_def bind_res_Inr)
qed

lemma decide_freeze_admitted:
  assumes "decide_freeze sha256 templates newId w resolved p context = Inr (Inr (events, ids))"
  shows "admitted_under sha256 templates w resolved context"
    "\<exists>compiled. events = frozen_draft p w resolved compiled # cs_drafts compiled \<and> ids = cs_vertexIds compiled \<and>
       compileVertexDrafts sha256 w resolved
         (map (\<lambda>(a, r). (a, bo_binding r)) (bindRouters sha256 templates w (derivePlacement (ac_scopes context))))
         newId (ac_brackets context) = Inr compiled"
  using assms admissionViolations_Nil
  by (auto simp: decide_freeze_def Let_def bind_res_Inr admitted_under_def scope_admission_clear split: if_splits)

lemma decide_freeze_refused:
  assumes "decide_freeze sha256 templates newId w resolved p context = Inr (Inl (stage, vs))"
  shows "vs \<noteq> []"
  using assms
  by (auto simp: decide_freeze_def Let_def bind_res_Inr checkScopeAdmission_def checkSubDag_def check_result_of_def split: if_splits)

section \<open>The trajectory of a submission\<close>

lemma freeze_or_reject_cases:
  fixes sha256 templates newId w resolved p k
  defines "decide \<equiv> decide_freeze sha256 templates newId w resolved p"
  assumes "numbered db" "freeze_or_reject sha256 vs guard templates newId k w resolved p db = (r, db')"
    and ctx: "ctx = readAdmissionContextWith db k (businessKeys w resolved)"
  shows "(\<exists>e. r = Inl e) \<and> db' = db \<or>
    (\<exists>stage violations. decide ctx = Inr (Inl (stage, violations)) \<and> r = Inr (Rejected p (next_seq db k) stage violations) \<and>
       recorded k [rejected_draft p stage violations] db db') \<or>
    (\<exists>events ids. decide ctx = Inr (Inr (events, ids)) \<and> r = Inr (Accepted p (next_seq db k) ids) \<and> recorded k events db db')"
proof -
  define frozen where "frozen = freezeUnderScopeLock Engine vs guard k (\<lambda>c. map_sum id decided_events (decide c)) (businessKeys w resolved) db"
  have run: "(r, db') = bind_op (\<lambda>_. case frozen of Inl e \<Rightarrow> (Inl e, db) | Inr (x, db') \<Rightarrow> (Inr x, db')) (\<lambda>sequences.
      bind_op (pure_op (decide ctx)) (\<lambda>decision. case decision of
        Inl (stage, violations) \<Rightarrow> reject vs guard k p stage violations
      | Inr (events, ids) \<Rightarrow> pure_op (Inr (Accepted p (hd (the sequences)) ids)))) db"
    using assms(3) by (simp add: freeze_or_reject_def Let_def transaction_def frozen_def decide_def ctx bind_op_def)
  show ?thesis
  proof (cases "decide ctx")
    case (Inl e)
    then have "frozen = Inl e" by (simp add: frozen_def freezeUnderScopeLock_def requireEngine_def ctx)
    then show ?thesis using run by (simp add: bind_op_def)
  next
    case (Inr decision)
    show ?thesis
    proof (cases decision)
      case (Inl refusal)
      then have "frozen = Inr (None, db)" using Inr by (simp add: frozen_def freezeUnderScopeLock_def requireEngine_def ctx decided_events_def)
      then have "reject vs guard k p (fst refusal) (snd refusal) db = (r, db')"
        using run Inr Inl by (simp add: bind_op_def pure_op_def case_prod_beta)
      from reject_cases [OF assms(2) this] show ?thesis using Inr Inl by (cases refusal) auto
    next
      case accepted: (Inr admitted)
      obtain events ids where admitted: "admitted = (events, ids)" by (cases admitted)
      then have dec: "decide ctx = Inr (Inr (events, ids))" using Inr accepted by simp
      show ?thesis
      proof (cases frozen)
        case (Inl e) then show ?thesis using run by (simp add: bind_op_def)
      next
        case (Inr x)
        then obtain seqs where x: "x = (Some seqs, snd x)" "appendWith vs guard k events db = Inr (seqs, snd x)"
          using dec by (auto simp: frozen_def freezeUnderScopeLock_def requireEngine_def ctx decided_events_def bind_res_Inr split: if_splits)
        note rec = appendWith_recorded [OF assms(2) x(2)]
        have "r = Inr (Accepted p (hd seqs) ids) \<and> db' = snd x"
          using run Inr x(1) dec by (auto simp: bind_op_def pure_op_def split: prod.splits)
        then show ?thesis using rec dec by (simp add: upt_rec)
      qed
    qed
  qed
qed

text \<open>The steps of a submission, one after the other.\<close>

lemma submit_cases:
  assumes "numbered db" "submit sha256 vs guard templates newId gateway k s db = (r, db')"
  shows "((\<exists>e. r = Inl e) \<and> db' = db) \<or>
    (\<exists>nw resolved db1. normalizeWorkflow s = Inr nw \<and> gateway = Inr resolved \<and>
       recorded k [proposed_draft sha256 s nw resolved] db db1 \<and> numbered db1 \<and>
       (let violations = resolutionViolations (nw_workflow nw) resolved in
        if violations \<noteq> [] then reject vs guard k (next_seq db k) StageResolution violations db1 = (r, db')
        else freeze_or_reject sha256 vs guard templates newId k (nw_workflow nw) resolved (next_seq db k) db1 = (r, db')))"
proof (cases "\<exists>e. normalizeWorkflow s = Inl e \<or> gateway = Inl e")
  case True
  then show ?thesis using assms(2) by (auto simp: submit_def bind_op_def pure_op_def split: sum.splits)
next
  case False
  then obtain nw resolved where ok: "normalizeWorkflow s = Inr nw" "gateway = Inr resolved"
    by (metis sum.exhaust)
  obtain q db1 where one: "appendOne vs guard k (proposed_draft sha256 s nw resolved) db = (q, db1)" by (meson prod.exhaust)
  from appendOne_cases [OF assms(1) one] show ?thesis
  proof
    assume "(\<exists>e. q = Inl e) \<and> db1 = db"
    then show ?thesis using assms(2) one ok by (auto simp: submit_def bind_op_def pure_op_def)
  next
    assume q: "q = Inr (next_seq db k) \<and> recorded k [proposed_draft sha256 s nw resolved] db db1"
    then have "numbered db1" by (simp add: recorded_def)
    then show ?thesis using assms(2) one ok q by (auto simp: submit_def bind_op_def pure_op_def Let_def)
  qed
qed

text \<open>C21: every submission that returns has ended its proposal.  The run's stream gains the proposal and
  then, directly behind it, either the rejection that names it with at least one violation or the freeze
  that names it followed by the compiled vertices, and nothing else; the returned numbers are theirs.  A
  submission that throws has recorded nothing, or its proposal alone.\<close>

theorem submit_trajectory:
  assumes "numbered db" "submit sha256 vs guard templates newId gateway k s db = (r, db')"
  shows "case r of
      Inl e \<Rightarrow> db' = db \<or> (\<exists>nw resolved. recorded k [proposed_draft sha256 s nw resolved] db db')
    | Inr (Rejected p q stage violations) \<Rightarrow> p = next_seq db k \<and> q = Suc p \<and> violations \<noteq> [] \<and>
        (\<exists>nw resolved. normalizeWorkflow s = Inr nw \<and> gateway = Inr resolved \<and>
          recorded k [proposed_draft sha256 s nw resolved, rejected_draft p stage violations] db db')
    | Inr (Accepted p f ids) \<Rightarrow> p = next_seq db k \<and> f = Suc p \<and>
        (\<exists>nw resolved compiled. normalizeWorkflow s = Inr nw \<and> gateway = Inr resolved \<and> ids = cs_vertexIds compiled \<and>
          recorded k (proposed_draft sha256 s nw resolved # frozen_draft p (nw_workflow nw) resolved compiled # cs_drafts compiled) db db')"
proof (cases "(\<exists>e. r = Inl e) \<and> db' = db")
  case False
  let ?p = "next_seq db k"
  obtain nw resolved db1 where step: "normalizeWorkflow s = Inr nw" "gateway = Inr resolved"
    "recorded k [proposed_draft sha256 s nw resolved] db db1" "numbered db1"
    and last: "let violations = resolutionViolations (nw_workflow nw) resolved in
        if violations \<noteq> [] then reject vs guard k ?p StageResolution violations db1 = (r, db')
        else freeze_or_reject sha256 vs guard templates newId k (nw_workflow nw) resolved ?p db1 = (r, db')"
    using submit_cases [OF assms] False by blast
  have at: "next_seq db1 k = Suc ?p" using recorded_next [OF step(3)] by simp
  consider (threw) e where "r = Inl e" "db' = db1"
    | (refused) stage violations where "violations \<noteq> []" "r = Inr (Rejected ?p (Suc ?p) stage violations)"
        "recorded k [rejected_draft ?p stage violations] db1 db'"
    | (froze) compiled where "r = Inr (Accepted ?p (Suc ?p) (cs_vertexIds compiled))"
        "recorded k (frozen_draft ?p (nw_workflow nw) resolved compiled # cs_drafts compiled) db1 db'"
  proof (cases "resolutionViolations (nw_workflow nw) resolved = []")
    case True
    then have f: "freeze_or_reject sha256 vs guard templates newId k (nw_workflow nw) resolved ?p db1 = (r, db')" using last by simp
    from freeze_or_reject_cases [OF step(4) f refl] show ?thesis
      using that at decide_freeze_refused decide_freeze_admitted(2) by metis
  next
    case False
    then have "reject vs guard k ?p StageResolution (resolutionViolations (nw_workflow nw) resolved) db1 = (r, db')" using last by simp
    from reject_cases [OF step(4) this] show ?thesis using that False at by metis
  qed
  then show ?thesis
    using recorded_trans [OF step(3)] step(1-3) by cases fastforce+
qed auto

text \<open>C22: an accepted submission was admitted against the scopes the freeze committed with.  Every tool it
  names is in the run's view, no scope of the run blocked new work, the rules accept the workflow together
  with the existing scopes, and every branch of every rule its routers bind is admissible where the router
  sits.\<close>

theorem submit_accepted_admitted:
  assumes "numbered db" "submit sha256 vs guard templates newId gateway k s db = (Inr (Accepted p f ids), db')"
  shows "\<exists>nw resolved db1. normalizeWorkflow s = Inr nw \<and> gateway = Inr resolved \<and>
    recorded k [proposed_draft sha256 s nw resolved] db db1 \<and>
    (\<forall>v\<in>set (ws_vertices (nw_workflow nw)). \<forall>t input key c. sv_body v = ToolBody t input key c \<longrightarrow> registry_has (rv_registry resolved) t) \<and>
    admitted_under sha256 templates (nw_workflow nw) resolved
      (readAdmissionContextWith db1 k (businessKeys (nw_workflow nw) resolved))"
proof -
  obtain nw resolved db1 where step: "normalizeWorkflow s = Inr nw" "gateway = Inr resolved"
    "recorded k [proposed_draft sha256 s nw resolved] db db1" "numbered db1"
    and last: "let violations = resolutionViolations (nw_workflow nw) resolved in
        if violations \<noteq> [] then reject vs guard k (next_seq db k) StageResolution violations db1 = (Inr (Accepted p f ids), db')
        else freeze_or_reject sha256 vs guard templates newId k (nw_workflow nw) resolved (next_seq db k) db1 = (Inr (Accepted p f ids), db')"
    using submit_cases [OF assms] by blast
  have known: "resolutionViolations (nw_workflow nw) resolved = []"
    using last reject_cases [OF step(4)] by (metis Inl_Inr_False Inr_inject submission_result.distinct(1))
  then have f: "freeze_or_reject sha256 vs guard templates newId k (nw_workflow nw) resolved (next_seq db k) db1 = (Inr (Accepted p f ids), db')"
    using last by simp
  from freeze_or_reject_cases [OF step(4) f refl] have "admitted_under sha256 templates (nw_workflow nw) resolved
      (readAdmissionContextWith db1 k (businessKeys (nw_workflow nw) resolved))"
    using decide_freeze_admitted(1) by fastforce
  moreover have "registry_has (rv_registry resolved) t"
    if "v \<in> set (ws_vertices (nw_workflow nw))" "sv_body v = ToolBody t input key c" for v t input key c
  proof (rule ccontr)
    assume "\<not> registry_has (rv_registry resolved) t"
    then have "resolutionViolations (nw_workflow nw) resolved \<noteq> []"
      using that by (auto simp: resolutionViolations_def List.map_filter_def filter_empty_conv intro!: bexI [of _ v])
    then show False using known by simp
  qed
  ultimately show ?thesis using step by blast
qed

section \<open>The contract of a submitter\<close>

text \<open>The drafts a returned submission has recorded, by their types.\<close>

fun ended_by :: "submission_result \<Rightarrow> event_draft list \<Rightarrow> bool" where
  "ended_by (Accepted p f ids) ds \<longleftrightarrow> (\<exists>a b cs. ds = a # b # cs \<and> dr_event_type a = SubgraphProposed \<and>
     dr_event_type b = SubgraphFrozen \<and> (\<forall>c\<in>set cs. dr_event_type c = VertexCreated))"
| "ended_by (Rejected p q stage violations) ds \<longleftrightarrow> violations \<noteq> [] \<and> (\<exists>a b. ds = [a, b] \<and>
     dr_event_type a = SubgraphProposed \<and> dr_event_type b = SubgraphRejected)"

locale submission_service =
  fixes submitter :: "workflow_submission \<Rightarrow> submission_result store_op" and k :: string
  assumes returned: "numbered db \<Longrightarrow> submitter s db = (Inr result, db') \<Longrightarrow> \<exists>ds. recorded k ds db db' \<and> ended_by result ds"
    and threw: "numbered db \<Longrightarrow> submitter s db = (Inl e, db') \<Longrightarrow>
      db' = db \<or> (\<exists>d. recorded k [d] db db' \<and> dr_event_type d = SubgraphProposed)"

lemma compiled_created:
  assumes "compileVertexDrafts sha256 w resolved bindings newId brackets = Inr compiled" "d \<in> set (cs_drafts compiled)"
  shows "dr_event_type d = VertexCreated"
proof -
  obtain ordered scopeIds slotIds vertexIds where
    "map_res (compile_vertex w resolved bindings brackets vertexIds scopeIds slotIds) ordered = Inr (cs_drafts compiled)"
    using assms(1) by (auto simp: compileVertexDrafts_def Let_def bind_res_Inr)
  with assms(2) obtain v where "compile_vertex w resolved bindings brackets vertexIds scopeIds slotIds v = Inr d"
    by (auto simp: map_res_Inr list_all2_conv_all_nth in_set_conv_nth)
  then show ?thesis by (auto simp: compile_vertex_def Let_def bind_res_Inr split: if_splits)
qed

lemma submit_returned:
  assumes "numbered db" "submit sha256 vs guard templates newId gateway k s db = (Inr result, db')"
  shows "\<exists>ds. recorded k ds db db' \<and> ended_by result ds"
proof -
  obtain nw resolved db1 where step: "recorded k [proposed_draft sha256 s nw resolved] db db1" "numbered db1"
    and last: "let violations = resolutionViolations (nw_workflow nw) resolved in
        if violations \<noteq> [] then reject vs guard k (next_seq db k) StageResolution violations db1 = (Inr result, db')
        else freeze_or_reject sha256 vs guard templates newId k (nw_workflow nw) resolved (next_seq db k) db1 = (Inr result, db')"
    using submit_cases [OF assms] by blast
  have types: "dr_event_type (proposed_draft sha256 s nw resolved) = SubgraphProposed"
    "dr_event_type (rejected_draft p stage violations) = SubgraphRejected"
    "dr_event_type (frozen_draft p w resolved compiled) = SubgraphFrozen" for p stage violations w compiled
    by (simp_all add: proposed_draft_def rejected_draft_def frozen_draft_def draft_def)
  show ?thesis
  proof (cases "resolutionViolations (nw_workflow nw) resolved = []")
    case True
    then have f: "freeze_or_reject sha256 vs guard templates newId k (nw_workflow nw) resolved (next_seq db k) db1 = (Inr result, db')"
      using last by simp
    from freeze_or_reject_cases [OF step(2) f refl] show ?thesis
    proof (elim disjE exE conjE)
      fix stage violations assume "decide_freeze sha256 templates newId (nw_workflow nw) resolved (next_seq db k)
          (readAdmissionContextWith db1 k (businessKeys (nw_workflow nw) resolved)) = Inr (Inl (stage, violations))"
        "recorded k [rejected_draft (next_seq db k) stage violations] db1 db'"
        "Inr result = Inr (Rejected (next_seq db k) (next_seq db1 k) stage violations)"
      then show ?thesis using recorded_trans [OF step(1)] decide_freeze_refused types by fastforce
    next
      fix events ids assume dec: "decide_freeze sha256 templates newId (nw_workflow nw) resolved (next_seq db k)
          (readAdmissionContextWith db1 k (businessKeys (nw_workflow nw) resolved)) = Inr (Inr (events, ids))"
        "recorded k events db1 db'" "Inr result = Inr (Accepted (next_seq db k) (next_seq db1 k) ids)"
      from decide_freeze_admitted(2) [OF dec(1)] obtain compiled where
        "events = frozen_draft (next_seq db k) (nw_workflow nw) resolved compiled # cs_drafts compiled"
        "\<forall>d\<in>set (cs_drafts compiled). dr_event_type d = VertexCreated" using compiled_created by blast
      then show ?thesis using recorded_trans [OF step(1) dec(2)] dec(3) types by auto
    qed simp
  next
    case False
    then have r: "reject vs guard k (next_seq db k) StageResolution (resolutionViolations (nw_workflow nw) resolved) db1 = (Inr result, db')"
      using last by simp
    from reject_cases [OF step(2) r] False show ?thesis using recorded_trans [OF step(1)] types by fastforce
  qed
qed

lemma submit_threw:
  assumes "numbered db" "submit sha256 vs guard templates newId gateway k s db = (Inl e, db')"
  shows "db' = db \<or> (\<exists>d. recorded k [d] db db' \<and> dr_event_type d = SubgraphProposed)"
proof -
  have "dr_event_type (proposed_draft sha256 s nw resolved) = SubgraphProposed" for nw resolved
    by (simp add: proposed_draft_def draft_def)
  then show ?thesis
    using submit_cases [OF assms] reject_cases freeze_or_reject_cases [OF _ _ refl]
    by (auto simp: Let_def split: if_splits) (metis Inl_Inr_False)+
qed

interpretation submission: submission_service "submit sha256 vs guard templates newId gateway k" k
  by unfold_locales (rule submit_returned, assumption+, rule submit_threw, assumption+)

section \<open>Concrete submissions\<close>

definition planner_vertex :: "string \<Rightarrow> string list \<Rightarrow> submitted_vertex" where
  "planner_vertex v parents = \<lparr>sv_id = v, sv_parents = Some parents, sv_scope = None, sv_body = PlannerBody None\<rparr>"

definition planner_submission :: "submitted_vertex list \<Rightarrow> workflow_submission" where
  "planner_submission vertices = \<lparr>ws_submissionId = ''s'', ws_schemaVersion = ''v1'', ws_vertices = vertices, ws_scopes = None,
     ws_workflowType = None, ws_attachTo = None, ws_source = None\<rparr>"

definition empty_view :: resolved_tool_view where
  "empty_view = \<lparr>rv_identity = \<lparr>vi_tool_view_ref = ''tv'', vi_tool_view_digest = ''sha256:0''\<rparr>,
     rv_document = JObj [(''tools'', JArr [])], rv_registry = []\<rparr>"

definition submit_planners :: "submitted_vertex list \<Rightarrow> submission_result res \<times> database" where
  "submit_planners vertices =
     submit id wit_valid wit_guard None (\<lambda>n. ''v'' @ nat_str n) (Inr empty_view) ''r'' (planner_submission vertices) wit_db1"

text \<open>C23: a cyclic workflow breaks the rule that every proposal is followed by its freeze or its rejection.
  Its closure is checked before the proposal is recorded and its acyclicity only under the lock, where
  the failure is thrown: the caller gets an error and the run keeps a proposal that nothing ends.\<close>

theorem cyclic_submission_unterminated:
  "\<exists>e db'. submit_planners [planner_vertex ''a'' [''b''], planner_vertex ''b'' [''a'']] = (Inl e, db') \<and>
     \<not> isl (normalizeWorkflow (planner_submission [planner_vertex ''a'' [''b''], planner_vertex ''b'' [''a'']])) \<and>
     readStream wit_db1 ''r'' None = [] \<and> map event_type (readStream db' ''r'' None) = [SubgraphProposed]"
proof -
  let ?cycle = "[planner_vertex ''a'' [''b''], planner_vertex ''b'' [''a'']]"
  have "isl (fst (submit_planners ?cycle))" by code_simp
  moreover have "\<not> isl (normalizeWorkflow (planner_submission ?cycle))" by code_simp
  moreover have "readStream wit_db1 ''r'' None = []" by code_simp
  moreover have "map event_type (readStream (snd (submit_planners ?cycle)) ''r'' None) = [SubgraphProposed]" by code_simp
  ultimately show ?thesis by (metis prod.collapse sum.collapse(1))
qed

lemma wit_submission:
  "submit_planners [planner_vertex ''a'' []] = (Inr (Accepted 1 2 [(''a'', ''v0'')]), snd (submit_planners [planner_vertex ''a'' []]))"
proof -
  have "fst (submit_planners [planner_vertex ''a'' []]) = Inr (Accepted 1 2 [(''a'', ''v0'')])" by code_simp
  then show ?thesis by (metis prod.collapse)
qed

theorem submit_trajectory_witness:
  "\<exists>nw compiled. recorded ''r'' (proposed_draft id (planner_submission [planner_vertex ''a'' []]) nw empty_view #
       frozen_draft 1 (nw_workflow nw) empty_view compiled # cs_drafts compiled) wit_db1 (snd (submit_planners [planner_vertex ''a'' []]))"
  using submit_trajectory [OF wit_numbered1 wit_submission [unfolded submit_planners_def]] by (simp add: submit_planners_def) metis

theorem submit_accepted_admitted_witness:
  "\<exists>nw db1. normalizeWorkflow (planner_submission [planner_vertex ''a'' []]) = Inr nw \<and>
     admitted_under id None (nw_workflow nw) empty_view (readAdmissionContextWith db1 ''r'' (businessKeys (nw_workflow nw) empty_view))"
  using submit_accepted_admitted [OF wit_numbered1 wit_submission [unfolded submit_planners_def]] by auto

end
