(* ===== verification/Router_Spec.thy ===== *)
theory Router_Spec
  imports Router Submission_Spec
begin

text \<open>
  What a router decides and records: the first branch whose condition holds, the meaning of a
  condition, the events of one evaluation, and what a branch loses when it is submitted.
\<close>

section \<open>Conditions\<close>

lemma every_res_Inr:
  assumes "\<And>x. x \<in> set xs \<Longrightarrow> f x = Inr (P x)"
  shows "every_res f xs = Inr (\<forall>x\<in>set xs. P x)"
  using assms by (induction xs) auto

lemma some_res_Inr:
  assumes "\<And>x. x \<in> set xs \<Longrightarrow> f x = Inr (P x)"
  shows "some_res f xs = Inr (\<exists>x\<in>set xs. P x)"
  using assms by (induction xs) auto

lemma some_res_Inl:
  assumes "some_res f xs = Inl e" shows "\<exists>x\<in>set xs. f x = Inl e"
  using assms
proof (induction xs)
  case (Cons x xs)
  then show ?case by (cases "f x") (auto split: if_splits)
qed simp

lemma every_res_Inl:
  assumes "every_res f xs = Inl e" shows "\<exists>x\<in>set xs. f x = Inl e"
  using assms
proof (induction xs)
  case (Cons x xs)
  then show ?case by (cases "f x") (auto split: if_splits)
qed simp

text \<open>A condition means what its text says: a disjunction of conjunctions of comparisons.  When every
  comparison can be decided it returns the truth of that formula, and when it throws some comparison of the
  text threw.\<close>

lemma evaluateCondition_formula:
  "((\<forall>disjunct\<in>set (split_pair CHR ''|'' condition). \<forall>clause\<in>set (split_pair CHR ''&'' disjunct).
       evaluateComparison clause facts = Inr (truth clause)) \<longrightarrow>
     evaluateCondition condition facts =
       Inr (\<exists>disjunct\<in>set (split_pair CHR ''|'' condition). \<forall>clause\<in>set (split_pair CHR ''&'' disjunct). truth clause)) \<and>
   (\<forall>e. evaluateCondition condition facts = Inl e \<longrightarrow>
     (\<exists>disjunct\<in>set (split_pair CHR ''|'' condition). \<exists>clause\<in>set (split_pair CHR ''&'' disjunct).
        evaluateComparison clause facts = Inl e))"
proof (intro conjI impI allI)
  assume "\<forall>disjunct\<in>set (split_pair CHR ''|'' condition). \<forall>clause\<in>set (split_pair CHR ''&'' disjunct).
    evaluateComparison clause facts = Inr (truth clause)"
  then show "evaluateCondition condition facts =
      Inr (\<exists>disjunct\<in>set (split_pair CHR ''|'' condition). \<forall>clause\<in>set (split_pair CHR ''&'' disjunct). truth clause)"
    unfolding evaluateCondition_def by (intro some_res_Inr every_res_Inr) auto
next
  fix e assume "evaluateCondition condition facts = Inl e"
  from some_res_Inl [OF this [unfolded evaluateCondition_def]]
  show "\<exists>disjunct\<in>set (split_pair CHR ''|'' condition). \<exists>clause\<in>set (split_pair CHR ''&'' disjunct).
      evaluateComparison clause facts = Inl e"
    using every_res_Inl by blast
qed

section \<open>The first matching branch\<close>

abbreviation condition_at :: "admissible_branch list \<Rightarrow> nat \<Rightarrow> router_facts \<Rightarrow> bool res" where
  "condition_at bs i facts \<equiv> evaluateCondition (ab_condition (bs ! i)) facts"

definition stops_at :: "admissible_branch list \<Rightarrow> router_facts \<Rightarrow> nat \<Rightarrow> bool res \<Rightarrow> bool" where
  "stops_at bs facts i r \<longleftrightarrow> i < length bs \<and> condition_at bs i facts = r \<and> (\<forall>j<i. condition_at bs j facts = Inr False)"

lemma stops_at_Cons:
  "stops_at (b # bs) facts i r \<longleftrightarrow> (case i of 0 \<Rightarrow> evaluateCondition (ab_condition b) facts = r
     | Suc j \<Rightarrow> evaluateCondition (ab_condition b) facts = Inr False \<and> stops_at bs facts j r)"
  by (auto simp: stops_at_def less_Suc_eq_0_disj split: nat.splits)

lemma first_match_iff:
  "first_match facts n bs = Matched i c d \<longleftrightarrow>
     (\<exists>j. i = n + j \<and> stops_at bs facts j (Inr True) \<and> c = ab_condition (bs ! j) \<and> d = ab_subDag (bs ! j))"
  "first_match facts n bs = NoMatch \<longleftrightarrow> (\<forall>b\<in>set bs. evaluateCondition (ab_condition b) facts = Inr False)"
  "first_match facts n bs = EvaluationError m \<longleftrightarrow> (\<exists>j e. stops_at bs facts j (Inl e) \<and> m = error_message e)"
proof (induction bs arbitrary: n)
  case Nil
  { case 1 then show ?case by (simp add: stops_at_def) }
  { case 2 then show ?case by simp }
  { case 3 then show ?case by (simp add: stops_at_def) }
next
  case (Cons b bs)
  have ex: "(\<exists>j. Q j) \<longleftrightarrow> Q 0 \<or> (\<exists>j. Q (Suc j))" for Q :: "nat \<Rightarrow> bool" by (metis not0_implies_Suc)
  { case 1
    show ?case by (subst ex) (auto simp: Cons stops_at_Cons split: sum.splits bool.splits) }
  { case 2
    show ?case by (auto simp: Cons split: sum.splits bool.splits) }
  { case 3
    show ?case by (subst ex) (auto simp: Cons stops_at_Cons split: sum.splits bool.splits) }
qed

lemma first_match_not_rejected: "first_match facts n bs \<noteq> ProposalRejected vs"
  by (induction bs arbitrary: n) (auto split: sum.splits bool.splits)

text \<open>C24: a router takes the first branch whose condition holds.  It matches a branch exactly when that
  branch's condition is true and every earlier one is false, falls through exactly when all are false,
  and reports an error exactly when the first condition that is not false throws, with its message;
  evaluation alone never reports a rejected proposal.\<close>

theorem evaluateRouter_first:
  "(evaluateRouter (Some t) facts = Matched i c d \<longleftrightarrow>
      stops_at (pt_branches t) facts i (Inr True) \<and> c = ab_condition (pt_branches t ! i) \<and> d = ab_subDag (pt_branches t ! i)) \<and>
   (evaluateRouter (Some t) facts = NoMatch \<longleftrightarrow> (\<forall>b\<in>set (pt_branches t). evaluateCondition (ab_condition b) facts = Inr False)) \<and>
   (evaluateRouter (Some t) facts = EvaluationError m \<longleftrightarrow>
      (\<exists>j e. stops_at (pt_branches t) facts j (Inl e) \<and> m = error_message e)) \<and>
   evaluateRouter (Some t) facts \<noteq> ProposalRejected vs"
  by (auto simp: evaluateRouter_def first_match_iff first_match_not_rejected)

section \<open>The executor\<close>

lemma append_one_cases:
  assumes "numbered db" "transaction (appendEvents vs guard k [d]) db = (r, db')"
  shows "(\<exists>e. r = Inl e) \<and> db' = db \<or> (\<exists>seqs. r = Inr seqs) \<and> recorded k [d] db db' \<and> numbered db'"
proof (cases "appendEvents vs guard k [d] db")
  case (Inl e) then show ?thesis using assms(2) by (auto simp: transaction_def)
next
  case (Inr x)
  then have "appendWith vs guard k [d] db = Inr (fst x, snd x)" by (simp add: appendEvents_def)
  from appendWith_recorded(1) [OF assms(1) this] show ?thesis
    using assms(2) Inr by (auto simp: transaction_def recorded_def split: prod.splits)
qed

lemma conclude_router_cases:
  assumes "numbered db" "conclude_router vs guard k v outcome emitted db = (r, db')"
  shows "(\<exists>e. r = Inl e) \<and> db' = db \<or>
    r = Inr \<lparr>re_outcome = outcome, re_emitted = emitted\<rparr> \<and> recorded k [outcome_draft v outcome] db db'"
proof -
  obtain q db1 where one: "transaction (appendEvents vs guard k [outcome_draft v outcome]) db = (q, db1)" by (meson prod.exhaust)
  from append_one_cases [OF assms(1) one] show ?thesis
    using assms(2) one by (auto simp: conclude_router_def bind_op_def pure_op_def)
qed

text \<open>The drafts between the start of a router and its end, by its outcome.\<close>

fun emitted_by :: "router_outcome \<Rightarrow> event_draft list \<Rightarrow> bool" where
  "emitted_by (Matched i c d) ds \<longleftrightarrow> ended_by (Accepted 0 0 []) ds"
| "emitted_by (ProposalRejected vs) ds \<longleftrightarrow> ended_by (Rejected 0 0 StageAdmission vs) ds"
| "emitted_by _ ds \<longleftrightarrow> ds = []"

context submission_service
begin

lemma run_branch_cases:
  assumes "numbered db" "run_branch vs guard submitter k v outcome db = (r, db')" "\<And>vs. outcome \<noteq> ProposalRejected vs"
  shows "case r of
      Inl e \<Rightarrow> db' = db \<or> (\<exists>ds. recorded k ds db db')
    | Inr ev \<Rightarrow> \<exists>ds. recorded k (ds @ [outcome_draft v (re_outcome ev)]) db db' \<and> emitted_by (re_outcome ev) ds \<and>
        (re_outcome ev = outcome \<or> (\<exists>i c d vs. outcome = Matched i c d \<and> re_outcome ev = ProposalRejected vs)) \<and>
        (re_emitted ev \<noteq> None \<longleftrightarrow> (\<exists>i c d. re_outcome ev = Matched i c d))"
proof (cases "\<exists>i c d. outcome = Matched i c d")
  case False
  then have end_: "conclude_router vs guard k v outcome None db = (r, db')"
    using assms(2,3) by (cases outcome) (auto simp: run_branch_def)
  have "emitted_by outcome []" using False assms(3) by (cases outcome) auto
  then show ?thesis using conclude_router_cases [OF assms(1) end_] False by (auto intro!: exI [of _ "[]"])
next
  case True
  then obtain i c d where out: "outcome = Matched i c d" by blast
  obtain q db1 where sub: "submitter (branch_submission v i d) db = (q, db1)" by (meson prod.exhaust)
  show ?thesis
  proof (cases q)
    case (Inl e)
    then have "r = Inl e" "db' = db1" using assms(2) sub by (simp_all add: run_branch_def out bind_op_def)
    then show ?thesis using threw [OF assms(1)] sub Inl by auto
  next
    case (Inr result)
    obtain ds where ds: "recorded k ds db db1" "ended_by result ds" using returned [OF assms(1)] sub Inr by blast
    then have num: "numbered db1" by (simp add: recorded_def)
    define final where "final = (case result of Accepted p f ids \<Rightarrow> outcome | Rejected p q st violations \<Rightarrow> ProposalRejected violations)"
    define em where "em = (case result of Accepted p f ids \<Rightarrow> Some ids | Rejected p q st violations \<Rightarrow> None)"
    have end_: "conclude_router vs guard k v final em db1 = (r, db')"
      using assms(2) sub Inr by (cases result) (simp_all add: run_branch_def out bind_op_def final_def em_def)
    have "emitted_by final ds" using ds(2) by (cases result) (simp_all add: final_def out)
    moreover have "final = outcome \<or> (\<exists>i c d violations. outcome = Matched i c d \<and> final = ProposalRejected violations)"
      "em \<noteq> None \<longleftrightarrow> (\<exists>i c d. final = Matched i c d)"
      by (cases result; simp add: final_def em_def out)+
    moreover note conclude_router_cases [OF num end_]
    ultimately show ?thesis
      using ds(1) recorded_trans [OF ds(1), of "[outcome_draft v final]" db']
      by (elim disjE [of "(\<exists>e. r = Inl e) \<and> db' = db1"]) (auto simp del: emitted_by.simps intro!: exI [of _ ds])
  qed
qed

lemma evaluate_recorded:
  assumes "numbered db" "evaluate vs guard templates submitter k v db = (r, db')"
  shows "case r of
      Inl e \<Rightarrow> db' = db \<or> (\<exists>ds. recorded k (started_draft v # ds) db db')
    | Inr ev \<Rightarrow> \<exists>ds. recorded k (started_draft v # ds @ [outcome_draft v (re_outcome ev)]) db db' \<and>
        emitted_by (re_outcome ev) ds \<and> (re_emitted ev \<noteq> None \<longleftrightarrow> (\<exists>i c d. re_outcome ev = Matched i c d))"
proof (cases "find (names_vertex VertexCreated v) (readStream db k None)")
  case None
  then show ?thesis using assms(2) by (auto simp: evaluate_def)
next
  case (Some created)
  define outcome where "outcome = evaluateRouter (bind_template templates created) (summaryFacts (readStream db k None) (parent_refs created))"
  obtain q db1 where one: "transaction (appendEvents vs guard k [started_draft v]) db = (q, db1)" by (meson prod.exhaust)
  from append_one_cases [OF assms(1) one] show ?thesis
  proof
    assume "(\<exists>e. q = Inl e) \<and> db1 = db"
    then show ?thesis using assms(2) Some one by (auto simp: evaluate_def Let_def bind_op_def)
  next
    assume q: "(\<exists>seqs. q = Inr seqs) \<and> recorded k [started_draft v] db db1 \<and> numbered db1"
    then have run: "run_branch vs guard submitter k v outcome db1 = (r, db')"
      using assms(2) Some one by (auto simp: evaluate_def Let_def bind_op_def outcome_def)
    have "outcome \<noteq> ProposalRejected violations" for violations
      by (auto simp: outcome_def evaluateRouter_def first_match_not_rejected split: option.splits)
    note branch = run_branch_cases [OF conjunct2 [OF conjunct2 [OF q]] run this]
    have more: "recorded k ds db1 db' \<Longrightarrow> recorded k (started_draft v # ds) db db'" for ds
      using recorded_trans [of k "[started_draft v]" db db1 ds db'] q by simp
    show ?thesis
    proof (cases r)
      case (Inl e) then show ?thesis using branch more q by auto
    next
      case (Inr ev) then show ?thesis using branch more by auto
    qed
  qed
qed

end

text \<open>C25: an evaluation that returns has recorded a strict trajectory in the run and nothing else: the start
  of the router, the events of its branch when one was submitted (a proposal and its freeze with the
  created vertices for a match, a proposal and its rejection for a refused branch, none otherwise), and
  its one terminal event, which is the one its outcome names.  Vertex ids are returned exactly for a
  match.  An evaluation that throws has recorded nothing, or has at least started the router.\<close>

theorem evaluate_trajectory:
  assumes "numbered db"
    "evaluate vs guard templates (submit sha256 vs guard resolver newId gateway k) k v db = (r, db')"
  shows "case r of
      Inl e \<Rightarrow> db' = db \<or> (\<exists>ds. recorded k (started_draft v # ds) db db')
    | Inr ev \<Rightarrow> \<exists>ds. recorded k (started_draft v # ds @ [outcome_draft v (re_outcome ev)]) db db' \<and>
        emitted_by (re_outcome ev) ds \<and> (re_emitted ev \<noteq> None \<longleftrightarrow> (\<exists>i c d. re_outcome ev = Matched i c d))"
  by (rule submission.evaluate_recorded [OF assms])

section \<open>What a branch loses\<close>

text \<open>C26: a branch vertex restated as a submitted one and lowered again is the vertex the template published,
  except that a router's pinned template and a tool's confirmed output are gone: what the freeze admitted is
  not what the router submits.\<close>

theorem toSubmittedVertex_lowered:
  assumes "pv_tool v = None \<longleftrightarrow> pv_kind v \<noteq> KTool" "pv_scopeId v \<noteq> Some []"
  shows "lower_vertex (toSubmittedVertex v) = v\<lparr>pv_confirmedOutput := False, pv_templateRef := None\<rparr>"
  using assms
  by (cases "pv_kind v"; cases "pv_scopeId v")
    (auto simp: lower_vertex_def toSubmittedVertex_def Workflow.parents_of_def sv_kind_def truthy_string_def present_def)

section \<open>Published conditions that cannot be decided\<close>

definition undecidable_draft :: rule_template_draft where
  "undecidable_draft = \<lparr>rd_templateRef = ''t'', rd_author = ''a'',
     rd_branches = [\<lparr>rb_condition = ''always'', rb_subDag = \<lparr>sd_vertices = [\<lparr>pv_id = ''p'', pv_parents = [], pv_kind = KPlanner,
        pv_tool = None, pv_scopeId = None, pv_confirmedOutput = False, pv_templateRef = None\<rparr>], sd_scopes = []\<rparr>\<rparr>],
     rd_slotId = None\<rparr>"

lemma always_unparsed: "COMPARISON ''always'' = None"
  by code_simp

lemma undecidable_condition: "evaluateCondition ''always'' facts = Inl (Error (''cannot parse condition clause '' @ [CHR 0x22] @ ''always'' @ [CHR 0x22]))"
proof -
  have "split_pair CHR ''|'' ''always'' = [''always'']" "split_pair CHR ''&'' ''always'' = [''always'']" "js_trim ''always'' = ''always''"
    by code_simp+
  then show ?thesis by (simp add: evaluateCondition_def evaluateComparison_def always_unparsed)
qed

text \<open>C27: publication admits a condition no router can decide.  The gate reads the field references of a
  condition and not its comparisons, so a template whose condition is no comparison at all is published,
  and every router that binds it fails with an evaluation error, whatever its upstream tools reported.\<close>

theorem published_undecidable:
  "\<exists>t. publishRuleTemplate id undecidable_draft empty_view = Inr (Admitted t) \<and>
     (\<forall>facts. \<exists>reason. evaluateRouter (Some t) facts = EvaluationError reason)"
proof -
  obtain t where t: "publishRuleTemplate id undecidable_draft empty_view = Inr (Admitted t)"
    and b: "map ab_condition (pt_branches t) = [''always'']"
  proof -
    have "(case publishRuleTemplate id undecidable_draft empty_view of
        Inr (Admitted t) \<Rightarrow> map ab_condition (pt_branches t) = [''always''] | _ \<Rightarrow> False)" by code_simp
    then show thesis using that by (auto split: sum.splits publication_result.splits)
  qed
  from b obtain branch where "pt_branches t = [branch]" "ab_condition branch = ''always''" by auto
  then have "evaluateRouter (Some t) facts = EvaluationError (error_message (Error (''cannot parse condition clause '' @ [CHR 0x22] @ ''always'' @ [CHR 0x22])))" for facts
    by (simp add: evaluateRouter_def undecidable_condition)
  then show ?thesis using t by blast
qed

section \<open>Witnesses\<close>

definition wit_rule_branch :: "string \<Rightarrow> admissible_branch" where
  "wit_rule_branch c = \<lparr>ab_condition = c, ab_subDag = \<lparr>sd_vertices = [], sd_scopes = []\<rparr>, ab_opensScope = False, ab_hasPivot = False, ab_maxEffect = EffNone\<rparr>"

definition wit_rule :: published_rule_template where
  "wit_rule = \<lparr>pt_templateRef = ''t'', pt_digest = ''d'', pt_author = ''a'',
     pt_branches = [wit_rule_branch (''crm.output.score < 1e1 && crm.output.tier == '' @ [CHR 0x22] @ ''gold'' @ [CHR 0x22]),
       wit_rule_branch ''crm.output.score >= 10''],
     pt_capability = capabilityOf [], pt_slotId = None\<rparr>"

definition wit_facts :: router_facts where
  "wit_facts = [(''crm'', [(''score'', JNum 25), (''tier'', JStr ''gold'')])]"

theorem evaluateRouter_first_witness:
  "evaluateRouter (Some wit_rule) wit_facts = Matched 1 ''crm.output.score >= 10'' \<lparr>sd_vertices = [], sd_scopes = []\<rparr> \<and>
   stops_at (pt_branches wit_rule) wit_facts 1 (Inr True)"
proof -
  have m: "evaluateRouter (Some wit_rule) wit_facts = Matched 1 ''crm.output.score >= 10'' \<lparr>sd_vertices = [], sd_scopes = []\<rparr>" by code_simp
  then show ?thesis using evaluateRouter_first [of wit_rule wit_facts 1] by blast
qed

theorem toSubmittedVertex_lowered_witness:
  "lower_vertex (toSubmittedVertex \<lparr>pv_id = ''r'', pv_parents = [''a''], pv_kind = KRouter, pv_tool = None, pv_scopeId = Some ''s'',
      pv_confirmedOutput = False, pv_templateRef = Some ''t''\<rparr>) =
   \<lparr>pv_id = ''r'', pv_parents = [''a''], pv_kind = KRouter, pv_tool = None, pv_scopeId = Some ''s'', pv_confirmedOutput = False, pv_templateRef = None\<rparr>"
  using toSubmittedVertex_lowered [of "\<lparr>pv_id = ''r'', pv_parents = [''a''], pv_kind = KRouter, pv_tool = None, pv_scopeId = Some ''s'',
      pv_confirmedOutput = False, pv_templateRef = Some ''t''\<rparr>"] by simp

definition wit_router_run :: "router_evaluation res \<times> database" where
  "wit_router_run = evaluate wit_valid wit_guard empty_template_store
     (submit id wit_valid wit_guard None (\<lambda>n. ''v'' @ nat_str n) (Inr empty_view) ''r'') ''r'' ''v'' wit_db"

theorem evaluate_trajectory_witness:
  "fst wit_router_run = Inr \<lparr>re_outcome = NoMatch, re_emitted = None\<rparr> \<and>
   recorded ''r'' [started_draft ''v'', outcome_draft ''v'' NoMatch] wit_db (snd wit_router_run)"
proof -
  have r: "fst wit_router_run = Inr \<lparr>re_outcome = NoMatch, re_emitted = None\<rparr>" by code_simp
  show ?thesis
    using evaluate_trajectory [OF wit_numbered, of wit_valid wit_guard empty_template_store id None "\<lambda>n. ''v'' @ nat_str n"
        "Inr empty_view" "''r''" "''v''" "fst wit_router_run" "snd wit_router_run"] r
    by (simp add: wit_router_run_def)
qed

end
