(* ===== verification/Planner_Spec.thy ===== *)
theory Planner_Spec
  imports Planner Router_Spec Recovery_Spec
begin

text \<open>
  What a planner turn guarantees: the shape of a proposal that is read, the events one turn records,
  and that an unreadable answer is found by the recovery ladder.
\<close>

section \<open>Reading a proposal\<close>

lemma map_reading_Inr: "map_reading f xs = Inr ys \<longleftrightarrow> list_all2 (\<lambda>x y. f x = Inr y) xs ys"
proof (induction xs arbitrary: ys)
  case (Cons x xs)
  then show ?case by (cases ys) (auto simp: bind_reading_Inr)
qed (auto simp: bind_reading_Inr)

lemma list_all2_right: "list_all2 P xs ys \<Longrightarrow> y \<in> set ys \<Longrightarrow> \<exists>x. P x y"
  by (induction rule: list_all2_induct) auto

lemma length_new_set: "length (new_set xs) = length xs \<longleftrightarrow> distinct xs"
  by (metis card_distinct distinct_card distinct_new_set set_new_set)

text \<open>The vertices a planner may propose.\<close>

definition planner_body :: "vertex_body \<Rightarrow> bool" where
  "planner_body b \<longleftrightarrow> (\<exists>goal. b = PlannerBody goal) \<or> (\<exists>t input. b = ToolBody t (Some input) None None \<and> js_trim t \<noteq> [])"

lemma read_vertex_sound:
  assumes "read_vertex e = Inr v"
  shows "planner_body (sv_body v)" "js_trim (sv_id v) \<noteq> []" "\<exists>ps. sv_parents v = Some ps"
proof -
  from assms obtain vertex where vertex: "snd e = JObj vertex" by (cases "snd e") (simp_all add: read_vertex_def)
  with assms obtain i parents body where i: "member vertex ''id'' = JStr i" "js_trim i \<noteq> []"
    and v: "read_body i vertex = Inr body" "v = \<lparr>sv_id = i, sv_parents = Some parents, sv_scope = as_string (member vertex ''scope''), sv_body = body\<rparr>"
    by (cases "member vertex ''id''") (auto simp: read_vertex_def not_blank_def bind_reading_Inr Let_def split: if_splits)
  have "planner_body body"
    using v(1) by (cases "value_or (member vertex ''input'') (JObj [])"; cases "member vertex ''tool''")
      (auto simp: read_body_def Let_def planner_body_def not_blank_def split: if_splits)
  with i v(2) show "planner_body (sv_body v)" "js_trim (sv_id v) \<noteq> []" "\<exists>ps. sv_parents v = Some ps" by simp_all
qed

lemma declare_members_keeps:
  assumes "declare_members s xs d = Inr d'"
  shows "(present (map_get d x) \<longrightarrow> map_get d' x = map_get d x) \<and> (x \<in> set xs \<longrightarrow> s \<noteq> [] \<longrightarrow> map_get d' x = Some s) \<and>
    (map_get d' x = map_get d x \<or> x \<in> set xs \<and> map_get d' x = Some s)"
  using assms
proof (induction xs arbitrary: d)
  case (Cons y xs)
  then have ok: "\<not> present (map_get d y) \<or> map_get d y = Some s" and rest: "declare_members s xs (map_set y s d) = Inr d'"
    by (auto simp: Let_def split: if_splits)
  from Cons.IH [OF rest] ok show ?case by (auto simp: map_get_map_set present_def split: if_splits)
qed simp

lemma declare_scopes_keeps:
  assumes "declare_scopes ss d = Inr d'"
  shows "(present (map_get d x) \<longrightarrow> map_get d' x = map_get d x) \<and>
    (\<forall>s\<in>set ss. x \<in> set (ps_members s) \<longrightarrow> ps_id s \<noteq> [] \<longrightarrow> map_get d' x = Some (ps_id s)) \<and>
    (map_get d' x = map_get d x \<or> (\<exists>s\<in>set ss. x \<in> set (ps_members s) \<and> map_get d' x = Some (ps_id s)))"
  using assms
proof (induction ss arbitrary: d)
  case (Cons s ss)
  then obtain d1 where d1: "declare_members (ps_id s) (ps_members s) d = Inr d1" "declare_scopes ss d1 = Inr d'"
    by (auto simp: bind_reading_Inr)
  note IH = Cons.IH [OF d1(2)] and here = declare_members_keeps [OF d1(1), of x]
  have p: "present (Some (ps_id s))" if "ps_id s \<noteq> []" using that by (simp add: present_def)
  show ?case using IH here p by auto
qed simp

lemma check_bound_Inr:
  assumes "check_bound scopes declared vs = Inr ()" "v \<in> set vs"
  shows "present (sv_scope v) \<Longrightarrow> the (sv_scope v) \<in> ps_id ` set scopes"
    "present (sv_scope v) \<Longrightarrow> present (map_get declared (sv_id v)) \<Longrightarrow> sv_scope v = map_get declared (sv_id v)"
  using assms by (induction vs) (auto simp: Let_def split: if_splits)

lemma refuse_foreign_Inr:
  assumes "refuse_foreign vertices vs = Inr ()" "v \<in> set vs"
  shows "foreign_parent vertices v = None"
  using assms by (induction vs) (auto split: option.splits)

lemma readProposal_parts:
  assumes "readProposal parse answer = Inr p"
  obtains es vertices scopes where "list_all2 (\<lambda>e v. read_vertex e = Inr v) es vertices" "vertices \<noteq> []"
    "\<forall>v\<in>set vertices. foreign_parent vertices v = None" "distinct (map sv_id vertices)" "bindScopeMembership vertices scopes = Inr p"
proof -
  obtain body where body: "parse (unfence answer) = Inr (JObj body)"
    using assms by (auto simp: readProposal_def split: sum.splits js.splits)
  then obtain x xs where xs: "member body ''vertices'' = JArr (x # xs)"
    using assms by (auto simp: readProposal_def split: js.splits list.splits)
  from assms obtain vertices scopes where parts: "map_reading read_vertex (enumerate 0 (x # xs)) = Inr vertices"
    "refuse_foreign vertices vertices = Inr ()" "length (new_set (map sv_id vertices)) = length (map sv_id vertices)"
    "bindScopeMembership vertices scopes = Inr p"
    by (auto simp: readProposal_def body xs bind_reading_Inr split: if_splits)
  have "list_all2 (\<lambda>e v. read_vertex e = Inr v) (enumerate 0 (x # xs)) vertices" using parts(1) by (simp only: map_reading_Inr)
  moreover from this have "vertices \<noteq> []" by (auto simp: list_all2_Cons1)
  moreover have "distinct (map sv_id vertices)" using parts(3) by (simp only: length_new_set)
  ultimately show ?thesis using that refuse_foreign_Inr [OF parts(2)] parts(4) by blast
qed

lemma bind_vertex_same [simp]: "sv_id (bind_vertex d v) = sv_id v" "sv_parents (bind_vertex d v) = sv_parents v" "sv_body (bind_vertex d v) = sv_body v"
  by (simp_all add: bind_vertex_def Let_def)

lemma bindScopeMembership_exact:
  assumes "bindScopeMembership vertices scopes = Inr p" "v \<in> set (rp_vertices p)" "distinct (map sv_id vertices)"
  shows "present (sv_scope v) \<Longrightarrow> the (sv_scope v) \<in> ps_id ` set (rp_scopes p)"
    "s \<in> set (rp_scopes p) \<Longrightarrow> ps_id s \<noteq> [] \<Longrightarrow> sv_scope v = Some (ps_id s) \<longleftrightarrow> sv_id v \<in> set (ps_members s)"
proof -
  obtain declared where d: "declare_scopes scopes [] = Inr declared" "check_bound scopes declared (map (bind_vertex declared) vertices) = Inr ()"
    and p: "p = \<lparr>rp_vertices = map (bind_vertex declared) vertices, rp_scopes = map (complete_scope (map (bind_vertex declared) vertices)) scopes\<rparr>"
    using assms(1) by (auto simp: bindScopeMembership_def Let_def bind_reading_Inr)
  have v: "v \<in> set (map (bind_vertex declared) vertices)" using assms(2) p by simp
  note bound = check_bound_Inr [OF d(2) v]
  show "the (sv_scope v) \<in> ps_id ` set (rp_scopes p)" if "present (sv_scope v)"
    using bound(1) that by (simp add: p complete_scope_def image_image)
  show "sv_scope v = Some (ps_id s) \<longleftrightarrow> sv_id v \<in> set (ps_members s)" if s: "s \<in> set (rp_scopes p)" "ps_id s \<noteq> []"
  proof -
    let ?bound = "map (bind_vertex declared) vertices"
    obtain t where t: "t \<in> set scopes" "s = complete_scope ?bound t" using s(1) p by auto
    have same: "ps_id s = ps_id t" "set (ps_members s) = set (ps_members t) \<union> sv_id ` {w \<in> set ?bound. sv_scope w = Some (ps_id t)}"
      by (simp_all add: t(2) complete_scope_def)
    have listed: "sv_scope v = Some (ps_id t)" if "sv_id v \<in> set (ps_members t)"
    proof -
      have m: "map_get declared (sv_id v) = Some (ps_id t)"
        using declare_scopes_keeps [OF d(1), of "sv_id v"] t(1) that s(2) same(1) by metis
      have "present (sv_scope v)" using v m s(2) same(1) by (auto simp: bind_vertex_def Let_def)
      then show ?thesis using bound(2) m s(2) same(1) by simp
    qed
    have ids: "distinct (map sv_id ?bound)" using assms(3) by (simp add: comp_def)
    show ?thesis
    proof
      assume "sv_scope v = Some (ps_id s)"
      then show "sv_id v \<in> set (ps_members s)" using v unfolding same by blast
    next
      assume "sv_id v \<in> set (ps_members s)"
      then consider "sv_id v \<in> set (ps_members t)" | w where "w \<in> set ?bound" "sv_scope w = Some (ps_id t)" "sv_id v = sv_id w"
        unfolding same by blast
      then show "sv_scope v = Some (ps_id s)"
      proof cases
        case 1 then show ?thesis using listed same(1) by simp
      next
        case 2
        then have "w = v" using ids v by (metis (no_types) distinct_map inj_on_def)
        then show ?thesis using 2(2) same(1) by simp
      qed
    qed
  qed
qed


section \<open>The events of a turn\<close>

lemma recorded_numbered: "recorded k ds db db' \<Longrightarrow> numbered db'"
  by (simp add: recorded_def)

lemma append_cases:
  assumes "numbered db" "transaction (appendEvents vs guard k ds) db = (r, db')"
  shows "(\<exists>e. r = Inl e) \<and> db' = db \<or> (\<exists>seqs. r = Inr seqs) \<and> recorded k ds db db'"
proof (cases "appendEvents vs guard k ds db")
  case (Inl e) then show ?thesis using assms(2) by (auto simp: transaction_def)
next
  case (Inr x)
  then have "appendWith vs guard k ds db = Inr (fst x, snd x)" by (auto simp: appendEvents_def split: if_splits)
  from appendWith_recorded(1) [OF assms(1) this] show ?thesis
    using assms(2) Inr by (auto simp: transaction_def split: prod.splits)
qed

lemma record_call_cases:
  assumes "numbered db" "record_call sha256 vs guard lib llm config k v messages db = (r, db')"
  shows "case r of
      Inl e \<Rightarrow> db' = db
    | Inr px \<Rightarrow> \<exists>endpoint. llm messages = Inr (px_call px) \<and> recorded k [charged_draft config endpoint v (px_call px),
        call_succeeded_draft v (px_call px) (px_outputDigest px)] db db'"
proof (cases "\<exists>e. llm messages = Inl e \<or> publicEndpoint lib (pc_endpoint config) = Inl e")
  case True
  then show ?thesis using assms(2) by (auto simp: record_call_def bind_op_def pure_op_def split: sum.splits)
next
  case False
  then obtain result endpoint where ok: "llm messages = Inr result" "publicEndpoint lib (pc_endpoint config) = Inr endpoint"
    by (metis sum.exhaust)
  let ?ds = "[charged_draft config endpoint v result, call_succeeded_draft v result (digest sha256 (JStr (cl_content result)))]"
  obtain q db1 where app: "transaction (appendEvents vs guard k ?ds) db = (q, db1)" by (meson prod.exhaust)
  show ?thesis
  proof (cases q)
    case (Inl e)
    then show ?thesis using append_cases [OF assms(1) app] assms(2) app ok by (auto simp: record_call_def bind_op_def pure_op_def Let_def)
  next
    case (Inr seqs)
    then have "recorded k ?ds db db'" "r = Inr \<lparr>px_call = result, px_inputDigest = digest sha256 (JArr (map message_json messages)),
        px_outputDigest = digest sha256 (JStr (cl_content result))\<rparr>"
      using append_cases [OF assms(1) app] assms(2) app ok by (simp_all add: record_call_def bind_op_def pure_op_def Let_def)
    then show ?thesis using ok(1) by simp blast
  qed
qed

text \<open>A call that returns has recorded its start, its charge and its success; one that throws at most its start and a failure.\<close>

lemma execute_cases:
  assumes "numbered db" "execute sha256 vs guard lib llm config k v messages db = (r, db')"
  shows "case r of
      Inl e \<Rightarrow> db' = db \<or> (\<exists>d ds. recorded k (d # ds) db db' \<and> dr_event_type d = VertexStarted \<and>
        (ds = [] \<or> (\<exists>e'. ds = [call_failed_draft config v e'])))
    | Inr px \<Rightarrow> \<exists>endpoint. llm messages = Inr (px_call px) \<and>
        recorded k [call_started_draft v (digest sha256 (JArr (map message_json messages))), charged_draft config endpoint v (px_call px),
          call_succeeded_draft v (px_call px) (px_outputDigest px)] db db'"
proof -
  let ?start = "call_started_draft v (digest sha256 (JArr (map message_json messages)))"
  have type: "dr_event_type ?start = VertexStarted" by (simp add: call_started_draft_def router_draft_def draft_def)
  obtain q db1 where one: "transaction (appendEvents vs guard k [?start]) db = (q, db1)" by (meson prod.exhaust)
  obtain c db2 where call: "record_call sha256 vs guard lib llm config k v messages db1 = (c, db2)" by (meson prod.exhaust)
  from append_cases [OF assms(1) one] show ?thesis
  proof (elim disjE conjE exE)
    fix e assume "q = Inl e" "db1 = db"
    then show ?thesis using assms(2) one by (auto simp: execute_def Let_def bind_op_def)
  next
    fix seqs assume q: "q = Inr seqs" "recorded k [?start] db db1"
    note rec = record_call_cases [OF recorded_numbered [OF q(2)] call]
    show ?thesis
    proof (cases c)
      case (Inr px)
      then have "r = Inr px" "db' = db2" using assms(2) one q call by (simp_all add: execute_def Let_def bind_op_def catch_op_def)
      moreover obtain endpoint where "llm messages = Inr (px_call px)" "recorded k [charged_draft config endpoint v (px_call px),
        call_succeeded_draft v (px_call px) (px_outputDigest px)] db1 db2" using rec Inr by auto
      ultimately show ?thesis using recorded_trans [OF q(2), of _ db2] by (auto intro: exI [of _ endpoint])
    next
      case (Inl e)
      then have same: "db2 = db1" using rec by simp
      obtain f db3 where fail: "transaction (appendEvents vs guard k [call_failed_draft config v e]) db1 = (f, db3)" by (meson prod.exhaust)
      have r: "\<exists>e'. r = Inl e'" "db' = db3"
        using assms(2) one q call Inl same fail by (auto simp: execute_def Let_def bind_op_def catch_op_def pure_op_def split: sum.splits)
      from append_cases [OF recorded_numbered [OF q(2)] fail] have "recorded k [?start] db db' \<or> recorded k [?start, call_failed_draft config v e] db db'"
        using r(2) q(2) recorded_trans [OF q(2), of "[call_failed_draft config v e]" db'] by auto
      then have started: "\<exists>d ds. recorded k (d # ds) db db' \<and> dr_event_type d = VertexStarted \<and> (ds = [] \<or> (\<exists>e'. ds = [call_failed_draft config v e']))"
        using type by blast
      from r(1) obtain e' where r': "r = Inl e'" by blast
      show ?thesis unfolding r' sum.case by (rule disjI2) (rule started)
    qed
  qed
qed

text \<open>The events of a returned turn, behind the three of its call.\<close>

fun turn_events :: "(string \<Rightarrow> string) \<Rightarrow> string \<Rightarrow> planner_turn \<Rightarrow> event_draft list \<Rightarrow> bool" where
  "turn_events sha256 v (TurnUnreadable reason answer) ds \<longleftrightarrow> ds = [unreadable_draft sha256 v reason answer]"
| "turn_events sha256 v (TurnFrozen result answer) ds \<longleftrightarrow> (\<exists>p f ids. result = Accepted p f ids) \<and> ended_by result ds"
| "turn_events sha256 v (TurnRejected result answer) ds \<longleftrightarrow> (\<exists>p q stage violations. result = Rejected p q stage violations) \<and> ended_by result ds"

definition call_events :: "string \<Rightarrow> event_draft list \<Rightarrow> bool" where
  "call_events v ds \<longleftrightarrow> map dr_event_type ds = [VertexStarted, BudgetCharged, VertexSucceeded] \<and> (\<forall>d\<in>set ds. dr_vertex_id d = Some v)"

lemma call_events_drafts:
  "call_events v [call_started_draft v i, charged_draft config endpoint v result, call_succeeded_draft v result output]"
  by (simp add: call_events_def call_started_draft_def charged_draft_def call_succeeded_draft_def router_draft_def draft_def)

context submission_service
begin

lemma advance_recorded:
  assumes "numbered db" "tr_runId request = k" "tr_plannerVertexId request = v"
    and run: "advance sha256 vs guard parse pv hv (execute sha256 vs guard lib llm config k v) submitter request view db = (Inr turn, db')"
  shows "\<exists>call ds. recorded k (call @ ds) db db' \<and> call_events v call \<and> turn_events sha256 v turn ds"
proof -
  obtain seen where ctx: "planner_context sha256 pv hv db k v = Inr seen"
    using run assms(2,3) by (cases "planner_context sha256 pv hv db k v") (auto simp: advance_def Let_def bind_op_def pure_op_def)
  obtain x db1 where ex: "execute sha256 vs guard lib llm config k v (compose seen request view) db = (x, db1)" by (meson prod.exhaust)
  obtain px where px: "x = Inr px" using run assms(2,3) ctx ex by (cases x) (auto simp: advance_def Let_def bind_op_def pure_op_def)
  obtain call where call: "recorded k call db db1" "call_events v call"
    using execute_cases [OF assms(1) ex [unfolded px]] call_events_drafts by auto
  note num = recorded_numbered [OF call(1)]
  let ?answer = "cl_content (px_call px)"
  have "\<exists>ds. recorded k ds db1 db' \<and> turn_events sha256 v turn ds"
  proof (cases "readProposal parse ?answer")
    case (Inl reason)
    obtain q db2 where app: "transaction (appendEvents vs guard k [unreadable_draft sha256 v reason ?answer]) db1 = (q, db2)" by (meson prod.exhaust)
    have "\<exists>seqs. q = Inr seqs" "turn = TurnUnreadable reason ?answer" "db' = db2"
      using run assms(2,3) ctx ex px Inl app
      by (auto simp: advance_def Let_def bind_op_def pure_op_def split: sum.splits)
    then show ?thesis using append_cases [OF num app] by auto
  next
    case (Inr parsed)
    obtain q db2 where sub: "submitter (turn_submission request parsed) db1 = (q, db2)" by (meson prod.exhaust)
    obtain result where result: "q = Inr result" "db' = db2"
      "turn = (case result of Accepted _ _ _ \<Rightarrow> TurnFrozen result ?answer | Rejected _ _ _ _ \<Rightarrow> TurnRejected result ?answer)"
      using run assms(2,3) ctx ex px Inr sub
      by (auto simp: advance_def Let_def bind_op_def pure_op_def split: sum.splits)
    from returned [OF num sub [unfolded result(1)]] obtain ds where ds: "recorded k ds db1 db2" "ended_by result ds" by blast
    have "turn_events sha256 v turn ds" using ds(2) result(3) by (cases result) simp_all
    then show ?thesis using ds(1) result(2) by blast
  qed
  then show ?thesis using call recorded_trans by blast
qed

end

text \<open>C29: a turn that returns has recorded one charged and successful call of its planner and then, depending on
  the answer, the refusal of an unreadable one or a submission with its proposal and its freeze or
  rejection; nothing else is appended to the run.\<close>

theorem advance_trajectory:
  assumes "numbered db" "tr_runId request = k" "tr_plannerVertexId request = v"
    "advance sha256 vs guard parse pv hv (execute sha256 vs guard lib llm config k v)
       (submit sha256 vs guard templates newId gateway k) request view db = (Inr turn, db')"
  shows "\<exists>call ds. recorded k (call @ ds) db db' \<and> call_events v call \<and> turn_events sha256 v turn ds"
  by (rule submission.advance_recorded [OF assms])

section \<open>An unreadable answer is found\<close>

lemma stalled_last:
  assumes "sorted (map run_seq (es @ [row]))" "event_type row = SubgraphUnreadable" "member (payload row) ''planner_vertex_id'' = JStr v"
    "v \<notin> answered_stalls (es @ [row])"
  shows "v \<in> set (stalledPlanners (es @ [row]))"
proof -
  have "\<not> has_later_child (es @ [row]) row v" using assms(1) by (auto simp: has_later_child_def sorted_append)
  then have "v \<in> set (stalled_step (es @ [row]) stalled row)" for stalled
    using assms(2-4) by (simp add: stalled_step_def)
  then show ?thesis by (simp add: stalledPlanners_def)
qed

lemma recorded_last:
  assumes "recorded k (ds @ [d]) db db'"
  obtains rows row where "readStream db' k None = readStream db k None @ rows @ [row]" "list_all2 stores ds rows" "stores d row"
proof -
  from assms obtain rs where rs: "readStream db' k None = readStream db k None @ rs" "list_all2 stores (ds @ [d]) rs"
    by (auto simp: recorded_def)
  then obtain rows row where "rs = rows @ [row]" "list_all2 stores ds rows" "stores d row"
    by (auto simp: list_all2_append1 list_all2_Cons1)
  then show thesis using that rs(1) by simp
qed

lemma stored_type: "stores d row \<Longrightarrow> event_type row = dr_event_type d"
  by (auto simp: stores_def draft_row_def)

lemma answered_stalls_append: "answered_stalls (es @ rows) = answered_stalls es \<union> answered_stalls rows"
  by (simp add: answered_stalls_def List.map_filter_def)

lemma answered_stalls_empty: "\<forall>e\<in>set rows. event_type e \<noteq> ReplanBoundary \<Longrightarrow> answered_stalls rows = {}"
  by (auto simp: answered_stalls_def List.map_filter_def)


section \<open>Concrete turns\<close>

definition wit_url :: url_library where
  "wit_url = \<lparr>parse_url = (\<lambda>s. Inr \<lparr>ur_protocol = ''https:'', ur_username = [], ur_password = [], ur_hostname = ''h'',
     ur_search = [], ur_hash = [], ur_rest = s\<rparr>), url_text = ur_rest\<rparr>"

definition wit_config :: llm_provider_config where
  "wit_config = \<lparr>pc_provider = ''x'', pc_protocol = OpenAiChatCompletions, pc_endpoint = ''https://h'', pc_apiKey = ''k'', pc_model = ''m'',
     pc_timeoutMs = 60000, pc_maxOutputTokens = None, pc_requestOptions = None, pc_additionalHeaders = None, pc_pricing = None\<rparr>"

definition wit_llm :: "llm_message list \<Rightarrow> llm_call_result res" where
  "wit_llm messages = Inr (openai_result wit_config 1 (JObj [(''choices'', JArr [JObj [(''message'', JObj [(''content'', JStr ''answer'')])]])]))"

definition wit_planner_db :: database where
  "wit_planner_db = snd (projr (appendEvents wit_valid wit_guard ''r'' [router_draft VertexCreated ''p'' [(''role'', JStr ''planner'')]] wit_db1))"

definition wit_turn :: planner_turn_request where
  "wit_turn = \<lparr>tr_runId = ''r'', tr_plannerVertexId = ''p'', tr_taskInput = [], tr_workflowType = ''w'', tr_goal = ''g'', tr_evidence = None, tr_attempt = None\<rparr>"

definition run_turn :: "(string \<Rightarrow> js reading) \<Rightarrow> planner_turn res \<times> database" where
  "run_turn parse = advance wit_hash wit_valid wit_guard parse ''1'' ''1'' (execute wit_hash wit_valid wit_guard wit_url wit_llm wit_config ''r'' ''p'')
     (submit wit_hash wit_valid wit_guard None (\<lambda>n. ''v'' @ nat_str n) (Inr empty_view) ''r'') wit_turn empty_view wit_planner_db"

text \<open>With a constant digest and answer the call does not depend on the prompt, so the turn evaluates without it.\<close>

lemma wit_execute: "execute wit_hash vs guard lib wit_llm config k v = (\<lambda>_. execute wit_hash vs guard lib wit_llm config k v [])"
proof
  fix messages
  have "digest wit_hash x = ''sha256:00''" for x by (simp add: digest_def wit_hash_def)
  then show "execute wit_hash vs guard lib wit_llm config k v messages = execute wit_hash vs guard lib wit_llm config k v []"
    by (simp add: execute_def record_call_def wit_llm_def)
qed

lemma run_turn_promptless [code]:
  "run_turn parse = advance wit_hash wit_valid wit_guard parse ''1'' ''1''
     (\<lambda>_. execute wit_hash wit_valid wit_guard wit_url wit_llm wit_config ''r'' ''p'' [])
     (submit wit_hash wit_valid wit_guard None (\<lambda>n. ''v'' @ nat_str n) (Inr empty_view) ''r'') wit_turn empty_view wit_planner_db"
  unfolding run_turn_def by (subst wit_execute) (rule refl)

definition one_planner :: "js \<Rightarrow> string \<Rightarrow> js reading" where
  "one_planner parents answer = Inr (JObj [(''vertices'', JArr [JObj [(''id'', JStr ''a''), (''kind'', JStr ''planner''), (''parents'', parents)]])])"

lemma wit_planner_numbered: "numbered wit_planner_db"
proof -
  let ?app = "appendWith wit_valid wit_guard ''r'' [router_draft VertexCreated ''p'' [(''role'', JStr ''planner'')]] wit_db1"
  have "\<not> isl ?app" by code_simp
  then have "?app = Inr (fst (projr ?app), wit_planner_db)" by (cases ?app) (auto simp: wit_planner_db_def appendEvents_def)
  from recorded_numbered [OF appendWith_recorded(1) [OF wit_numbered1 this]] show ?thesis .
qed

lemma wit_unreadable: "run_turn (\<lambda>_. Inl ''bad'') = (Inr (TurnUnreadable ''answer is not JSON: bad'' ''answer''), snd (run_turn (\<lambda>_. Inl ''bad'')))"
proof -
  have "fst (run_turn (\<lambda>_. Inl ''bad'')) = Inr (TurnUnreadable ''answer is not JSON: bad'' ''answer'')" by code_simp
  then show ?thesis by (metis prod.collapse)
qed


theorem advance_trajectory_witness:
  "\<exists>call ds. recorded ''r'' (call @ ds) wit_planner_db (snd (run_turn (\<lambda>_. Inl ''bad''))) \<and> call_events ''p'' call \<and>
     turn_events wit_hash ''p'' (TurnUnreadable ''answer is not JSON: bad'' ''answer'') ds"
  by (rule advance_trajectory [OF wit_planner_numbered _ _ wit_unreadable [unfolded run_turn_def], folded run_turn_def]) (simp_all add: wit_turn_def)


text \<open>C31: an answer whose vertex names the empty parent is read as a proposal, because the check for parents
  outside the answer takes the empty name it found for none found.  The submission then throws on the
  unknown parent, so the planner has succeeded, nothing was proposed, no refusal is recorded, and nothing
  is outstanding: the run stops unseen.\<close>

theorem empty_parent_lost:
  "\<exists>e db'. run_turn (one_planner (JArr [JStr []])) = (Inl e, db') \<and>
     map event_type (readStream db' ''r'' None) = [VertexCreated, VertexStarted, BudgetCharged, VertexSucceeded] \<and>
     outstanding (readStream db' ''r'' None) = []"
proof -
  let ?run = "run_turn (one_planner (JArr [JStr []]))"
  have "isl (fst ?run)" by code_simp
  moreover have "map event_type (readStream (snd ?run) ''r'' None) = [VertexCreated, VertexStarted, BudgetCharged, VertexSucceeded]" by code_simp
  moreover have "outstanding (readStream (snd ?run) ''r'' None) = []" by code_simp
  ultimately show ?thesis by (metis prod.collapse sum.collapse(1))
qed

end
