(* ===== verification/Console_Projection.thy ===== *)
theory Console_Projection
  imports Projection Recovery
begin

text \<open>
  The operator's view of a run (console/server/src/projection/model.ts, projection.ts and detail.ts):
  the shapes of the console model, the fold that advances it by one batch of events and reports the
  deltas of the batch, and the bodies of the detail endpoints.

  A payload is JSON that the source reads through a cast.  A member the source stores as it is stays
  a \<^typ>\<open>js\<close> value here; token counts, amounts and currencies are read as the numbers and strings the
  cast says.  The fold updates the objects of the previous model in place; a definition here returns
  the value they have afterwards.  A delta of a replan holds a reference to the replan, so a pending
  delta is the index of its replan and is resolved when the batch is finished.
\<close>

section \<open>Reading a payload\<close>

text \<open>\<open>v ?? d\<close> and \<open>v?.k\<close> on JSON values.\<close>

definition coalesce :: "js \<Rightarrow> js \<Rightarrow> js" where
  "coalesce v d = (if v = JUndef \<or> v = JNull then d else v)"

definition js_truthy :: "js \<Rightarrow> bool" where
  "js_truthy v =
     (case v of JUndef \<Rightarrow> False | JNull \<Rightarrow> False | JBool b \<Rightarrow> b | JNum r \<Rightarrow> r \<noteq> 0 | JStr s \<Rightarrow> s \<noteq> [] | _ \<Rightarrow> True)"

text \<open>A value as the key of a property.\<close>

fun property_key :: "js \<Rightarrow> string" where
  "property_key JUndef = ''undefined''"
| "property_key JNull = ''null''"
| "property_key (JBool b) = (if b then ''true'' else ''false'')"
| "property_key (JNum r) = number_str r"
| "property_key (JStr s) = s"
| "property_key (JArr xs) = js_join '','' (map (\<lambda>x. if x = JUndef \<or> x = JNull then [] else property_key x) xs)"
| "property_key (JObj ob) = ''[object Object]''"

definition number_or :: "js \<Rightarrow> rat \<Rightarrow> rat" where
  "number_or v d = nullish (as_num v) d"

text \<open>\<open>v ? m.get(v) : undefined\<close>.\<close>

definition lookup_present :: "(string, 'v) js_map \<Rightarrow> string option \<Rightarrow> 'v option" where
  "lookup_present m k = (if present k then map_get m (the k) else None)"

section \<open>The console model\<close>

record console_stall =
  sl_reason :: js
  sl_answer_digest :: js
  sl_at_run_seq :: nat

record console_txn =
  tx_scope_id :: "string option"
  tx_is_pivot :: bool
  tx_effect_class :: js
  tx_pivot_passed :: bool

record console_timing =
  tm_started_at :: "string option"
  tm_last_attempt_started_at :: "string option"
  tm_completed_at :: "string option"
  tm_duration_ms :: "int option"
  tm_attempts :: rat

datatype bracket_phase = BracketSealed | BracketConfirmed | BracketWithdrawn

record console_bracket =
  kb_state :: bracket_phase
  kb_idempotency_key :: js
  kb_deadline_at :: js

datatype console_router_outcome =
    OutcomePending
  | OutcomeMatched string js
  | OutcomeFellThrough
  | OutcomeEvaluationError js
  | OutcomeProposalRejected js

record console_call_cost =
  cc_model :: js
  cc_duration_ms :: js
  cc_input_tokens :: rat
  cc_output_tokens :: rat
  cc_amount :: "rat option"
  cc_currency :: "string option"

datatype decider = ByPlanner | ByRouter

record console_vertex =
  cv_vertex_id :: string
  cv_parent_refs :: "string list"
  cv_label :: js
  cv_role :: string
  cv_tool :: "string option"
  cv_tool_version :: "string option"
  cv_status :: string
  cv_is_shadowed :: bool
  cv_shadowed_at_seq :: "nat option"
  cv_decided_by :: decider
  cv_pin_version :: "string option"
  cv_input :: js
  cv_log_fields :: js
  cv_created_seq :: nat
  cv_frozen_by_seq :: "nat option"
  cv_depth :: nat
  cv_txn :: console_txn
  cv_timing :: console_timing
  cv_bracket :: "console_bracket option"
  cv_router_outcome :: "console_router_outcome option"
  cv_cost :: "console_call_cost option"
  cv_in_planner_prompt :: bool
  cv_stall :: "console_stall option"

record console_scope =
  cs_scope_id :: string
  cs_state :: js
  cs_member_vertex_ids :: "string list"
  cs_pivot_vertex_id :: "string option"
  cs_pivot_passed_seq :: "nat option"
  cs_pivot_declaration_mismatch :: bool
  cs_opened_seq :: nat
  cs_closed_seq :: "nat option"

record console_replan =
  rp_at_run_seq :: nat
  rp_vertex_ids :: "string list"
  rp_boundary_seq :: js
  rp_boundary_vertex_id :: js
  rp_reason :: js

datatype proposal_outcome = ProposalFrozen | ProposalRefused | ProposalOpen

record console_proposal =
  pr_proposed_seq :: nat
  pr_outcome :: proposal_outcome
  pr_source :: decider
  pr_terminal_seq :: "nat option"
  pr_stage :: js
  pr_violations :: js

record console_cancel_request =
  cq_at_run_seq :: nat
  cq_failed_vertex_id :: js
  cq_scope_ids :: js
  cq_level :: js
  cq_intended_boundary_vertex_id :: js
  cq_reason :: js

record console_counterfactual =
  cf_child_run_id :: js
  cf_at_vertex_id :: js
  cf_eval_up_to_seq :: js
  cf_at_run_seq :: nat

record console_spend =
  sp_calls :: nat
  sp_input_tokens :: rat
  sp_output_tokens :: rat
  sp_amount :: "rat option"
  sp_currency :: "string option"

datatype run_kind = ProductionRun | CounterfactualRun

record announcement =
  an_label :: js
  an_frozen_by_seq :: nat

record console_dag_model =
  cd_run_id :: string
  cd_kind :: run_kind
  cd_at_run_seq :: nat
  cd_started_at :: "string option"
  cd_vertices :: "console_vertex list"
  cd_scopes :: "console_scope list"
  cd_replans :: "console_replan list"
  cd_proposals :: "console_proposal list"
  cd_cancel_requests :: "console_cancel_request list"
  cd_counterfactuals :: "console_counterfactual list"
  cd_spend :: console_spend
  cd_announced :: "(string, announcement) js_map"
  cd_projector_version :: string

text \<open>A delta: its envelope and what changed.\<close>

datatype delta_body =
    SubgraphAppended "console_vertex list" "console_scope list"
  | ReplanShadowed console_replan
  | VertexPatched console_vertex

record console_delta =
  de_at_run_seq :: nat
  de_ordinal :: nat
  de_spend :: console_spend
  de_body :: delta_body

definition CONSOLE_PROJECTOR_VERSION :: string where
  "CONSOLE_PROJECTOR_VERSION = ''console-projector@v2''"

definition emptyConsoleDag :: "string \<Rightarrow> string \<Rightarrow> console_dag_model" where
  "emptyConsoleDag runId version =
     \<lparr>cd_run_id = runId, cd_kind = ProductionRun, cd_at_run_seq = 0, cd_started_at = None, cd_vertices = [],
      cd_scopes = [], cd_replans = [], cd_proposals = [], cd_cancel_requests = [], cd_counterfactuals = [],
      cd_spend = \<lparr>sp_calls = 0, sp_input_tokens = 0, sp_output_tokens = 0, sp_amount = None, sp_currency = None\<rparr>,
      cd_announced = [], cd_projector_version = version\<rparr>"

section \<open>The pure helpers\<close>

definition vertexRole :: "js \<Rightarrow> string" where
  "vertexRole role =
     (case role of
        JStr r \<Rightarrow> if r \<in> {''planner'', ''tool'', ''router'', ''confirmation-barrier''} then r else ''unknown''
      | _ \<Rightarrow> ''unknown'')"

definition proposalOf :: "stored_event \<Rightarrow> console_proposal" where
  "proposalOf e =
     \<lparr>pr_proposed_seq = run_seq e, pr_outcome = ProposalOpen,
      pr_source = (if member (payload e) ''source'' = JStr ''router'' then ByRouter else ByPlanner),
      pr_terminal_seq = None, pr_stage = JNull, pr_violations = JArr []\<rparr>"

definition cancelRequestOf :: "stored_event \<Rightarrow> console_cancel_request" where
  "cancelRequestOf e =
     \<lparr>cq_at_run_seq = run_seq e,
      cq_failed_vertex_id = coalesce (member (payload e) ''failed_vertex_id'') (JStr []),
      cq_scope_ids = coalesce (member (payload e) ''scope_ids'') (JArr []),
      cq_level = coalesce (member (payload e) ''level'') (JStr []),
      cq_intended_boundary_vertex_id = coalesce (member (payload e) ''intended_boundary_vertex_id'') JNull,
      cq_reason = coalesce (member (payload e) ''reason'') (JStr [])\<rparr>"

definition counterfactualOf :: "stored_event \<Rightarrow> console_counterfactual" where
  "counterfactualOf e =
     \<lparr>cf_child_run_id = coalesce (member (payload e) ''child_run_id'') (JStr []),
      cf_at_vertex_id = coalesce (member (payload e) ''at_vertex_id'') (JStr []),
      cf_eval_up_to_seq = coalesce (member (payload e) ''eval_up_to_seq'') (num 0), cf_at_run_seq = run_seq e\<rparr>"

definition routerOutcome :: "string \<Rightarrow> json_object \<Rightarrow> console_router_outcome" where
  "routerOutcome status p =
     (if status = ''failed''
      then (if member p ''outcome'' = JStr ''proposal_rejected''
            then OutcomeProposalRejected (coalesce (member p ''violations'') (JArr []))
            else OutcomeEvaluationError (coalesce (member p ''reason'') JNull))
      else (case member p ''matched_condition'' of
              JStr c \<Rightarrow> OutcomeMatched c (coalesce (member p ''branch'') JNull)
            | _ \<Rightarrow> OutcomeFellThrough))"

text \<open>
  \<open>Date.parse\<close> of a timestamp written by \<open>toISOString\<close>, in milliseconds since the epoch, with the day
  number of a year and of a month as the language standard gives them.  Every \<open>created_at\<close> has that
  form; any other string is no number here.
\<close>

definition leap_year :: "int \<Rightarrow> bool" where
  "leap_year y = (y mod 4 = 0 \<and> (y mod 100 \<noteq> 0 \<or> y mod 400 = 0))"

definition day_from_year :: "int \<Rightarrow> int" where
  "day_from_year y = 365 * (y - 1970) + (y - 1969) div 4 - (y - 1901) div 100 + (y - 1601) div 400"

definition month_lengths :: "int \<Rightarrow> int list" where
  "month_lengths y = [31, if leap_year y then 29 else 28, 31, 30, 31, 30, 31, 31, 30, 31, 30, 31]"

definition iso_number :: "nat \<Rightarrow> nat \<Rightarrow> string \<Rightarrow> int" where
  "iso_number i n s = int (nat_of_str (take n (drop i s)))"

definition iso_shape :: "string \<Rightarrow> bool" where
  "iso_shape s =
     (length s = 24 \<and>
      list_all2 (\<lambda>c p. if p = CHR ''d'' then is_digit c else c = p) s ''dddd-dd-ddTdd:dd:dd.dddZ'')"

definition date_parse :: "string \<Rightarrow> int option" where
  "date_parse s =
     (if iso_shape s \<and> 1 \<le> iso_number 5 2 s \<and> iso_number 5 2 s \<le> 12 then
        (let y = iso_number 0 4 s;
             day = day_from_year y + sum_list (take (nat (iso_number 5 2 s) - 1) (month_lengths y)) + iso_number 8 2 s - 1
         in Some (((day * 24 + iso_number 11 2 s) * 60 + iso_number 14 2 s) * 60000 + iso_number 17 2 s * 1000 + iso_number 20 3 s))
      else None)"

definition elapsed :: "string option \<Rightarrow> string \<Rightarrow> int option" where
  "elapsed startedAt completedAt =
     (if \<not> present startedAt then None
      else (case (date_parse completedAt, date_parse (the startedAt)) of
              (Some b, Some a) \<Rightarrow> Some (b - a) | _ \<Rightarrow> None))"

text \<open>What \<^const>\<open>rendersInPlannerPrompt\<close> reads of a vertex: its role and its matched condition.\<close>

definition prompt_vertex :: "string \<Rightarrow> string option option \<Rightarrow> surface_vertex" where
  "prompt_vertex role cond =
     \<lparr>sx_vertex_id = [], sx_parent_refs = [], sx_role = Some role, sx_tool = None, sx_parameters = JUndef,
      sx_result = JUndef, sx_status = None, sx_matched_condition = cond, sx_created_seq = 0\<rparr>"

section \<open>The working set of one batch\<close>

record fold_state =
  fs_model :: console_dag_model
  fs_vertices :: "(string, console_vertex) js_map"
  fs_scopes :: "(string, console_scope) js_map"
  fs_replan_deltas :: "nat list"
  fs_appended :: "(nat, string list) js_map"
  fs_patched :: "string js_set"
  fs_last_seq :: nat

definition fold_state_of :: "console_dag_model \<Rightarrow> fold_state" where
  "fold_state_of previous =
     \<lparr>fs_model = previous\<lparr>cd_vertices := [], cd_scopes := []\<rparr>,
      fs_vertices = new_map (map (\<lambda>v. (cv_vertex_id v, v)) (cd_vertices previous)),
      fs_scopes = new_map (map (\<lambda>sc. (cs_scope_id sc, sc)) (cd_scopes previous)),
      fs_replan_deltas = [], fs_appended = [], fs_patched = [], fs_last_seq = 0\<rparr>"

definition touch :: "fold_state \<Rightarrow> string \<Rightarrow> fold_state" where
  "touch s v =
     (if \<exists>ids\<in>set (map snd (fs_appended s)). v \<in> set ids then s
      else s\<lparr>fs_patched := set_add (fs_patched s) v\<rparr>)"

definition put_vertex :: "fold_state \<Rightarrow> console_vertex \<Rightarrow> fold_state" where
  "put_vertex s v = s\<lparr>fs_vertices := map_set (cv_vertex_id v) v (fs_vertices s)\<rparr>"

subsection \<open>Proposals and freezes\<close>

definition proposal_at :: "js \<Rightarrow> console_proposal list \<Rightarrow> nat option" where
  "proposal_at sq ps =
     (case filter (\<lambda>i. num (pr_proposed_seq (ps ! i)) = sq) [0..<length ps] of
        i # _ \<Rightarrow> Some i
      | [] \<Rightarrow> if ps = [] then None else Some (length ps - 1))"

definition closeProposal :: "stored_event \<Rightarrow> proposal_outcome \<Rightarrow> fold_state \<Rightarrow> fold_state" where
  "closeProposal e result s =
     (let ps = cd_proposals (fs_model s) in
      case proposal_at (member (payload e) ''proposed_seq'') ps of
        None \<Rightarrow> s
      | Some i \<Rightarrow>
          s\<lparr>fs_model := (fs_model s)\<lparr>cd_proposals := ps[i := (ps ! i)\<lparr>pr_outcome := result, pr_terminal_seq := Some (run_seq e),
              pr_stage := coalesce (member (payload e) ''stage'') JNull,
              pr_violations := coalesce (member (payload e) ''violations'') (JArr [])\<rparr>]\<rparr>\<rparr>)"

definition new_scope :: "string \<Rightarrow> nat \<Rightarrow> console_scope" where
  "new_scope scopeId openedSeq =
     \<lparr>cs_scope_id = scopeId, cs_state = JStr ''open'', cs_member_vertex_ids = [], cs_pivot_vertex_id = None,
      cs_pivot_passed_seq = None, cs_pivot_declaration_mismatch = False, cs_opened_seq = openedSeq, cs_closed_seq = None\<rparr>"

definition ensureScope :: "string \<Rightarrow> nat \<Rightarrow> fold_state \<Rightarrow> console_scope \<times> fold_state" where
  "ensureScope scopeId openedSeq s =
     (case map_get (fs_scopes s) scopeId of
        Some sc \<Rightarrow> (sc, s)
      | None \<Rightarrow> (new_scope scopeId openedSeq,
                 s\<lparr>fs_scopes := map_set scopeId (new_scope scopeId openedSeq) (fs_scopes s)\<rparr>))"

text \<open>The scope of an event, opened if need be and changed.\<close>

definition change_scope :: "string \<Rightarrow> nat \<Rightarrow> (console_scope \<Rightarrow> console_scope) \<Rightarrow> fold_state \<Rightarrow> fold_state" where
  "change_scope scopeId sq f s =
     (let (sc, s1) = ensureScope scopeId sq s in s1\<lparr>fs_scopes := map_set scopeId (f sc) (fs_scopes s1)\<rparr>)"

definition members_of_scope :: "string \<Rightarrow> fold_state \<Rightarrow> string list" where
  "members_of_scope scopeId s = (case map_get (fs_scopes s) scopeId of None \<Rightarrow> [] | Some sc \<Rightarrow> cs_member_vertex_ids sc)"

text \<open>\<open>entry.k\<close> on an entry of an array: null and undefined have no members.\<close>

definition entry_member :: "string \<Rightarrow> js \<Rightarrow> js res" where
  "entry_member k entry =
     (if entry = JUndef \<or> entry = JNull then Inl (Error (''Cannot read properties of '' @ property_key entry))
      else Inr (get_member entry k))"

definition announce :: "nat \<Rightarrow> fold_state \<Rightarrow> js \<Rightarrow> fold_state res" where
  "announce sq s entry =
     bind_res (entry_member ''author_id'' entry) (\<lambda>label.
     bind_res (entry_member ''vertex_id'' entry) (\<lambda>v.
     Inr (s\<lparr>fs_model := (fs_model s)\<lparr>cd_announced :=
            map_set (property_key v) \<lparr>an_label = label, an_frozen_by_seq = sq\<rparr> (cd_announced (fs_model s))\<rparr>\<rparr>)))"

definition open_scope :: "nat \<Rightarrow> fold_state \<Rightarrow> js \<Rightarrow> fold_state res" where
  "open_scope sq s entry =
     bind_res (entry_member ''scope_id'' entry) (\<lambda>v. Inr (snd (ensureScope (property_key v) sq s)))"

fun fold_res :: "('s \<Rightarrow> 'a \<Rightarrow> 's res) \<Rightarrow> 's \<Rightarrow> 'a list \<Rightarrow> 's res" where
  "fold_res f s [] = Inr s"
| "fold_res f s (x # xs) = bind_res (f s x) (\<lambda>s'. fold_res f s' xs)"

definition freeze :: "stored_event \<Rightarrow> fold_state \<Rightarrow> fold_state res" where
  "freeze e s =
     bind_res (iterate (member (payload e) ''vertices'')) (\<lambda>vertices.
     bind_res (fold_res (announce (run_seq e)) (closeProposal e ProposalFrozen s) vertices) (\<lambda>s1.
     bind_res (iterate (member (payload e) ''scopes'')) (\<lambda>scopes.
     fold_res (open_scope (run_seq e)) s1 scopes)))"

subsection \<open>Vertices\<close>

definition decidedBy :: "fold_state \<Rightarrow> decider" where
  "decidedBy s =
     (let ps = cd_proposals (fs_model s) in
      if ps \<noteq> [] \<and> pr_source (last ps) = ByRouter \<and> pr_outcome (last ps) = ProposalFrozen then ByRouter else ByPlanner)"

definition depthOf :: "string list \<Rightarrow> fold_state \<Rightarrow> nat" where
  "depthOf parents s =
     foldl (\<lambda>depth p. case map_get (fs_vertices s) p of None \<Rightarrow> depth | Some x \<Rightarrow> max depth (cv_depth x + 1)) 0 parents"

definition console_vertex_of :: "stored_event \<Rightarrow> fold_state \<Rightarrow> console_vertex" where
  "console_vertex_of e s =
     (let v = the (vertex_id e); announced = map_get (cd_announced (fs_model s)) v;
          role = vertexRole (member (payload e) ''role'');
          effectClass = coalesce (get_member (member (payload e) ''txn'') ''effect_class'') JNull in
      \<lparr>cv_vertex_id = v, cv_parent_refs = parent_refs e,
       cv_label = coalesce (case announced of None \<Rightarrow> JUndef | Some a \<Rightarrow> an_label a) (JStr (take 8 v)), cv_role = role,
       cv_tool = as_string (member (payload e) ''tool''), cv_tool_version = as_string (member (payload e) ''tool_version''),
       cv_status = ''created'', cv_is_shadowed = False, cv_shadowed_at_seq = None, cv_decided_by = decidedBy s,
       cv_pin_version = pin_version e, cv_input = coalesce (member (payload e) ''input'') JNull, cv_log_fields = JNull,
       cv_created_seq = run_seq e, cv_frozen_by_seq = map_option an_frozen_by_seq announced,
       cv_depth = depthOf (parent_refs e) s,
       cv_txn = \<lparr>tx_scope_id = scope_id e, tx_is_pivot = (effectClass = JStr ''irreversible''),
                 tx_effect_class = effectClass, tx_pivot_passed = False\<rparr>,
       cv_timing = \<lparr>tm_started_at = None, tm_last_attempt_started_at = None, tm_completed_at = None,
                    tm_duration_ms = None, tm_attempts = 0\<rparr>,
       cv_bracket = None, cv_router_outcome = (if role = ''router'' then Some OutcomePending else None), cv_cost = None,
       cv_in_planner_prompt = rendersInPlannerPrompt (prompt_vertex role None), cv_stall = None\<rparr>)"

definition joined :: "console_vertex \<Rightarrow> console_scope \<Rightarrow> console_scope" where
  "joined v sc =
     (let sc1 = (if cv_vertex_id v \<in> set (cs_member_vertex_ids sc) then sc
                 else sc\<lparr>cs_member_vertex_ids := cs_member_vertex_ids sc @ [cv_vertex_id v]\<rparr>)
      in if tx_is_pivot (cv_txn v) then sc1\<lparr>cs_pivot_vertex_id := Some (cv_vertex_id v)\<rparr> else sc1)"

definition join_scope :: "stored_event \<Rightarrow> console_vertex \<Rightarrow> fold_state \<Rightarrow> fold_state" where
  "join_scope e v s =
     (if \<not> present (scope_id e) then s else change_scope (the (scope_id e)) (run_seq e) (joined v) s)"

definition create :: "stored_event \<Rightarrow> fold_state \<Rightarrow> fold_state" where
  "create e s =
     (if \<not> present (vertex_id e) then s
      else (let v = console_vertex_of e s; s1 = join_scope e v (put_vertex s v);
                group = nullish (cv_frozen_by_seq v) (cv_created_seq v)
            in s1\<lparr>fs_model := (fs_model s1)\<lparr>cd_announced := map_delete (cv_vertex_id v) (cd_announced (fs_model s1))\<rparr>,
                  fs_appended := map_set group (nullish (map_get (fs_appended s1) group) [] @ [cv_vertex_id v]) (fs_appended s1)\<rparr>))"

definition advance_timing :: "string \<Rightarrow> stored_event \<Rightarrow> console_timing \<Rightarrow> console_timing" where
  "advance_timing status e t =
     (if status = ''started'' then
        t\<lparr>tm_started_at := (case tm_started_at t of None \<Rightarrow> Some (created_at e) | Some x \<Rightarrow> Some x),
          tm_last_attempt_started_at := Some (created_at e), tm_completed_at := None, tm_duration_ms := None,
          tm_attempts := max (tm_attempts t) 1\<rparr>
      else if status = ''retried'' then
        t\<lparr>tm_attempts := tm_attempts t + 1, tm_completed_at := None, tm_duration_ms := None\<rparr>
      else
        t\<lparr>tm_completed_at := Some (created_at e), tm_duration_ms := elapsed (tm_started_at t) (created_at e),
          tm_attempts := number_or (member (payload e) ''attempts'') (tm_attempts t)\<rparr>)"

definition settle_router :: "string \<Rightarrow> json_object \<Rightarrow> console_vertex \<Rightarrow> console_vertex" where
  "settle_router status p v =
     (if cv_role v = ''router'' \<and> (status = ''succeeded'' \<or> status = ''failed'') then
        (let result = routerOutcome status p in
         v\<lparr>cv_router_outcome := Some result,
           cv_in_planner_prompt := rendersInPlannerPrompt (prompt_vertex ''router''
             (Some (case result of OutcomeMatched c _ \<Rightarrow> Some c | _ \<Rightarrow> None)))\<rparr>)
      else v)"

definition lived :: "stored_event \<Rightarrow> console_vertex \<Rightarrow> console_vertex" where
  "lived e v =
     (let status = lifecycle_status (event_type e);
          v1 = v\<lparr>cv_status := status, cv_timing := advance_timing status e (cv_timing v)\<rparr>;
          v2 = (if status = ''succeeded'' \<and> js_truthy (member (payload e) ''log_fields'')
                then v1\<lparr>cv_log_fields := member (payload e) ''log_fields''\<rparr> else v1)
      in settle_router status (payload e) v2)"

text \<open>The step most handlers share: a vertex is looked up, changed and touched, or nothing happens.\<close>

definition change_vertex :: "string option \<Rightarrow> (console_vertex \<Rightarrow> console_vertex) \<Rightarrow> fold_state \<Rightarrow> fold_state" where
  "change_vertex k f s =
     (case lookup_present (fs_vertices s) k of
        None \<Rightarrow> s
      | Some v \<Rightarrow> touch (s\<lparr>fs_vertices := map_set (the k) (f v) (fs_vertices s)\<rparr>) (cv_vertex_id v))"

definition lifecycle :: "stored_event \<Rightarrow> fold_state \<Rightarrow> fold_state" where
  "lifecycle e s = change_vertex (vertex_id e) (lived e) s"

subsection \<open>Shadowing and replans\<close>

definition unreadable :: "stored_event \<Rightarrow> fold_state \<Rightarrow> fold_state" where
  "unreadable e s =
     change_vertex (as_string (member (payload e) ''planner_vertex_id''))
       (\<lambda>v. v\<lparr>cv_stall := Some \<lparr>sl_reason = coalesce (member (payload e) ''reason'') (JStr ''the answer was not a proposal''),
          sl_answer_digest = coalesce (member (payload e) ''answer_digest'') (JStr []), sl_at_run_seq = run_seq e\<rparr>\<rparr>) s"

definition hidden_ids :: "stored_event \<Rightarrow> fold_state \<Rightarrow> string js_set" where
  "hidden_ids e s =
     (let bySeq = (case member (payload e) ''vertex_seqs'' of JArr xs \<Rightarrow> xs | _ \<Rightarrow> []) in
      set_union (new_set (stringArray (member (payload e) ''vertex_ids'')))
        (map cv_vertex_id (filter (\<lambda>v. num (cv_created_seq v) \<in> set bySeq) (map snd (fs_vertices s)))))"

definition hide :: "nat \<Rightarrow> (string, console_vertex) js_map \<Rightarrow> string \<Rightarrow> (string, console_vertex) js_map" where
  "hide sq vs v =
     (case map_get vs v of
        None \<Rightarrow> vs
      | Some x \<Rightarrow> if cv_is_shadowed x then vs
                  else map_set v (x\<lparr>cv_is_shadowed := True, cv_shadowed_at_seq := Some sq\<rparr>) vs)"

text \<open>The replan of an event, by its index: an existing one with the same boundary, or a new one.\<close>

definition replanFor :: "stored_event \<Rightarrow> js \<Rightarrow> js \<Rightarrow> fold_state \<Rightarrow> nat \<times> fold_state" where
  "replanFor e boundarySeq boundaryVertexId s =
     (let rs = cd_replans (fs_model s) in
      case filter (\<lambda>i. boundarySeq \<noteq> JUndef \<and> rp_boundary_seq (rs ! i) = boundarySeq) [0..<length rs] of
        i # _ \<Rightarrow> (i, s)
      | [] \<Rightarrow> (length rs, s\<lparr>fs_model := (fs_model s)\<lparr>cd_replans := rs @
            [\<lparr>rp_at_run_seq = run_seq e, rp_vertex_ids = [], rp_boundary_seq = coalesce boundarySeq JNull,
              rp_boundary_vertex_id = coalesce boundaryVertexId JNull, rp_reason = JNull\<rparr>]\<rparr>\<rparr>))"

text \<open>The replan is changed and its delta is pushed.\<close>

definition record_replan :: "stored_event \<Rightarrow> js \<Rightarrow> (console_replan \<Rightarrow> console_replan) \<Rightarrow> fold_state \<Rightarrow> fold_state" where
  "record_replan e boundaryVertexId f s =
     (let (i, s1) = replanFor e (member (payload e) ''boundary_seq'') boundaryVertexId s;
          rs = cd_replans (fs_model s1); r = f (rs ! i)
      in s1\<lparr>fs_model := (fs_model s1)\<lparr>cd_replans := rs[i := r\<lparr>
              rp_reason := coalesce (member (payload e) ''reason'') (rp_reason r)\<rparr>]\<rparr>,
            fs_replan_deltas := fs_replan_deltas s1 @ [i]\<rparr>)"

definition shadow :: "stored_event \<Rightarrow> fold_state \<Rightarrow> fold_state" where
  "shadow e s =
     (let hidden = hidden_ids e s;
          s1 = s\<lparr>fs_vertices := foldl (hide (run_seq e)) (fs_vertices s) hidden\<rparr>
      in record_replan e (member (payload e) ''boundary_vertex_id'')
           (\<lambda>r. r\<lparr>rp_vertex_ids := new_set (rp_vertex_ids r @ hidden)\<rparr>) s1)"

definition boundary :: "stored_event \<Rightarrow> fold_state \<Rightarrow> fold_state" where
  "boundary e s =
     record_replan e (coalesce (member (payload e) ''boundary_vertex_id'') (js_option (vertex_id e))) (\<lambda>r. r) s"

subsection \<open>Transactions\<close>

definition touch_all :: "fold_state \<Rightarrow> string list \<Rightarrow> fold_state" where
  "touch_all s ids = foldl touch s ids"

definition declared :: "stored_event \<Rightarrow> console_scope \<Rightarrow> console_scope" where
  "declared e sc =
     (let state = member (payload e) ''state''; pivot = member (payload e) ''pivot_vertex'';
          sc1 = (if js_truthy state then sc\<lparr>cs_state := state\<rparr> else sc);
          sc2 = (if state = JStr ''committed'' \<or> state = JStr ''cancelled''
                 then sc1\<lparr>cs_closed_seq := Some (run_seq e)\<rparr> else sc1)
      in if js_truthy pivot \<and> present (cs_pivot_vertex_id sc2) \<and> pivot \<noteq> JStr (the (cs_pivot_vertex_id sc2))
         then sc2\<lparr>cs_pivot_declaration_mismatch := True\<rparr> else sc2)"

definition scopeState :: "stored_event \<Rightarrow> fold_state \<Rightarrow> fold_state" where
  "scopeState e s =
     (if \<not> present (scope_id e) then s
      else (let k = the (scope_id e); s1 = change_scope k (run_seq e) (declared e) s
            in touch_all s1 (members_of_scope k s1)))"

definition sealed :: "stored_event \<Rightarrow> console_vertex \<Rightarrow> console_vertex" where
  "sealed e v = v\<lparr>cv_bracket := Some \<lparr>kb_state = BracketSealed,
     kb_idempotency_key = coalesce (member (payload e) ''idempotency_key'') JNull,
     kb_deadline_at = coalesce (member (payload e) ''deadline_at'') JNull\<rparr>\<rparr>"

definition set_bracket :: "bracket_phase \<Rightarrow> console_vertex \<Rightarrow> console_vertex" where
  "set_bracket phase v = v\<lparr>cv_bracket := map_option (\<lambda>b. b\<lparr>kb_state := phase\<rparr>) (cv_bracket v)\<rparr>"

definition withdraw_member :: "bool \<Rightarrow> fold_state \<Rightarrow> string \<Rightarrow> fold_state" where
  "withdraw_member completed s v =
     (case map_get (fs_vertices s) v of
        Some x \<Rightarrow>
          touch (if completed \<and> map_option kb_state (cv_bracket x) = Some BracketSealed
                 then s\<lparr>fs_vertices := map_set v (set_bracket BracketWithdrawn x) (fs_vertices s)\<rparr> else s) v
      | None \<Rightarrow> touch s v)"

definition withdrawn :: "stored_event \<Rightarrow> bool \<Rightarrow> console_scope \<Rightarrow> console_scope" where
  "withdrawn e completed sc =
     (let sc1 = sc\<lparr>cs_state := JStr (if completed then ''cancelled'' else ''cancelling'')\<rparr>
      in if completed then sc1\<lparr>cs_closed_seq := Some (run_seq e)\<rparr> else sc1)"

definition cancel_scope :: "stored_event \<Rightarrow> fold_state \<Rightarrow> fold_state" where
  "cancel_scope e s =
     (if \<not> present (scope_id e) then s
      else (let k = the (scope_id e); completed = (member (payload e) ''phase'' = JStr ''completed'');
                s1 = change_scope k (run_seq e) (withdrawn e completed) s
            in foldl (withdraw_member completed) s1 (members_of_scope k s1)))"

definition bracket :: "stored_event \<Rightarrow> fold_state \<Rightarrow> fold_state" where
  "bracket e s =
     (if event_type e = TxnTry then change_vertex (vertex_id e) (sealed e) s
      else if event_type e = TxnConfirm then
        (case lookup_present (fs_vertices s) (vertex_id e) of
           None \<Rightarrow> s
         | Some v \<Rightarrow> if cv_bracket v = None then s else change_vertex (vertex_id e) (set_bracket BracketConfirmed) s)
      else cancel_scope e s)"

definition pivotPassed :: "stored_event \<Rightarrow> fold_state \<Rightarrow> fold_state" where
  "pivotPassed e s =
     change_vertex (vertex_id e) (\<lambda>v. v\<lparr>cv_txn := (cv_txn v)\<lparr>tx_pivot_passed := True\<rparr>\<rparr>)
       (if present (scope_id e)
        then change_scope (the (scope_id e)) (run_seq e) (\<lambda>sc. sc\<lparr>cs_pivot_passed_seq := Some (run_seq e)\<rparr>) s
        else s)"

subsection \<open>Spend\<close>

definition call_cost_of :: "json_object \<Rightarrow> console_call_cost" where
  "call_cost_of p =
     \<lparr>cc_model = coalesce (coalesce (member p ''response_model'') (member p ''requested_model'')) (JStr ''unknown''),
      cc_duration_ms = coalesce (member p ''duration_ms'') (num 0),
      cc_input_tokens = number_or (get_member (member p ''usage'') ''input_tokens'') 0,
      cc_output_tokens = number_or (get_member (member p ''usage'') ''output_tokens'') 0,
      cc_amount = as_num (get_member (member p ''estimated_cost'') ''amount''),
      cc_currency = as_string (get_member (member p ''estimated_cost'') ''currency'')\<rparr>"

definition add_cost :: "console_call_cost \<Rightarrow> console_spend \<Rightarrow> console_spend" where
  "add_cost cost spend =
     \<lparr>sp_calls = sp_calls spend + 1, sp_input_tokens = sp_input_tokens spend + cc_input_tokens cost,
      sp_output_tokens = sp_output_tokens spend + cc_output_tokens cost,
      sp_amount = (case cc_amount cost of
                     None \<Rightarrow> None
                   | Some a \<Rightarrow> if sp_currency spend \<noteq> None \<and> sp_currency spend \<noteq> cc_currency cost then None
                               else Some (nullish (sp_amount spend) 0 + a)),
      sp_currency = (case cc_currency cost of None \<Rightarrow> sp_currency spend | Some c \<Rightarrow> Some c)\<rparr>"

definition charge :: "stored_event \<Rightarrow> fold_state \<Rightarrow> fold_state" where
  "charge e s =
     (let cost = call_cost_of (payload e) in
      change_vertex (vertex_id e) (\<lambda>v. v\<lparr>cv_cost := Some cost\<rparr>)
        (s\<lparr>fs_model := (fs_model s)\<lparr>cd_spend := add_cost cost (cd_spend (fs_model s))\<rparr>\<rparr>))"

section \<open>The fold\<close>

definition enter :: "stored_event \<Rightarrow> fold_state \<Rightarrow> fold_state" where
  "enter e s =
     s\<lparr>fs_last_seq := max (fs_last_seq s) (run_seq e),
       fs_model := (if cd_run_id (fs_model s) = [] then (fs_model s)\<lparr>cd_run_id := run_id e\<rparr> else fs_model s)\<rparr>"

definition dispatch :: "stored_event \<Rightarrow> fold_state \<Rightarrow> fold_state res" where
  "dispatch e s =
     (let md = fs_model s in
      case event_type e of
        RunStart \<Rightarrow> Inr (s\<lparr>fs_model := md\<lparr>cd_started_at := Some (created_at e)\<rparr>\<rparr>)
      | RunEndSeed \<Rightarrow> Inr (s\<lparr>fs_model := md\<lparr>cd_kind := CounterfactualRun\<rparr>\<rparr>)
      | ForkCreated \<Rightarrow> Inr (s\<lparr>fs_model := md\<lparr>cd_counterfactuals := cd_counterfactuals md @ [counterfactualOf e]\<rparr>\<rparr>)
      | SubgraphProposed \<Rightarrow> Inr (s\<lparr>fs_model := md\<lparr>cd_proposals := cd_proposals md @ [proposalOf e]\<rparr>\<rparr>)
      | SubgraphRejected \<Rightarrow> Inr (closeProposal e ProposalRefused s)
      | SubgraphFrozen \<Rightarrow> freeze e s
      | VertexCreated \<Rightarrow> Inr (create e s)
      | VertexStarted \<Rightarrow> Inr (lifecycle e s)
      | VertexSucceeded \<Rightarrow> Inr (lifecycle e s)
      | VertexFailed \<Rightarrow> Inr (lifecycle e s)
      | VertexRetried \<Rightarrow> Inr (lifecycle e s)
      | SubgraphShadowed \<Rightarrow> Inr (shadow e s)
      | ReplanBoundary \<Rightarrow> Inr (boundary e s)
      | ReplanCancelRequested \<Rightarrow>
          Inr (s\<lparr>fs_model := md\<lparr>cd_cancel_requests := cd_cancel_requests md @ [cancelRequestOf e]\<rparr>\<rparr>)
      | SubgraphUnreadable \<Rightarrow> Inr (unreadable e s)
      | TxnScope \<Rightarrow> Inr (scopeState e s)
      | TxnTry \<Rightarrow> Inr (bracket e s)
      | TxnConfirm \<Rightarrow> Inr (bracket e s)
      | TxnCancel \<Rightarrow> Inr (bracket e s)
      | TxnPivotPassed \<Rightarrow> Inr (pivotPassed e s)
      | BudgetCharged \<Rightarrow> Inr (charge e s)
      | _ \<Rightarrow> Inr s)"

definition apply_event :: "fold_state \<Rightarrow> stored_event \<Rightarrow> fold_state res" where
  "apply_event s e =
     (if \<not> known (event_type e) \<and> \<not> ignorable e
      then Inl (Error (''unknown non-ignorable event in stream: '' @ event_type_str (event_type e)))
      else if ignorable e \<and> \<not> known (event_type e) then Inr s
      else dispatch e (enter e s))"

definition appended_body :: "fold_state \<Rightarrow> string list \<Rightarrow> delta_body" where
  "appended_body s ids =
     (let vertices = sort_key cv_created_seq (map (\<lambda>v. the (map_get (fs_vertices s) v)) ids);
          scopeIds = new_set (map the (filter present (map (\<lambda>v. tx_scope_id (cv_txn v)) vertices)))
      in SubgraphAppended vertices (List.map_filter (map_get (fs_scopes s)) scopeIds))"

definition delta_bodies :: "fold_state \<Rightarrow> delta_body list" where
  "delta_bodies s =
     map (\<lambda>i. ReplanShadowed (cd_replans (fs_model s) ! i)) (fs_replan_deltas s) @
     map (\<lambda>(_, ids). appended_body s ids) (sort_key fst (fs_appended s)) @
     map VertexPatched (List.map_filter (map_get (fs_vertices s)) (fs_patched s))"

definition finish :: "fold_state \<Rightarrow> console_dag_model \<times> console_delta list" where
  "finish s =
     (let watermark = max (cd_at_run_seq (fs_model s)) (fs_last_seq s) in
      ((fs_model s)\<lparr>cd_at_run_seq := watermark,
         cd_vertices := sort_key cv_created_seq (sort_key cv_vertex_id (map snd (fs_vertices s))),
         cd_scopes := sort_key cs_opened_seq (map snd (fs_scopes s))\<rparr>,
       map (\<lambda>(i, b). \<lparr>de_at_run_seq = watermark, de_ordinal = i, de_spend = cd_spend (fs_model s), de_body = b\<rparr>)
         (enumerate 0 (delta_bodies s))))"

definition advanceConsoleDag ::
    "console_dag_model \<Rightarrow> stored_event list \<Rightarrow> (console_dag_model \<times> console_delta list) res" where
  "advanceConsoleDag md batch =
     bind_res (fold_res apply_event (fold_state_of md) batch) (\<lambda>s. Inr (finish s))"

definition consoleDag :: "stored_event list \<Rightarrow> nat option \<Rightarrow> string \<Rightarrow> console_dag_model res" where
  "consoleDag events atRunSeq version =
     (let included = filter (\<lambda>e. case atRunSeq of None \<Rightarrow> True | Some n \<Rightarrow> run_seq e \<le> n) events;
          runId = (case included of [] \<Rightarrow> [] | e # _ \<Rightarrow> run_id e)
      in map_sum id fst (advanceConsoleDag (emptyConsoleDag runId version) included))"

section \<open>The detail endpoints\<close>

record payload_detail =
  pl_vertex_id :: string
  pl_role :: string
  pl_status :: string
  pl_input :: js
  pl_result :: js
  pl_failure :: js
  pl_log_fields :: js
  pl_attempts :: js
  pl_blob_refs :: "string list"

definition terminal_event :: "stored_event list \<Rightarrow> string \<Rightarrow> stored_event option" where
  "terminal_event events v =
     find (\<lambda>e. vertex_id e = Some v \<and> (event_type e = VertexSucceeded \<or> event_type e = VertexFailed)) (rev events)"

definition payloadDetail :: "stored_event list \<Rightarrow> string \<Rightarrow> payload_detail option" where
  "payloadDetail events v =
     (case find (names_vertex VertexCreated v) events of
        None \<Rightarrow> None
      | Some c \<Rightarrow>
          (let p = payload c; terminal = terminal_event events v;
               result = (case terminal of None \<Rightarrow> [] | Some t \<Rightarrow> payload t);
               failed = (map_option event_type terminal = Some VertexFailed)
           in Some \<lparr>pl_vertex_id = v, pl_role = nullish (as_string (member p ''role'')) ''unknown'',
                pl_status = (case terminal of None \<Rightarrow> ''pending'' | Some t \<Rightarrow> lifecycle_status (event_type t)),
                pl_input = coalesce (coalesce (member p ''input'') (member p ''goal'')) JNull,
                pl_result = (if failed then JNull else coalesce (member result ''result'') JNull),
                pl_failure = (if failed then coalesce (coalesce (member result ''failure'') (member result ''error'')) JNull else JNull),
                pl_log_fields = coalesce (member result ''log_fields'') JNull,
                pl_attempts = coalesce (member result ''attempts'') (num 0), pl_blob_refs = []\<rparr>))"

record retention_unavailable =
  ru_error :: string
  ru_reason :: string
  ru_input_digest :: js
  ru_output_digest :: js
  ru_prerequisite :: string

datatype retained = RetainedPrompt | RetainedLogs

definition retentionUnavailable :: "stored_event list \<Rightarrow> string \<Rightarrow> retained \<Rightarrow> retention_unavailable" where
  "retentionUnavailable events v kind =
     (let started = find (names_vertex VertexStarted v) events; succeeded = find (names_vertex VertexSucceeded v) events in
      \<lparr>ru_error = ''retention_unavailable'',
       ru_reason = (if kind = RetainedPrompt
          then ''raw model input and output are not retained; the log records their digests only''
          else ''tool execution output is not collected anywhere; the log records the returned result, which /payload serves''),
       ru_input_digest = coalesce (case started of None \<Rightarrow> JUndef | Some e \<Rightarrow> member (payload e) ''input_digest'') JNull,
       ru_output_digest = coalesce (case succeeded of None \<Rightarrow> JUndef
          | Some e \<Rightarrow> get_member (member (payload e) ''result'') ''output_digest'') JNull,
       ru_prerequisite = ''no artifact write path exists: the engine has no blob client and nothing persists prompts or execution output''\<rparr>)"

end
