(* ===== verification/Console_Fold.thy ===== *)
theory Console_Fold
  imports Console_Projection
begin

text \<open>
  What the console fold shows of a run, however its events are read: the state a batch leaves is
  the state the next batch starts from, so a reader may split the log anywhere.
\<close>

section \<open>What a batch carries over\<close>

text \<open>
  The part of the working set that outlives a batch: everything but the pending deltas, the two
  sequence numbers, and the two lists that are built from the maps at the end.
\<close>

definition carried :: "fold_state \<Rightarrow> fold_state" where
  "carried s = s\<lparr>fs_model := (fs_model s)\<lparr>cd_at_run_seq := 0, cd_vertices := [], cd_scopes := []\<rparr>, fs_replan_deltas := [], fs_appended := [],
     fs_patched := [], fs_last_seq := 0\<rparr>"

lemma carried_idem [simp]: "carried (carried s) = carried s"
  by (simp add: carried_def)

lemma carried_touch [simp]: "carried (touch s v) = carried s"
  by (simp add: touch_def carried_def)

lemma carried_touch_all [simp]: "carried (touch_all s vs) = carried s"
  by (induction vs arbitrary: s) (simp_all add: touch_all_def)

lemma carried_change_vertex: "carried (change_vertex k f s) = carried (change_vertex k f (carried s))"
  by (simp add: change_vertex_def carried_def touch_def split: option.splits)

lemma carried_closeProposal: "carried (closeProposal e r s) = carried (closeProposal e r (carried s))"
  by (simp add: closeProposal_def carried_def Let_def split: option.splits)

lemma carried_ensureScope:
  "fst (ensureScope k n (carried s)) = fst (ensureScope k n s)"
  "snd (ensureScope k n (carried s)) = carried (snd (ensureScope k n s))"
  by (simp_all add: ensureScope_def carried_def split: option.splits)

lemma carried_fold_res:
  assumes "\<And>s x. map_sum id carried (f s x) = map_sum id carried (f (carried s) x)"
  shows "carried s = carried t \<Longrightarrow> map_sum id carried (fold_res f s xs) = map_sum id carried (fold_res f t xs)"
proof (induction xs arbitrary: s t)
  case Nil
  then show ?case by simp
next
  case (Cons x xs)
  have eq: "map_sum id carried (f s x) = map_sum id carried (f t x)"
    using assms [of s x] assms [of t x] Cons.prems by simp
  show ?case
  proof (cases "f s x")
    case (Inl a)
    then show ?thesis using eq by (cases "f t x") (simp_all add: bind_res_def)
  next
    case (Inr s')
    then obtain t' where "f t x = Inr t'" "carried s' = carried t'"
      using eq by (cases "f t x") auto
    then show ?thesis using Inr Cons.IH [of s' t'] by (simp add: bind_res_def)
  qed
qed

lemma carried_announce: "map_sum id carried (announce n s x) = map_sum id carried (announce n (carried s) x)"
  by (simp add: announce_def entry_member_def bind_res_def carried_def)

lemma carried_open_scope: "map_sum id carried (open_scope n s x) = map_sum id carried (open_scope n (carried s) x)"
  by (simp add: open_scope_def entry_member_def bind_res_def carried_ensureScope)

lemma carried_freeze: "map_sum id carried (freeze e s) = map_sum id carried (freeze e (carried s))"
proof (cases "iterate (member (payload e) ''vertices'')")
  case (Inr vs)
  let ?p = "\<lambda>s. fold_res (announce (run_seq e)) (closeProposal e ProposalFrozen s) vs"
  have 1: "map_sum id carried (?p s) = map_sum id carried (?p (carried s))"
    by (intro carried_fold_res carried_announce carried_closeProposal)
  show ?thesis
  proof (cases "?p s")
    case (Inl a)
    then show ?thesis using 1 Inr by (cases "?p (carried s)") (simp_all add: freeze_def bind_res_def)
  next
    case (Inr s')
    then obtain t' where t': "?p (carried s) = Inr t'" "carried s' = carried t'"
      using 1 by (cases "?p (carried s)") auto
    have "map_sum id carried (fold_res (open_scope (run_seq e)) s' ss) = map_sum id carried (fold_res (open_scope (run_seq e)) t' ss)" for ss
      by (intro carried_fold_res carried_open_scope t'(2))
    then show ?thesis using Inr t' \<open>iterate _ = Inr vs\<close>
      by (cases "iterate (member (payload e) ''scopes'')") (simp_all add: freeze_def bind_res_def)
  qed
qed (simp add: freeze_def bind_res_def)

lemma carried_read [simp]:
  "fs_vertices (carried s) = fs_vertices s" "fs_scopes (carried s) = fs_scopes s"
  "decidedBy (carried s) = decidedBy s" "depthOf ps (carried s) = depthOf ps s"
  "console_vertex_of e (carried s) = console_vertex_of e s" "hidden_ids e (carried s) = hidden_ids e s"
  by (simp_all add: carried_def decidedBy_def depthOf_def console_vertex_of_def hidden_ids_def)

lemma carried_scopes [simp]: "carried (s\<lparr>fs_scopes := x\<rparr>) = (carried s)\<lparr>fs_scopes := x\<rparr>"
  by (simp add: carried_def)

lemma carried_vertices [simp]: "carried (s\<lparr>fs_vertices := x\<rparr>) = (carried s)\<lparr>fs_vertices := x\<rparr>"
  by (simp add: carried_def)

lemma carried_change_scope [simp]: "change_scope k n f (carried s) = carried (change_scope k n f s)"
  by (simp add: change_scope_def case_prod_unfold Let_def carried_ensureScope)

lemma carried_members_of_scope [simp]: "members_of_scope k (carried s) = members_of_scope k s"
  by (simp add: members_of_scope_def)

lemma carried_join_scope: "join_scope e v (carried s) = carried (join_scope e v s)"
  by (simp add: join_scope_def)

lemma carried_create: "carried (create e s) = carried (create e (carried s))"
proof -
  have 1: "put_vertex (carried s) v = carried (put_vertex s v)" for v
    by (simp add: put_vertex_def)
  show ?thesis
    by (simp add: create_def Let_def 1 carried_join_scope) (simp add: carried_def)
qed

lemma carried_replanFor:
  "fst (replanFor e b v (carried s)) = fst (replanFor e b v s)"
  "snd (replanFor e b v (carried s)) = carried (snd (replanFor e b v s))"
  by (simp_all add: replanFor_def Let_def carried_def split: list.splits)

lemma carried_record_replan: "carried (record_replan e v f s) = carried (record_replan e v f (carried s))"
  by (simp add: record_replan_def case_prod_unfold Let_def carried_replanFor) (simp add: carried_def)

lemma carried_record_replan_cong:
  "carried s = carried t \<Longrightarrow> carried (record_replan e v f s) = carried (record_replan e v f t)"
  using carried_record_replan [of e v f s] carried_record_replan [of e v f t] by simp

lemma carried_shadow: "carried (shadow e s) = carried (shadow e (carried s))"
  unfolding shadow_def Let_def carried_read
  by (rule carried_record_replan_cong) simp

lemma carried_scopeState: "carried (scopeState e s) = carried (scopeState e (carried s))"
  by (simp add: scopeState_def Let_def)

lemma carried_withdraw_member: "carried (withdraw_member b s v) = carried (withdraw_member b (carried s) v)"
  by (auto simp: withdraw_member_def split: option.splits)

lemma carried_withdraw_members:
  "carried s = carried t \<Longrightarrow> carried (foldl (withdraw_member b) s xs) = carried (foldl (withdraw_member b) t xs)"
proof (induction xs arbitrary: s t)
  case (Cons x xs)
  have "carried (withdraw_member b s x) = carried (withdraw_member b t x)"
    using carried_withdraw_member [of b s x] carried_withdraw_member [of b t x] Cons.prems by simp
  from Cons.IH [OF this] show ?case by simp
qed simp

lemma carried_cancel_scope: "carried (cancel_scope e s) = carried (cancel_scope e (carried s))"
  by (auto simp: cancel_scope_def Let_def intro!: carried_withdraw_members)

lemma carried_bracket: "carried (bracket e s) = carried (bracket e (carried s))"
proof (cases "event_type e = TxnTry \<or> event_type e = TxnConfirm")
  case True
  then show ?thesis using carried_change_vertex [of "vertex_id e" "sealed e" s]
      carried_change_vertex [of "vertex_id e" "set_bracket BracketConfirmed" s]
    by (auto simp: bracket_def split: option.splits)
next
  case False
  then show ?thesis using carried_cancel_scope [of e s] by (simp add: bracket_def)
qed

lemma carried_change_vertex_cong:
  "carried s = carried t \<Longrightarrow> carried (change_vertex k f s) = carried (change_vertex k f t)"
  using carried_change_vertex [of k f s] carried_change_vertex [of k f t] by simp

lemma carried_pivotPassed: "carried (pivotPassed e s) = carried (pivotPassed e (carried s))"
  unfolding pivotPassed_def by (rule carried_change_vertex_cong) simp

lemma carried_charge: "carried (charge e s) = carried (charge e (carried s))"
  unfolding charge_def Let_def
  by (rule carried_change_vertex_cong) (simp add: carried_def)

lemma carried_enter: "carried (enter e s) = carried (enter e (carried s))"
  by (simp add: enter_def carried_def)

lemma map_sum_Inr_cong: "f x = f y \<Longrightarrow> map_sum id f (Inr x) = map_sum id f (Inr y)"
  by simp

lemmas carried_operations = carried_closeProposal carried_create carried_change_vertex carried_shadow
  carried_record_replan carried_scopeState carried_bracket carried_pivotPassed carried_charge

lemma carried_dispatch: "map_sum id carried (dispatch e s) = map_sum id carried (dispatch e (carried s))"
  unfolding dispatch_def Let_def lifecycle_def unreadable_def boundary_def
  by (cases "event_type e"; simp only: event_type.case)
    (rule carried_freeze | (rule map_sum_Inr_cong, (rule carried_operations | simp add: carried_def)))+

lemma carried_apply_event: "map_sum id carried (apply_event s e) = map_sum id carried (apply_event (carried s) e)"
proof -
  have "map_sum id carried (dispatch e (enter e s)) = map_sum id carried (dispatch e (enter e (carried s)))"
    using carried_dispatch [of e "enter e s"] carried_dispatch [of e "enter e (carried s)"] carried_enter [of e s] by simp
  then show ?thesis by (simp add: apply_event_def)
qed

lemma carried_fold:
  "carried s = carried t \<Longrightarrow>
   map_sum id carried (fold_res apply_event s es) = map_sum id carried (fold_res apply_event t es)"
  by (rule carried_fold_res) (rule carried_apply_event)

section \<open>The order of vertices and scopes\<close>

text \<open>Keys, identifiers and sequence numbers of the two maps, in iteration order.\<close>

definition vertex_order :: "fold_state \<Rightarrow> (string \<times> string \<times> nat) list" where
  "vertex_order s = map (\<lambda>(k, v). (k, cv_vertex_id v, cv_created_seq v)) (fs_vertices s)"

definition scope_order :: "fold_state \<Rightarrow> (string \<times> string \<times> nat) list" where
  "scope_order s = map (\<lambda>(k, c). (k, cs_scope_id c, cs_opened_seq c)) (fs_scopes s)"

lemma map_map_set_same:
  "map_get m k = Some v \<Longrightarrow> h k v' = h k v \<Longrightarrow> map (\<lambda>(k, v). h k v) (map_set k v' m) = map (\<lambda>(k, v). h k v) m"
  by (induction m) (auto simp: map_get_def map_set_def split: if_splits)

lemma map_set_append: "map_get m k = None \<Longrightarrow> map_set k v m = m @ [(k, v)]"
  by (rule map_set_fresh) (simp add: map_get_None)

text \<open>A change of a vertex that leaves alone what orders and shadows it.\<close>

definition keeps_identity :: "(console_vertex \<Rightarrow> console_vertex) \<Rightarrow> bool" where
  "keeps_identity f \<longleftrightarrow> (\<forall>v. cv_vertex_id (f v) = cv_vertex_id v \<and> cv_created_seq (f v) = cv_created_seq v \<and>
     cv_is_shadowed (f v) = cv_is_shadowed v \<and> cv_shadowed_at_seq (f v) = cv_shadowed_at_seq v)"

lemma keeps_identityD:
  assumes "keeps_identity f"
  shows "cv_vertex_id (f v) = cv_vertex_id v" "cv_created_seq (f v) = cv_created_seq v"
    "cv_is_shadowed (f v) = cv_is_shadowed v" "cv_shadowed_at_seq (f v) = cv_shadowed_at_seq v"
  using assms by (simp_all add: keeps_identity_def)

lemma keeps_identity_lived [simp, intro]: "keeps_identity (lived e)"
  by (simp add: keeps_identity_def lived_def settle_router_def Let_def)

lemma keeps_identity_sealed [simp, intro]: "keeps_identity (sealed e)"
  by (simp add: keeps_identity_def sealed_def)

lemma keeps_identity_set_bracket [simp, intro]: "keeps_identity (set_bracket b)"
  by (simp add: keeps_identity_def set_bracket_def)

lemma keeps_identity_fields [simp, intro]:
  "keeps_identity (\<lambda>v. v\<lparr>cv_stall := x\<rparr>)" "keeps_identity (\<lambda>v. v\<lparr>cv_cost := y\<rparr>)"
  "keeps_identity (\<lambda>v. v\<lparr>cv_txn := g v\<rparr>)"
  by (simp_all add: keeps_identity_def)

lemma touch_fields [simp]:
  "fs_model (touch s v) = fs_model s" "fs_vertices (touch s v) = fs_vertices s" "fs_scopes (touch s v) = fs_scopes s"
  "fs_replan_deltas (touch s v) = fs_replan_deltas s" "fs_appended (touch s v) = fs_appended s"
  "fs_last_seq (touch s v) = fs_last_seq s"
  by (simp_all add: touch_def)

lemma touch_all_fields [simp]:
  "fs_model (touch_all s vs) = fs_model s" "fs_vertices (touch_all s vs) = fs_vertices s"
  "fs_scopes (touch_all s vs) = fs_scopes s" "fs_replan_deltas (touch_all s vs) = fs_replan_deltas s"
  "fs_appended (touch_all s vs) = fs_appended s" "fs_last_seq (touch_all s vs) = fs_last_seq s"
  by (induction vs arbitrary: s) (simp_all add: touch_all_def)

lemma orders_touch [simp]: "vertex_order (touch s v) = vertex_order s" "scope_order (touch s v) = scope_order s"
  by (simp_all add: vertex_order_def scope_order_def)

lemma orders_touch_all [simp]:
  "vertex_order (touch_all s vs) = vertex_order s" "scope_order (touch_all s vs) = scope_order s"
  by (simp_all add: vertex_order_def scope_order_def)

lemma change_vertex_other [simp]:
  "fs_model (change_vertex k f s) = fs_model s" "fs_scopes (change_vertex k f s) = fs_scopes s"
  "fs_replan_deltas (change_vertex k f s) = fs_replan_deltas s" "fs_appended (change_vertex k f s) = fs_appended s"
  "fs_last_seq (change_vertex k f s) = fs_last_seq s" "scope_order (change_vertex k f s) = scope_order s"
  by (simp_all add: change_vertex_def scope_order_def split: option.splits)

lemma lookup_presentD: "lookup_present m k = Some v \<Longrightarrow> k = Some (the k) \<and> map_get m (the k) = Some v"
  by (cases k) (auto simp: lookup_present_def split: if_splits)

lemma vertex_order_set:
  "map_get (fs_vertices s) k = Some v \<Longrightarrow> cv_vertex_id v' = cv_vertex_id v \<Longrightarrow> cv_created_seq v' = cv_created_seq v \<Longrightarrow>
   vertex_order (s\<lparr>fs_vertices := map_set k v' (fs_vertices s)\<rparr>) = vertex_order s"
  unfolding vertex_order_def by simp (rule map_map_set_same, assumption, simp)

lemma vertex_order_change: "keeps_identity f \<Longrightarrow> vertex_order (change_vertex k f s) = vertex_order s"
  by (auto simp: change_vertex_def keeps_identityD dest!: lookup_presentD intro!: vertex_order_set split: option.splits)

text \<open>Scopes are only ever added, with the sequence number of the event that names them.\<close>

definition scopes_grow :: "nat \<Rightarrow> fold_state \<Rightarrow> fold_state \<Rightarrow> bool" where
  "scopes_grow n s t \<longleftrightarrow> (\<exists>ks. scope_order t = scope_order s @ map (\<lambda>k. (k, k, n)) ks)"

lemma scopes_grow_refl: "scope_order t = scope_order s \<Longrightarrow> scopes_grow n s t"
  unfolding scopes_grow_def by (rule exI [of _ "[]"]) simp

lemma scopes_grow_trans: "scopes_grow n s t \<Longrightarrow> scopes_grow n t u \<Longrightarrow> scopes_grow n s u"
  unfolding scopes_grow_def by (auto simp flip: map_append)

lemma ensureScope_grow:
  assumes "ensureScope k n s = (c, s')"
  shows "map_get (fs_scopes s') k = Some c" "scopes_grow n s s'" "fs_vertices s' = fs_vertices s"
    "fs_model s' = fs_model s" "fs_last_seq s' = fs_last_seq s" "fs_appended s' = fs_appended s"
    "fs_replan_deltas s' = fs_replan_deltas s" "fs_patched s' = fs_patched s"
proof -
  have "scopes_grow n s s' \<and> map_get (fs_scopes s') k = Some c"
  proof (cases "map_get (fs_scopes s) k")
    case None
    then have "scope_order s' = scope_order s @ map (\<lambda>k. (k, k, n)) [k]"
      using assms by (auto simp: ensureScope_def scope_order_def map_set_append new_scope_def)
    then have "scopes_grow n s s'" unfolding scopes_grow_def by (rule exI)
    then show ?thesis using assms None by (auto simp: ensureScope_def map_get_map_set)
  next
    case (Some x)
    then show ?thesis using assms by (auto simp: ensureScope_def intro: scopes_grow_refl)
  qed
  then show "map_get (fs_scopes s') k = Some c" "scopes_grow n s s'" by simp_all
  show "fs_vertices s' = fs_vertices s" "fs_model s' = fs_model s" "fs_last_seq s' = fs_last_seq s"
    "fs_appended s' = fs_appended s" "fs_replan_deltas s' = fs_replan_deltas s" "fs_patched s' = fs_patched s"
    using assms by (auto simp: ensureScope_def split: option.splits)
qed

lemma scope_order_set:
  "map_get (fs_scopes s) k = Some c \<Longrightarrow> cs_scope_id c' = cs_scope_id c \<Longrightarrow> cs_opened_seq c' = cs_opened_seq c \<Longrightarrow>
   scope_order (s\<lparr>fs_scopes := map_set k c' (fs_scopes s)\<rparr>) = scope_order s"
  unfolding scope_order_def by simp (rule map_map_set_same, assumption, simp)

text \<open>A change of a scope that leaves alone what orders it.\<close>

definition keeps_scope :: "(console_scope \<Rightarrow> console_scope) \<Rightarrow> bool" where
  "keeps_scope f \<longleftrightarrow> (\<forall>c. cs_scope_id (f c) = cs_scope_id c \<and> cs_opened_seq (f c) = cs_opened_seq c)"

lemma keeps_scope_changes [simp, intro]:
  "keeps_scope (joined v)" "keeps_scope (declared e)" "keeps_scope (withdrawn e b)"
  "keeps_scope (\<lambda>c. c\<lparr>cs_pivot_passed_seq := x\<rparr>)"
  by (simp_all add: keeps_scope_def joined_def declared_def withdrawn_def Let_def)

lemma change_scope_grow: "keeps_scope f \<Longrightarrow> scopes_grow n s (change_scope k n f s)"
proof -
  obtain c s' where cs: "ensureScope k n s = (c, s')" by fastforce
  note E = ensureScope_grow [OF cs]
  assume "keeps_scope f"
  then have "scope_order (s'\<lparr>fs_scopes := map_set k (f c) (fs_scopes s')\<rparr>) = scope_order s'"
    by (intro scope_order_set [OF E(1)]) (simp_all add: keeps_scope_def)
  then show ?thesis using scopes_grow_trans [OF E(2) scopes_grow_refl] cs by (simp add: change_scope_def)
qed

lemma change_scope_other [simp]:
  "fs_vertices (change_scope k n f s) = fs_vertices s" "fs_model (change_scope k n f s) = fs_model s"
  "fs_last_seq (change_scope k n f s) = fs_last_seq s" "fs_appended (change_scope k n f s) = fs_appended s"
  "fs_replan_deltas (change_scope k n f s) = fs_replan_deltas s" "fs_patched (change_scope k n f s) = fs_patched s"
proof -
  obtain c s' where cs: "ensureScope k n s = (c, s')" by fastforce
  note E = ensureScope_grow [OF cs]
  show "fs_vertices (change_scope k n f s) = fs_vertices s" "fs_model (change_scope k n f s) = fs_model s"
    "fs_last_seq (change_scope k n f s) = fs_last_seq s" "fs_appended (change_scope k n f s) = fs_appended s"
    "fs_replan_deltas (change_scope k n f s) = fs_replan_deltas s" "fs_patched (change_scope k n f s) = fs_patched s"
    using cs E by (simp_all add: change_scope_def)
qed

text \<open>A relation between states that every step of a loop has.\<close>

lemma fold_res_rel:
  assumes refl: "\<And>s. R s s" and trans: "\<And>s t u. R s t \<Longrightarrow> R t u \<Longrightarrow> R s u"
    and step: "\<And>s x t. f s x = Inr t \<Longrightarrow> R s t"
  shows "fold_res f s xs = Inr t \<Longrightarrow> R s t"
proof (induction xs arbitrary: s)
  case Nil
  then show ?case by (simp add: refl)
next
  case (Cons x xs)
  then obtain u where "f s x = Inr u" "fold_res f u xs = Inr t" by (cases "f s x") (auto simp: bind_res_def)
  then show ?case using trans step Cons.IH by blast
qed

definition same_rest :: "fold_state \<Rightarrow> fold_state \<Rightarrow> bool" where
  "same_rest s t \<longleftrightarrow> fs_vertices t = fs_vertices s \<and> fs_appended t = fs_appended s \<and>
     fs_patched t = fs_patched s \<and> fs_replan_deltas t = fs_replan_deltas s \<and> fs_last_seq t = fs_last_seq s \<and>
     cd_replans (fs_model t) = cd_replans (fs_model s) \<and> cd_at_run_seq (fs_model t) = cd_at_run_seq (fs_model s)"

lemma closeProposal_rest: "same_rest s (closeProposal e r s)" "fs_scopes (closeProposal e r s) = fs_scopes s"
  by (simp_all add: closeProposal_def same_rest_def Let_def split: option.splits)

lemma freeze_rest:
  assumes "freeze e s = Inr t"
  shows "same_rest s t \<and> scopes_grow (run_seq e) s t"
proof -
  let ?R = "\<lambda>s t. same_rest s t \<and> scopes_grow (run_seq e) s t"
  have R: "?R s s" "?R s t \<Longrightarrow> ?R t u \<Longrightarrow> ?R s u" for s t u
    by (auto simp: same_rest_def intro: scopes_grow_refl scopes_grow_trans)
  have announce: "?R s t" if "announce (run_seq e) s x = Inr t" for s x t
    using that by (auto simp: announce_def entry_member_def bind_res_def same_rest_def scope_order_def
        intro!: scopes_grow_refl split: if_splits)
  have open_scope: "?R s t" if h: "open_scope (run_seq e) s x = Inr t" for s x t
  proof -
    obtain k where "t = snd (ensureScope k (run_seq e) s)"
      using h by (auto simp: open_scope_def entry_member_def bind_res_def split: if_splits)
    then show ?thesis using ensureScope_grow [of k "run_seq e" s "fst (ensureScope k (run_seq e) s)" t]
      by (simp add: same_rest_def)
  qed
  obtain vs cs s1 where vs: "fold_res (announce (run_seq e)) (closeProposal e ProposalFrozen s) vs = Inr s1"
    and cs: "fold_res (open_scope (run_seq e)) s1 cs = Inr t"
    using assms by (auto simp: freeze_def bind_res_def split: sum.splits)
  have "?R s (closeProposal e ProposalFrozen s)"
    using closeProposal_rest [where e = e and s = s] by (simp add: scope_order_def scopes_grow_refl)
  moreover have "?R (closeProposal e ProposalFrozen s) s1"
    by (rule fold_res_rel [where R = ?R, OF _ _ _ vs]) (use R announce in blast)+
  moreover have "?R s1 t"
    by (rule fold_res_rel [where R = ?R, OF _ _ _ cs]) (use R open_scope in blast)+
  ultimately show ?thesis using R by blast
qed

definition created_row :: "stored_event \<Rightarrow> (string \<times> string \<times> nat) list" where
  "created_row e = (if about VertexCreated e then [(the (vertex_id e), the (vertex_id e), run_seq e)] else [])"

text \<open>What an event does to the two orders, given that a vertex it creates is new.\<close>

definition ordered_step :: "stored_event \<Rightarrow> fold_state \<Rightarrow> fold_state \<Rightarrow> bool" where
  "ordered_step e s t \<longleftrightarrow> vertex_order t = vertex_order s @ created_row e \<and> scopes_grow (run_seq e) s t \<and>
     fs_last_seq t = fs_last_seq s \<and> cd_at_run_seq (fs_model t) = cd_at_run_seq (fs_model s)"

lemma ordered_step_same:
  "vertex_order t = vertex_order s \<Longrightarrow> scopes_grow (run_seq e) s t \<Longrightarrow> fs_last_seq t = fs_last_seq s \<Longrightarrow>
   cd_at_run_seq (fs_model t) = cd_at_run_seq (fs_model s) \<Longrightarrow> event_type e \<noteq> VertexCreated \<Longrightarrow> ordered_step e s t"
  by (simp add: ordered_step_def created_row_def about_def)

lemma vertex_order_join [simp]: "vertex_order (join_scope e v s) = vertex_order s"
  by (simp add: vertex_order_def join_scope_def)

lemma create_ordered:
  assumes "event_type e = VertexCreated" "about VertexCreated e \<Longrightarrow> the (vertex_id e) \<notin> mkeys (fs_vertices s)"
  shows "ordered_step e s (create e s)"
proof (cases "present (vertex_id e)")
  case True
  let ?v = "console_vertex_of e s"
  have v: "cv_vertex_id ?v = the (vertex_id e)" "cv_created_seq ?v = run_seq e"
    by (simp_all add: console_vertex_of_def Let_def)
  have "map_get (fs_vertices s) (the (vertex_id e)) = None"
    using assms True by (simp add: about_def map_get_mkeys)
  then have "vertex_order (put_vertex s ?v) = vertex_order s @ created_row e"
    using True assms(1) v by (simp add: put_vertex_def vertex_order_def map_set_append created_row_def about_def)
  moreover have "scopes_grow (run_seq e) s (join_scope e ?v (put_vertex s ?v))"
    using change_scope_grow [of "joined ?v" "run_seq e" "put_vertex s ?v" "the (scope_id e)"]
    by (simp add: join_scope_def scopes_grow_def scope_order_def put_vertex_def)
  ultimately show ?thesis using True
    by (simp add: ordered_step_def create_def Let_def vertex_order_def scopes_grow_def scope_order_def)
      (simp add: join_scope_def put_vertex_def)
next
  case False
  then show ?thesis by (simp add: create_def ordered_step_def created_row_def about_def scopes_grow_refl)
qed

lemma hide_order: "map (\<lambda>(k, v). (k, cv_vertex_id v, cv_created_seq v)) (hide n vs x) =
   map (\<lambda>(k, v). (k, cv_vertex_id v, cv_created_seq v)) vs"
proof (cases "map_get vs x")
  case (Some v)
  then show ?thesis
    by (cases "cv_is_shadowed v") (simp_all add: hide_def, rule map_map_set_same, assumption, simp)
qed (simp add: hide_def)

lemma hide_all_order: "map (\<lambda>(k, v). (k, cv_vertex_id v, cv_created_seq v)) (foldl (hide n) vs xs) =
   map (\<lambda>(k, v). (k, cv_vertex_id v, cv_created_seq v)) vs"
proof (induction xs arbitrary: vs)
  case (Cons x xs)
  show ?case using Cons [of "hide n vs x"] hide_order [of n vs x] by simp
qed simp

lemma record_replan_other [simp]:
  "fs_vertices (record_replan e v f s) = fs_vertices s" "fs_scopes (record_replan e v f s) = fs_scopes s"
  "fs_last_seq (record_replan e v f s) = fs_last_seq s" "fs_appended (record_replan e v f s) = fs_appended s"
  "fs_patched (record_replan e v f s) = fs_patched s"
  "cd_at_run_seq (fs_model (record_replan e v f s)) = cd_at_run_seq (fs_model s)"
  by (simp_all add: record_replan_def replanFor_def Let_def split: list.splits)

lemma shadow_ordered: "event_type e = SubgraphShadowed \<Longrightarrow> ordered_step e s (shadow e s)"
  by (rule ordered_step_same)
    (simp_all add: shadow_def Let_def vertex_order_def hide_all_order scope_order_def scopes_grow_refl)

lemma boundary_ordered: "event_type e = ReplanBoundary \<Longrightarrow> ordered_step e s (boundary e s)"
  by (rule ordered_step_same)
    (simp_all add: boundary_def vertex_order_def scope_order_def scopes_grow_refl)

lemma change_vertex_ordered:
  "keeps_identity f \<Longrightarrow> event_type e \<noteq> VertexCreated \<Longrightarrow> ordered_step e s (change_vertex k f s)"
  by (rule ordered_step_same) (simp_all add: vertex_order_change scopes_grow_refl)

lemma ordered_step_trans:
  "ordered_step e s t \<Longrightarrow> ordered_step e t u \<Longrightarrow> event_type e \<noteq> VertexCreated \<Longrightarrow> ordered_step e s u"
  by (auto simp: ordered_step_def created_row_def about_def intro: scopes_grow_trans)

lemma change_scope_ordered:
  "keeps_scope f \<Longrightarrow> event_type e \<noteq> VertexCreated \<Longrightarrow> ordered_step e s (change_scope k (run_seq e) f s)"
  by (rule ordered_step_same) (simp_all add: change_scope_grow vertex_order_def)

lemma scopeState_ordered: "event_type e = TxnScope \<Longrightarrow> ordered_step e s (scopeState e s)"
  using change_scope_ordered [of "declared e" e s "the (scope_id e)"]
  by (auto simp: scopeState_def Let_def ordered_step_def scopes_grow_def created_row_def about_def)

lemma withdraw_member_ordered:
  "event_type e \<noteq> VertexCreated \<Longrightarrow> ordered_step e s (withdraw_member b s v)"
proof (rule ordered_step_same, goal_cases)
  case 1
  show ?case by (auto simp: withdraw_member_def set_bracket_def intro!: vertex_order_set split: option.splits)
qed (auto simp: withdraw_member_def scope_order_def intro!: scopes_grow_refl split: option.splits)

lemma cancel_scope_ordered: "event_type e \<noteq> VertexCreated \<Longrightarrow> ordered_step e s (cancel_scope e s)"
proof -
  assume e: "event_type e \<noteq> VertexCreated"
  have "ordered_step e s (foldl (withdraw_member b) s xs)" for b s xs
  proof (induction xs arbitrary: s)
    case Nil
    then show ?case using e by (simp add: ordered_step_same scopes_grow_refl)
  next
    case (Cons x xs)
    show ?case using ordered_step_trans [OF withdraw_member_ordered Cons.IH] e by simp
  qed
  from ordered_step_trans [OF change_scope_ordered this] show ?thesis using e
    by (simp add: cancel_scope_def Let_def ordered_step_same scopes_grow_refl)
qed

lemma bracket_ordered: "event_type e \<noteq> VertexCreated \<Longrightarrow> ordered_step e s (bracket e s)"
  by (auto simp: bracket_def cancel_scope_ordered change_vertex_ordered ordered_step_same scopes_grow_refl
      split: option.splits)

lemma pivotPassed_ordered: "event_type e \<noteq> VertexCreated \<Longrightarrow> ordered_step e s (pivotPassed e s)"
  using ordered_step_trans [OF change_scope_ordered change_vertex_ordered]
  by (simp add: pivotPassed_def change_vertex_ordered)

lemma model_ordered:
  "fs_vertices t = fs_vertices s \<Longrightarrow> fs_scopes t = fs_scopes s \<Longrightarrow> fs_last_seq t = fs_last_seq s \<Longrightarrow>
   cd_at_run_seq (fs_model t) = cd_at_run_seq (fs_model s) \<Longrightarrow> event_type e \<noteq> VertexCreated \<Longrightarrow> ordered_step e s t"
  by (rule ordered_step_same) (simp_all add: vertex_order_def scope_order_def scopes_grow_refl)

lemma charge_ordered: "event_type e \<noteq> VertexCreated \<Longrightarrow> ordered_step e s (charge e s)"
  unfolding charge_def Let_def
  by (rule ordered_step_trans [OF model_ordered change_vertex_ordered]) simp_all

lemma closeProposal_ordered: "event_type e \<noteq> VertexCreated \<Longrightarrow> ordered_step e s (closeProposal e r s)"
  using closeProposal_rest [where e = e and s = s] by (intro model_ordered) (simp_all add: same_rest_def)

lemma freeze_ordered: "event_type e \<noteq> VertexCreated \<Longrightarrow> freeze e s = Inr t \<Longrightarrow> ordered_step e s t"
  using freeze_rest [of e s t] by (intro ordered_step_same) (simp_all add: same_rest_def vertex_order_def)

lemma dispatch_ordered:
  assumes "dispatch e s = Inr t" "about VertexCreated e \<Longrightarrow> the (vertex_id e) \<notin> mkeys (fs_vertices s)"
  shows "ordered_step e s t"
proof (cases "event_type e = VertexCreated \<or> event_type e = SubgraphFrozen")
  case True
  then show ?thesis using assms by (auto simp: dispatch_def create_ordered freeze_ordered)
next
  case False
  then show ?thesis using assms(1)
    by (cases "event_type e")
      (auto simp: dispatch_def Let_def lifecycle_def unreadable_def shadow_ordered boundary_ordered
        change_vertex_ordered scopeState_ordered bracket_ordered pivotPassed_ordered charge_ordered
        closeProposal_ordered intro: model_ordered)
qed

lemma enter_fields [simp]:
  "fs_vertices (enter e s) = fs_vertices s" "fs_scopes (enter e s) = fs_scopes s"
  "fs_last_seq (enter e s) = max (fs_last_seq s) (run_seq e)" "fs_appended (enter e s) = fs_appended s"
  "fs_patched (enter e s) = fs_patched s" "fs_replan_deltas (enter e s) = fs_replan_deltas s"
  "cd_at_run_seq (fs_model (enter e s)) = cd_at_run_seq (fs_model s)"
  "cd_replans (fs_model (enter e s)) = cd_replans (fs_model s)" "cd_spend (fs_model (enter e s)) = cd_spend (fs_model s)"
  by (simp_all add: enter_def)

text \<open>The sequence number an event moves the watermark to.\<close>

definition seen_seq :: "stored_event \<Rightarrow> nat" where
  "seen_seq e = (if known (event_type e) then run_seq e else 0)"

lemma apply_event_cases:
  assumes "apply_event s e = Inr t"
  obtains "\<not> known (event_type e)" "ignorable e" "t = s" | "known (event_type e)" "dispatch e (enter e s) = Inr t"
  using assms by (auto simp: apply_event_def split: if_splits)

lemma apply_event_ordered:
  assumes "apply_event s e = Inr t" "about VertexCreated e \<Longrightarrow> the (vertex_id e) \<notin> mkeys (fs_vertices s)"
  shows "vertex_order t = vertex_order s @ created_row e" "scopes_grow (run_seq e) s t"
    "fs_last_seq t = max (fs_last_seq s) (seen_seq e)" "cd_at_run_seq (fs_model t) = cd_at_run_seq (fs_model s)"
proof -
  have "vertex_order t = vertex_order s @ created_row e \<and> scopes_grow (run_seq e) s t \<and>
    fs_last_seq t = max (fs_last_seq s) (seen_seq e) \<and> cd_at_run_seq (fs_model t) = cd_at_run_seq (fs_model s)"
    using assms(1)
  proof (cases rule: apply_event_cases)
    case 1
    then have "event_type e \<noteq> VertexCreated" by (auto simp: known_def EVENT_TYPES_def)
    then show ?thesis using 1 by (simp add: created_row_def about_def seen_seq_def scopes_grow_refl)
  next
    case 2
    then have "ordered_step e (enter e s) t" using assms(2) by (intro dispatch_ordered) simp_all
    then show ?thesis using 2(1)
      by (simp add: ordered_step_def seen_seq_def vertex_order_def scopes_grow_def scope_order_def)
  qed
  then show "vertex_order t = vertex_order s @ created_row e" "scopes_grow (run_seq e) s t"
    "fs_last_seq t = max (fs_last_seq s) (seen_seq e)" "cd_at_run_seq (fs_model t) = cd_at_run_seq (fs_model s)"
    by simp_all
qed

section \<open>Batches\<close>

definition ids_created_in :: "stored_event list \<Rightarrow> string list" where
  "ids_created_in es = map (\<lambda>e. the (vertex_id e)) (filter (about VertexCreated) es)"

lemma ids_created_in_simps [simp]:
  "ids_created_in [] = []" "ids_created_in (a @ b) = ids_created_in a @ ids_created_in b"
  "ids_created_in (e # es) = (if about VertexCreated e then the (vertex_id e) # ids_created_in es else ids_created_in es)"
  by (simp_all add: ids_created_in_def)

lemma mkeys_vertex_order: "mkeys (fs_vertices s) = fst ` set (vertex_order s)"
  by (force simp: mkeys_def vertex_order_def)

definition fresh_for :: "stored_event list \<Rightarrow> fold_state \<Rightarrow> bool" where
  "fresh_for es s \<longleftrightarrow> distinct (ids_created_in es) \<and> set (ids_created_in es) \<inter> mkeys (fs_vertices s) = {}"

lemma fresh_for_Cons:
  assumes "fresh_for (e # es) s" "apply_event s e = Inr t"
  shows "about VertexCreated e \<Longrightarrow> the (vertex_id e) \<notin> mkeys (fs_vertices s)" "fresh_for es t"
proof -
  show 1: "about VertexCreated e \<Longrightarrow> the (vertex_id e) \<notin> mkeys (fs_vertices s)"
    using assms(1) by (auto simp: fresh_for_def)
  have "vertex_order t = vertex_order s @ created_row e" using apply_event_ordered [OF assms(2) 1] by simp
  then have "mkeys (fs_vertices t) = mkeys (fs_vertices s) \<union> (if about VertexCreated e then {the (vertex_id e)} else {})"
    by (auto simp: mkeys_vertex_order created_row_def)
  then show "fresh_for es t" using assms(1) by (auto simp: fresh_for_def)
qed

definition last_seen :: "nat \<Rightarrow> stored_event list \<Rightarrow> nat" where
  "last_seen n es = foldl (\<lambda>n e. max n (seen_seq e)) n es"

lemma last_seen_simps [simp]:
  "last_seen n [] = n" "last_seen n (e # es) = last_seen (max n (seen_seq e)) es"
  by (simp_all add: last_seen_def)

lemma last_seen_max: "last_seen (max a b) es = max a (last_seen b es)"
  by (induction es arbitrary: b) (simp_all add: max.assoc)

lemma last_seen_le: "(\<forall>e\<in>set es. run_seq e \<le> k) \<Longrightarrow> n \<le> k \<Longrightarrow> last_seen n es \<le> k"
  by (induction es arbitrary: n) (auto simp: seen_seq_def)

lemma last_seen_ge: "e \<in> set es \<Longrightarrow> known (event_type e) \<Longrightarrow> run_seq e \<le> last_seen n es"
proof (induction es arbitrary: n)
  case (Cons x es)
  have "k \<le> last_seen (max n k) es" for n k
    using last_seen_max [of k n es] by (simp add: max.commute)
  then show ?case using Cons by (auto simp: seen_seq_def)
qed simp

text \<open>The sequence numbers of the events the fold knows.\<close>

definition known_seqs :: "stored_event list \<Rightarrow> nat set" where
  "known_seqs es = run_seq ` {e \<in> set es. known (event_type e)}"

lemma known_seqs_subset: "known_seqs es \<subseteq> run_seq ` set es" "known_seqs es \<subseteq> known_seqs (e # es)"
  "known (event_type e) \<Longrightarrow> run_seq e \<in> known_seqs (e # es)"
  by (auto simp: known_seqs_def)

lemma apply_event_scopes:
  assumes "apply_event s e = Inr t" "about VertexCreated e \<Longrightarrow> the (vertex_id e) \<notin> mkeys (fs_vertices s)"
  obtains ks where "scope_order t = scope_order s @ map (\<lambda>k. (k, k, run_seq e)) ks" "ks \<noteq> [] \<Longrightarrow> known (event_type e)"
proof (cases "known (event_type e)")
  case True
  then show ?thesis using apply_event_ordered(2) [OF assms] that by (auto simp: scopes_grow_def)
next
  case False
  then show ?thesis using assms(1) that [of "[]"] by (simp add: apply_event_def split: if_splits)
qed

lemma fold_ordered:
  "fold_res apply_event s es = Inr t \<Longrightarrow> fresh_for es s \<Longrightarrow>
   vertex_order t = vertex_order s @ concat (map created_row es) \<and>
   fs_last_seq t = last_seen (fs_last_seq s) es \<and> cd_at_run_seq (fs_model t) = cd_at_run_seq (fs_model s) \<and>
   (\<exists>zs. scope_order t = scope_order s @ zs \<and> (\<forall>(k, i, n)\<in>set zs. k = i \<and> n \<in> known_seqs es) \<and>
         (sorted (map run_seq es) \<longrightarrow> sorted (map (\<lambda>(k, i, n). n) zs)))"
proof (induction es arbitrary: s)
  case Nil
  then show ?case by auto
next
  case (Cons e es)
  then obtain u where u: "apply_event s e = Inr u" "fold_res apply_event u es = Inr t"
    by (cases "apply_event s e") (auto simp: bind_res_def)
  note F = fresh_for_Cons [OF Cons.prems(2) u(1)]
  note O = apply_event_ordered [OF u(1) F(1)]
  obtain ks where ks: "scope_order u = scope_order s @ map (\<lambda>k. (k, k, run_seq e)) ks" "ks \<noteq> [] \<Longrightarrow> known (event_type e)"
    using apply_event_scopes [OF u(1) F(1)] by blast
  from Cons.IH [OF u(2) F(2)] obtain zs where zs: "scope_order t = scope_order u @ zs"
    "\<forall>(k, i, n)\<in>set zs. k = i \<and> n \<in> known_seqs es"
    "sorted (map run_seq es) \<Longrightarrow> sorted (map (\<lambda>(k, i, n). n) zs)" by blast
  have "scope_order t = scope_order s @ (map (\<lambda>k. (k, k, run_seq e)) ks @ zs)" using zs(1) ks(1) by simp
  moreover have "\<forall>(k, i, n)\<in>set (map (\<lambda>k. (k, k, run_seq e)) ks @ zs). k = i \<and> n \<in> known_seqs (e # es)"
    using zs(2) ks(2) known_seqs_subset(2,3) [where e = e and es = es] by (cases ks) fastforce+
  moreover have "sorted (map (\<lambda>(k, i, n). n) (map (\<lambda>k. (k, k, run_seq e)) ks @ zs))" if "sorted (map run_seq (e # es))"
  proof -
    have "sorted (map (\<lambda>k. run_seq e) ks)" by (induction ks) simp_all
    moreover have "\<forall>(k, i, n)\<in>set zs. run_seq e \<le> n" using zs(2) that known_seqs_subset(1) [of es] by fastforce
    ultimately show ?thesis using zs(3) that by (auto simp: sorted_append o_def)
  qed
  ultimately have "\<exists>zs. scope_order t = scope_order s @ zs \<and> (\<forall>(k, i, n)\<in>set zs. k = i \<and> n \<in> known_seqs (e # es)) \<and>
      (sorted (map run_seq (e # es)) \<longrightarrow> sorted (map (\<lambda>(k, i, n). n) zs))" by blast
  moreover have "vertex_order t = vertex_order s @ concat (map created_row (e # es))"
    "fs_last_seq t = last_seen (fs_last_seq s) (e # es)" "cd_at_run_seq (fs_model t) = cd_at_run_seq (fs_model s)"
    using Cons.IH [OF u(2) F(2)] O by simp_all
  ultimately show ?case by blast
qed

section \<open>The order invariant and restarting from a finished batch\<close>

text \<open>
  The order the model keeps: distinct vertices in the order of their creation, distinct scopes in the
  order they were opened, none after the watermark.
\<close>

definition in_log_order :: "console_dag_model \<Rightarrow> bool" where
  "in_log_order md \<longleftrightarrow>
     distinct (map cv_vertex_id (cd_vertices md)) \<and> sorted_wrt (<) (map cv_created_seq (cd_vertices md)) \<and>
     (\<forall>v\<in>set (cd_vertices md). cv_created_seq v \<le> cd_at_run_seq md) \<and>
     distinct (map cs_scope_id (cd_scopes md)) \<and> sorted (map cs_opened_seq (cd_scopes md)) \<and>
     (\<forall>c\<in>set (cd_scopes md). cs_opened_seq c \<le> cd_at_run_seq md)"

text \<open>A batch that continues a model: later events in ascending order, creating new vertices once each.\<close>

definition continues :: "console_dag_model \<Rightarrow> stored_event list \<Rightarrow> bool" where
  "continues md es \<longleftrightarrow>
     sorted_wrt (<) (map run_seq es) \<and> (\<forall>e\<in>set es. cd_at_run_seq md < run_seq e) \<and>
     distinct (ids_created_in es) \<and> set (ids_created_in es) \<inter> cv_vertex_id ` set (cd_vertices md) = {}"

text \<open>The maps of a state are in log order too.\<close>

definition state_order :: "fold_state \<Rightarrow> bool" where
  "state_order s \<longleftrightarrow>
     distinct (map fst (vertex_order s)) \<and> (\<forall>(k, i, n)\<in>set (vertex_order s). k = i) \<and>
     sorted_wrt (<) (map (\<lambda>(k, i, n). n) (vertex_order s)) \<and>
     distinct (map fst (scope_order s)) \<and> (\<forall>(k, i, n)\<in>set (scope_order s). k = i) \<and>
     sorted (map (\<lambda>(k, i, n). n) (scope_order s))"

lemma new_map_ids:
  assumes "distinct (map f xs)"
  shows "new_map (map (\<lambda>x. (f x, x)) xs) = map (\<lambda>x. (f x, x)) xs"
proof -
  have "foldl (\<lambda>m (k, v). map_set k v m) a (map (\<lambda>x. (f x, x)) xs) = a @ map (\<lambda>x. (f x, x)) xs"
    if "distinct (map fst a @ map f xs)" for a
    using that
  proof (induction xs arbitrary: a)
    case (Cons x xs)
    then show ?case by (simp add: map_set_fresh)
  qed simp
  then show ?thesis using assms by (simp add: new_map_def)
qed

lemma fold_state_of_orders:
  assumes "in_log_order md"
  shows "vertex_order (fold_state_of md) = map (\<lambda>v. (cv_vertex_id v, cv_vertex_id v, cv_created_seq v)) (cd_vertices md)"
    "scope_order (fold_state_of md) = map (\<lambda>c. (cs_scope_id c, cs_scope_id c, cs_opened_seq c)) (cd_scopes md)"
    "mkeys (fs_vertices (fold_state_of md)) = cv_vertex_id ` set (cd_vertices md)"
  using assms
  by (auto simp: in_log_order_def vertex_order_def scope_order_def fold_state_of_def new_map_ids mkeys_def image_image)

lemma map_snd_ids: "(\<forall>(k, v)\<in>set m. f v = k) \<Longrightarrow> map (\<lambda>v. (f v, v)) (map snd m) = m"
  by (induction m) auto

lemma sort_key_sorted: "sorted (map f xs) \<Longrightarrow> sort_key f xs = xs"
  by (simp add: sorted_sort_id sort_key_id_if_sorted)

lemma sort_two_keys:
  fixes f :: "'a \<Rightarrow> nat"
  assumes "sorted_wrt (<) (map f xs)"
  shows "sort_key f (sort_key g xs) = xs"
proof (rule map_sorted_distinct_set_unique [where f = f])
  have s: "sorted (map f xs)" "distinct (map f xs)" using assms by (simp_all add: strict_sorted_iff)
  show "inj_on f (set (sort_key f (sort_key g xs)) \<union> set xs)" using s(2) by (simp add: distinct_map)
  show "sorted (map f (sort_key f (sort_key g xs)))" by simp
  show "distinct (map f (sort_key f (sort_key g xs)))"
    using s(2) by (simp add: distinct_map)
  show "sorted (map f xs)" "distinct (map f xs)" using s .
qed simp

lemma new_map_snd:
  assumes "distinct (map fst m)" and ids: "\<forall>(k, v)\<in>set m. f v = k"
  shows "new_map (map (\<lambda>v. (f v, v)) (map snd m)) = m"
proof -
  have "map f (map snd m) = map fst m" using ids by auto
  then have "distinct (map f (map snd m))" using assms(1) by (simp only:)
  from new_map_ids [OF this] show ?thesis using map_snd_ids [OF ids] by (simp only:)
qed

lemma restart:
  assumes "state_order s"
  shows "carried (fold_state_of (fst (finish s))) = carried s"
    "cd_vertices (fst (finish s)) = map snd (fs_vertices s)" "cd_scopes (fst (finish s)) = map snd (fs_scopes s)"
proof -
  have v: "distinct (map fst (fs_vertices s))" "\<forall>(k, v)\<in>set (fs_vertices s). cv_vertex_id v = k"
    "sorted_wrt (<) (map cv_created_seq (map snd (fs_vertices s)))"
    using assms by (auto simp: state_order_def vertex_order_def comp_def case_prod_unfold)
  have c: "distinct (map fst (fs_scopes s))" "\<forall>(k, v)\<in>set (fs_scopes s). cs_scope_id v = k"
    "sorted (map cs_opened_seq (map snd (fs_scopes s)))"
    using assms by (auto simp: state_order_def scope_order_def comp_def case_prod_unfold)
  show V: "cd_vertices (fst (finish s)) = map snd (fs_vertices s)"
    using sort_two_keys [OF v(3)] by (simp add: finish_def Let_def)
  show C: "cd_scopes (fst (finish s)) = map snd (fs_scopes s)"
    using sort_key_sorted [OF c(3)] by (simp add: finish_def Let_def)
  have "new_map (map (\<lambda>v. (cv_vertex_id v, v)) (map snd (fs_vertices s))) = fs_vertices s"
    by (rule new_map_snd [OF v(1,2)])
  moreover have "new_map (map (\<lambda>v. (cs_scope_id v, v)) (map snd (fs_scopes s))) = fs_scopes s"
    by (rule new_map_snd [OF c(1,2)])
  ultimately show "carried (fold_state_of (fst (finish s))) = carried s"
    using V C by (simp add: carried_def fold_state_of_def) (simp add: finish_def Let_def)
qed

lemma finish_carried:
  assumes "carried s = carried t"
    "max (cd_at_run_seq (fs_model s)) (fs_last_seq s) = max (cd_at_run_seq (fs_model t)) (fs_last_seq t)"
  shows "fst (finish s) = fst (finish t)"
proof -
  have "fs_vertices s = fs_vertices t" "fs_scopes s = fs_scopes t"
    "(fs_model s)\<lparr>cd_at_run_seq := 0, cd_vertices := [], cd_scopes := []\<rparr> =
     (fs_model t)\<lparr>cd_at_run_seq := 0, cd_vertices := [], cd_scopes := []\<rparr>"
    using arg_cong [OF assms(1), of fs_vertices] arg_cong [OF assms(1), of fs_scopes]
      arg_cong [OF assms(1), of fs_model]
    by (simp_all add: carried_def)
  then show ?thesis using assms(2)
    by (cases "fs_model s", cases "fs_model t") (simp add: finish_def Let_def)
qed

lemma created_rows: "concat (map created_row es) = map (\<lambda>e. (the (vertex_id e), the (vertex_id e), run_seq e)) (filter (about VertexCreated) es)"
  by (induction es) (simp_all add: created_row_def)

lemma scope_keys_distinct: "distinct (map fst (fs_scopes s)) \<Longrightarrow> distinct (map fst (fs_scopes (change_scope k n f s)))"
  by (simp add: change_scope_def ensureScope_def case_prod_unfold Let_def keys_map_set split: option.splits)

lemma scope_keys_dispatch:
  assumes "dispatch e s = Inr t" "distinct (map fst (fs_scopes s))"
  shows "distinct (map fst (fs_scopes t))"
proof -
  have withdraw: "fs_scopes (foldl (withdraw_member b) s xs) = fs_scopes s" for b s xs
    by (induction xs arbitrary: s) (auto simp: withdraw_member_def split: option.splits)
  have frozen: "distinct (map fst (fs_scopes t))" if h: "freeze e s = Inr t"
  proof -
    let ?R = "\<lambda>s t. distinct (map fst (fs_scopes s)) \<longrightarrow> distinct (map fst (fs_scopes t))"
    obtain vs cs s1 where vs: "fold_res (announce (run_seq e)) (closeProposal e ProposalFrozen s) vs = Inr s1"
      and cs: "fold_res (open_scope (run_seq e)) s1 cs = Inr t"
      using h by (auto simp: freeze_def bind_res_def split: sum.splits)
    have "?R (closeProposal e ProposalFrozen s) s1"
      by (rule fold_res_rel [where R = ?R, OF _ _ _ vs])
        (auto simp: announce_def entry_member_def bind_res_def split: if_splits)
    moreover have "?R s1 t"
      by (rule fold_res_rel [where R = ?R, OF _ _ _ cs])
        (auto simp: open_scope_def entry_member_def bind_res_def ensureScope_def keys_map_set split: if_splits option.splits)
    ultimately show ?thesis using assms(2) closeProposal_rest(2) [where s = s] by simp
  qed
  show ?thesis using assms
    by (cases "event_type e")
      (auto simp: dispatch_def Let_def lifecycle_def unreadable_def closeProposal_rest(2) create_def put_vertex_def
        join_scope_def shadow_def boundary_def scopeState_def bracket_def cancel_scope_def withdraw pivotPassed_def charge_def
        split: if_splits option.splits intro!: scope_keys_distinct intro: frozen)
qed

lemma scope_keys_fold:
  assumes "fold_res apply_event s es = Inr t" "distinct (map fst (fs_scopes s))"
  shows "distinct (map fst (fs_scopes t))"
proof -
  let ?R = "\<lambda>s t. distinct (map fst (fs_scopes s)) \<longrightarrow> distinct (map fst (fs_scopes t))"
  have "?R s t"
  proof (rule fold_res_rel [where R = ?R, OF _ _ _ assms(1)])
    show "?R s t" if "apply_event s e = Inr t" for s e t
      using that by (cases rule: apply_event_cases) (auto dest: scope_keys_dispatch)
  qed blast+
  then show ?thesis using assms(2) by blast
qed

lemma continues_fresh:
  "in_log_order md \<Longrightarrow> continues md es \<Longrightarrow> fresh_for es (fold_state_of md)"
  by (simp add: fresh_for_def continues_def fold_state_of_orders)

lemma fold_state_order:
  assumes inv: "in_log_order md" and es: "continues md es" and t: "fold_res apply_event (fold_state_of md) es = Inr t"
  shows "state_order t" "cd_at_run_seq (fs_model t) = cd_at_run_seq md" "fs_last_seq t = last_seen 0 es"
    "vertex_order t = vertex_order (fold_state_of md) @ concat (map created_row es)"
    "\<forall>(k, i, n)\<in>set (scope_order t). n \<le> cd_at_run_seq md \<or> n \<in> known_seqs es"
proof -
  note F = fold_ordered [OF t continues_fresh [OF inv es]]
  have base: "cd_at_run_seq (fs_model (fold_state_of md)) = cd_at_run_seq md" "fs_last_seq (fold_state_of md) = 0"
    by (simp_all add: fold_state_of_def)
  show "cd_at_run_seq (fs_model t) = cd_at_run_seq md" "fs_last_seq t = last_seen 0 es"
    and V: "vertex_order t = vertex_order (fold_state_of md) @ concat (map created_row es)" using F base by simp_all
  obtain zs where zs: "scope_order t = scope_order (fold_state_of md) @ zs"
    "\<forall>(k, i, n)\<in>set zs. k = i \<and> n \<in> known_seqs es" "sorted (map run_seq es) \<longrightarrow> sorted (map (\<lambda>(k, i, n). n) zs)"
    using F by blast
  have srt: "sorted (map run_seq es)" "sorted_wrt (<) (map run_seq es)"
    using es by (simp_all add: continues_def strict_sorted_iff)
  have gt: "cd_at_run_seq md < run_seq e" if "e \<in> set es" for e using es that by (simp add: continues_def)
  have keys: "distinct (map fst (scope_order t))"
    using scope_keys_fold [OF t] by (simp add: fold_state_of_def scope_order_def comp_def case_prod_unfold distinct_new_map)
  have vs: "distinct (map fst (vertex_order t))"
    using inv es unfolding V created_rows fold_state_of_orders(1) [OF inv]
    by (auto simp: in_log_order_def continues_def ids_created_in_def comp_def)
  have "sorted_wrt (<) (map run_seq (filter (about VertexCreated) es))"
    using srt(2) by (simp add: sorted_wrt_map sorted_wrt_filter)
  then have vo: "sorted_wrt (<) (map (\<lambda>(k, i, n). n) (vertex_order t))"
    using inv gt unfolding V created_rows fold_state_of_orders(1) [OF inv]
    by (fastforce simp: in_log_order_def comp_def sorted_wrt_append)
  have so: "sorted (map (\<lambda>(k, i, n). n) (scope_order t))"
    using inv gt zs srt(1) known_seqs_subset(1) [of es] unfolding zs(1) fold_state_of_orders(2) [OF inv]
    by (fastforce simp: in_log_order_def comp_def sorted_append)
  show "state_order t" unfolding state_order_def
    using vs vo keys so zs(2) V unfolding zs(1)
    by (auto simp: fold_state_of_orders [OF inv] created_rows)
  show "\<forall>(k, i, n)\<in>set (scope_order t). n \<le> cd_at_run_seq md \<or> n \<in> known_seqs es"
    using zs(2) inv unfolding zs(1) fold_state_of_orders(2) [OF inv] by (auto simp: in_log_order_def)
qed

lemma map_cv_ids: "map cv_vertex_id (map snd (fs_vertices s)) = map (\<lambda>(k, i, n). i) (vertex_order s)"
  "map cv_created_seq (map snd (fs_vertices s)) = map (\<lambda>(k, i, n). n) (vertex_order s)"
  by (simp_all add: vertex_order_def case_prod_unfold)

lemma map_cs_ids: "map cs_scope_id (map snd (fs_scopes s)) = map (\<lambda>(k, i, n). i) (scope_order s)"
  "map cs_opened_seq (map snd (fs_scopes s)) = map (\<lambda>(k, i, n). n) (scope_order s)"
  by (simp_all add: scope_order_def case_prod_unfold)

lemma same_projection: "\<forall>(k, i, n)\<in>set xs. k = i \<Longrightarrow> map (\<lambda>(k, i, n). i) xs = map fst xs"
  by (induction xs) auto

lemma advance_cases:
  assumes "advanceConsoleDag md es = Inr (md', ds)"
  obtains t where "fold_res apply_event (fold_state_of md) es = Inr t" "md' = fst (finish t)" "ds = snd (finish t)"
proof (cases "fold_res apply_event (fold_state_of md) es")
  case (Inl a)
  then show ?thesis using assms by (simp add: advanceConsoleDag_def bind_res_def)
next
  case (Inr t)
  then have "finish t = (md', ds)" using assms by (simp add: advanceConsoleDag_def bind_res_def)
  then show ?thesis by (intro that [OF Inr]) simp_all
qed

lemma finish_watermark: "cd_at_run_seq (fst (finish t)) = max (cd_at_run_seq (fs_model t)) (fs_last_seq t)"
  by (simp add: finish_def Let_def)

lemma advance_watermark:
  assumes "in_log_order md" "continues md es" "advanceConsoleDag md es = Inr (md', ds)"
  shows "cd_at_run_seq md' = max (cd_at_run_seq md) (last_seen 0 es)"
    "cv_vertex_id ` set (cd_vertices md') = cv_vertex_id ` set (cd_vertices md) \<union> set (ids_created_in es)"
proof -
  from assms(3) obtain t where t: "fold_res apply_event (fold_state_of md) es = Inr t" "md' = fst (finish t)"
    by (rule advance_cases)
  note F = fold_state_order [OF assms(1,2) t(1)]
  show "cd_at_run_seq md' = max (cd_at_run_seq md) (last_seen 0 es)" using F t(2) finish_watermark by simp
  have "cv_vertex_id ` set (cd_vertices md') = set (map (\<lambda>(k, i, n). i) (vertex_order t))"
    using restart(2) [OF F(1)] t(2) map_cv_ids(1) [of t] by (metis set_map)
  then show "cv_vertex_id ` set (cd_vertices md') = cv_vertex_id ` set (cd_vertices md) \<union> set (ids_created_in es)"
    unfolding F(4) created_rows fold_state_of_orders(1) [OF assms(1)] ids_created_in_def by (simp add: image_Un image_image)
qed

lemma all_le_map: "map f xs = ns \<Longrightarrow> \<forall>n\<in>set ns. n \<le> k \<Longrightarrow> \<forall>x\<in>set xs. f x \<le> (k :: nat)"
  by auto

lemma advance_in_order:
  assumes inv: "in_log_order md" and es: "continues md es" and adv: "advanceConsoleDag md es = Inr (md', ds)"
  shows "in_log_order md'"
proof -
  from adv obtain t where t: "fold_res apply_event (fold_state_of md) es = Inr t" "md' = fst (finish t)"
    by (rule advance_cases)
  note F = fold_state_order [OF inv es t(1)]
  note R = restart [OF F(1)]
  note W = advance_watermark(1) [OF inv es adv]
  have le: "n \<le> cd_at_run_seq md'" if "n \<in> known_seqs es" for n
    using last_seen_ge [of _ es 0] that W by (fastforce simp: known_seqs_def)
  have created: "run_seq e \<in> known_seqs es" if "e \<in> set (filter (about VertexCreated) es)" for e
    using that by (auto simp: known_seqs_def about_def known_def EVENT_TYPES_def)
  have 1: "\<forall>n\<in>set (map (\<lambda>(k, i, n). n) (vertex_order t)). n \<le> cd_at_run_seq md'"
    using inv le [OF created] W unfolding F(4) created_rows fold_state_of_orders(1) [OF inv]
    by (fastforce simp: in_log_order_def)
  have 2: "\<forall>n\<in>set (map (\<lambda>(k, i, n). n) (scope_order t)). n \<le> cd_at_run_seq md'"
    using F(5) le W by fastforce
  have M: "map cv_vertex_id (cd_vertices md') = map fst (vertex_order t)"
    "map cv_created_seq (cd_vertices md') = map (\<lambda>(k, i, n). n) (vertex_order t)"
    "map cs_scope_id (cd_scopes md') = map fst (scope_order t)"
    "map cs_opened_seq (cd_scopes md') = map (\<lambda>(k, i, n). n) (scope_order t)"
    using same_projection [of "vertex_order t"] same_projection [of "scope_order t"] F(1)
    unfolding t(2) R(2,3) map_cv_ids map_cs_ids state_order_def by simp_all
  show ?thesis using F(1) all_le_map [OF M(2) 1] all_le_map [OF M(4) 2]
    unfolding in_log_order_def state_order_def M by simp
qed

lemma continues_append:
  assumes inv: "in_log_order md" and es: "continues md (a @ b)" and adv: "advanceConsoleDag md a = Inr (md', ds)"
  shows "continues md a" "continues md' b"
proof -
  show a: "continues md a" using es by (auto simp: continues_def sorted_wrt_append)
  note W = advance_watermark [OF inv a adv]
  have "cd_at_run_seq md' < run_seq e" if "e \<in> set b" for e
  proof -
    have "cd_at_run_seq md < run_seq e" "\<forall>x\<in>set a. run_seq x < run_seq e"
      using es that by (auto simp: continues_def sorted_wrt_append)
    moreover from this(2) have "\<forall>x\<in>set a. run_seq x \<le> run_seq e - 1" by fastforce
    ultimately show ?thesis using last_seen_le [of a "run_seq e - 1" 0] W(1) by (simp add: less_eq_Suc_le)
  qed
  then show "continues md' b" using es W(2) by (auto simp: continues_def sorted_wrt_append)
qed

lemma fold_res_append: "fold_res f s (a @ b) = bind_res (fold_res f s a) (\<lambda>t. fold_res f t b)"
  by (induction a arbitrary: s) (simp_all add: bind_res_def split: sum.splits)

text \<open>The model of one read: what \<^const>\<open>advanceConsoleDag\<close> makes of a batch.\<close>

definition read_batch :: "console_dag_model \<Rightarrow> stored_event list \<Rightarrow> console_dag_model res" where
  "read_batch md es = map_sum id fst (advanceConsoleDag md es)"

lemma state_ids: "state_order s \<Longrightarrow> mkeys (fs_vertices s) = cv_vertex_id ` set (map snd (fs_vertices s))"
proof -
  assume "state_order s"
  then have "map fst (fs_vertices s) = map cv_vertex_id (map snd (fs_vertices s))"
    by (auto simp: state_order_def vertex_order_def)
  then show ?thesis unfolding mkeys_def by (metis list.set_map)
qed

lemma read_batch_fold: "read_batch md es = map_sum id (\<lambda>s. fst (finish s)) (fold_res apply_event (fold_state_of md) es)"
  by (cases "fold_res apply_event (fold_state_of md) es") (simp_all add: read_batch_def advanceConsoleDag_def bind_res_def)

lemma read_batch_append:
  assumes inv: "in_log_order md" and es: "continues md (a @ b)"
  shows "read_batch md (a @ b) = bind_res (read_batch md a) (\<lambda>md'. read_batch md' b)"
proof (cases "fold_res apply_event (fold_state_of md) a")
  case (Inl x)
  then show ?thesis by (simp add: read_batch_fold fold_res_append bind_res_def)
next
  case (Inr t)
  let ?m = "fst (finish t)"
  have adv: "advanceConsoleDag md a = Inr (?m, snd (finish t))" using Inr by (simp add: advanceConsoleDag_def)
  note C = continues_append [OF inv es adv]
  note F = fold_state_order [OF inv C(1) Inr]
  note R = restart [OF F(1)]
  have inv': "in_log_order ?m" by (rule advance_in_order [OF inv C(1) adv])
  have fresh: "fresh_for b t"
    using C(2) state_ids [OF F(1)] R(2) by (simp add: fresh_for_def continues_def)
  have eq: "map_sum id carried (fold_res apply_event t b) = map_sum id carried (fold_res apply_event (fold_state_of ?m) b)"
    using carried_fold [of t "fold_state_of ?m" b] R(1) by simp
  have "map_sum id (\<lambda>s. fst (finish s)) (fold_res apply_event t b) =
        map_sum id (\<lambda>s. fst (finish s)) (fold_res apply_event (fold_state_of ?m) b)"
  proof (cases "fold_res apply_event t b")
    case (Inl x)
    then show ?thesis using eq by (cases "fold_res apply_event (fold_state_of ?m) b") simp_all
  next
    case (Inr u)
    then obtain u' where u': "fold_res apply_event (fold_state_of ?m) b = Inr u'" "carried u = carried u'"
      using eq by (cases "fold_res apply_event (fold_state_of ?m) b") auto
    have "max (cd_at_run_seq (fs_model u)) (fs_last_seq u) = max (cd_at_run_seq (fs_model u')) (fs_last_seq u')"
      using fold_ordered [OF Inr fresh] fold_state_order(2,3) [OF inv' C(2) u'(1)] F(2) finish_watermark [of t]
        last_seen_max [of "fs_last_seq t" 0 b] by (simp add: max.assoc)
    then show ?thesis using finish_carried [OF u'(2)] Inr u'(1) by simp
  qed
  then show ?thesis using Inr by (simp add: read_batch_fold fold_res_append bind_res_def)
qed

lemma read_nothing: "in_log_order md \<Longrightarrow> read_batch md [] = Inr md"
proof -
  assume inv: "in_log_order md"
  have "continues md []" by (simp add: continues_def)
  note F = fold_state_order [OF inv this, of "fold_state_of md", simplified]
  note R = restart [OF F(1)]
  have "map snd (fs_vertices (fold_state_of md)) = cd_vertices md" "map snd (fs_scopes (fold_state_of md)) = cd_scopes md"
    using inv by (simp_all add: in_log_order_def fold_state_of_def new_map_ids comp_def)
  then have "fst (finish (fold_state_of md)) = md"
    using R(2,3) F(2,3) by (cases md) (simp add: finish_def Let_def fold_state_of_def)
  then show ?thesis by (simp add: read_batch_fold)
qed

section \<open>When a batch is refused\<close>

text \<open>The entries of a freeze are readable: absent, or an array without null entries.\<close>

definition readable_entries :: "js \<Rightarrow> bool" where
  "readable_entries v = (case v of JUndef \<Rightarrow> True | JNull \<Rightarrow> True | JArr xs \<Rightarrow> JNull \<notin> set xs \<and> JUndef \<notin> set xs | _ \<Rightarrow> False)"

definition readable_freeze :: "stored_event \<Rightarrow> bool" where
  "readable_freeze e = (event_type e = SubgraphFrozen \<longrightarrow>
     readable_entries (member (payload e) ''vertices'') \<and> readable_entries (member (payload e) ''scopes''))"

lemma fold_res_total: "(\<And>s x. x \<in> set xs \<Longrightarrow> \<exists>t. f s x = Inr t) \<Longrightarrow> \<exists>t. fold_res f s xs = Inr t"
proof (induction xs arbitrary: s)
  case (Cons x xs)
  obtain t where "f s x = Inr t" using Cons.prems [of x s] by auto
  moreover have "\<exists>u. fold_res f t xs = Inr u" using Cons.IH Cons.prems by simp
  ultimately show ?case by (simp add: bind_res_def)
qed simp

lemma iterate_readable: "readable_entries v \<Longrightarrow> \<exists>xs. iterate v = Inr xs \<and> (\<forall>x\<in>set xs. x \<noteq> JNull \<and> x \<noteq> JUndef)"
  by (cases v) (auto simp: readable_entries_def iterate_def)

lemma freeze_total:
  assumes "readable_entries (member (payload e) ''vertices'')" "readable_entries (member (payload e) ''scopes'')"
  shows "\<exists>t. freeze e s = Inr t"
proof -
  obtain vs where vs: "iterate (member (payload e) ''vertices'') = Inr vs" "\<forall>x\<in>set vs. x \<noteq> JNull \<and> x \<noteq> JUndef"
    using iterate_readable [OF assms(1)] by blast
  obtain cs where cs: "iterate (member (payload e) ''scopes'') = Inr cs" "\<forall>x\<in>set cs. x \<noteq> JNull \<and> x \<noteq> JUndef"
    using iterate_readable [OF assms(2)] by blast
  have "\<exists>t. fold_res (announce n) s vs = Inr t" for n s
    by (rule fold_res_total) (use vs(2) in \<open>auto simp: announce_def entry_member_def bind_res_def\<close>)
  then obtain t where t: "fold_res (announce (run_seq e)) (closeProposal e ProposalFrozen s) vs = Inr t" by blast
  have "\<exists>u. fold_res (open_scope (run_seq e)) t cs = Inr u"
    by (rule fold_res_total) (use cs(2) in \<open>auto simp: open_scope_def entry_member_def bind_res_def\<close>)
  then show ?thesis using vs(1) cs(1) t by (simp add: freeze_def bind_res_def)
qed

lemma apply_event_total:
  "known (event_type e) \<or> ignorable e \<Longrightarrow> readable_freeze e \<Longrightarrow> \<exists>t. apply_event s e = Inr t"
  by (cases "event_type e") (auto simp: apply_event_def dispatch_def Let_def readable_freeze_def intro: freeze_total)

lemma fold_known: "fold_res apply_event s es = Inr t \<Longrightarrow> e \<in> set es \<Longrightarrow> known (event_type e) \<or> ignorable e"
proof (induction es arbitrary: s)
  case (Cons x es)
  then obtain u where "apply_event s x = Inr u" "fold_res apply_event u es = Inr t"
    by (cases "apply_event s x") (auto simp: bind_res_def)
  then show ?case using Cons by (auto simp: apply_event_def split: if_splits)
qed simp

section \<open>Properties\<close>

text \<open>C32: Reading a run in any sequence of batches gives the model of reading it at once: from a model
  in log order, folding the batches of a log that continues it one after the other returns, or throws,
  what one fold of their concatenation does, so a reader that resumed and a reader that reconnected
  show the same graph.\<close>

theorem console_reads_split:
  assumes "in_log_order md" and "continues md (concat batches)"
  shows "fold_res (\<lambda>m batch. map_sum id fst (advanceConsoleDag m batch)) md batches =
         map_sum id fst (advanceConsoleDag md (concat batches))"
  using assms
proof (induction batches arbitrary: md)
  case Nil
  then show ?case using read_nothing [of md] by (simp add: read_batch_def id_def)
next
  case (Cons a bs)
  have split: "read_batch md (a @ concat bs) = bind_res (read_batch md a) (\<lambda>m. read_batch m (concat bs))"
    using read_batch_append Cons.prems by simp
  show ?case
  proof (cases "advanceConsoleDag md a")
    case (Inl x)
    then show ?thesis using split by (simp add: read_batch_def bind_res_def id_def)
  next
    case (Inr r)
    then obtain m ds where r: "advanceConsoleDag md a = Inr (m, ds)" by (cases r) auto
    have "continues md (a @ concat bs)" using Cons.prems(2) by simp
    note C = continues_append [OF Cons.prems(1) this r]
    show ?thesis
      using split r Cons.IH [OF advance_in_order [OF Cons.prems(1) C(1) r] C(2)]
      by (simp add: read_batch_def bind_res_def id_def)
  qed
qed

definition wit_event :: "nat \<Rightarrow> event_type \<Rightarrow> string option \<Rightarrow> json_object \<Rightarrow> stored_event" where
  "wit_event n t v p =
     \<lparr>run_id = ''run'', run_seq = n, global_seq = n, event_type = t, vertex_id = v, parent_refs = [], planner_id = None,
      scope_id = None, pin_version = None, ignorable = False, inherited = False, payload = p,
      created_at = ''2024-01-01T00:00:00.000Z''\<rparr>"

definition wit_log :: "stored_event list" where
  "wit_log =
     [wit_event 1 RunStart None [], wit_event 2 SubgraphProposed None [(''source'', JStr ''planner'')],
      wit_event 3 VertexCreated (Some ''v1'') [(''role'', JStr ''planner'')], wit_event 4 VertexStarted (Some ''v1'') []]"

theorem console_reads_split_witness:
  "in_log_order (emptyConsoleDag ''run'' CONSOLE_PROJECTOR_VERSION) \<and>
   continues (emptyConsoleDag ''run'' CONSOLE_PROJECTOR_VERSION) (concat [take 2 wit_log, drop 2 wit_log]) \<and>
   fold_res (\<lambda>m batch. map_sum id fst (advanceConsoleDag m batch)) (emptyConsoleDag ''run'' CONSOLE_PROJECTOR_VERSION)
     [take 2 wit_log, drop 2 wit_log] =
   map_sum id fst (advanceConsoleDag (emptyConsoleDag ''run'' CONSOLE_PROJECTOR_VERSION) (concat [take 2 wit_log, drop 2 wit_log]))"
proof -
  have "in_log_order (emptyConsoleDag ''run'' CONSOLE_PROJECTOR_VERSION)"
    by (simp add: in_log_order_def emptyConsoleDag_def)
  moreover have "continues (emptyConsoleDag ''run'' CONSOLE_PROJECTOR_VERSION) (concat [take 2 wit_log, drop 2 wit_log])"
    by (simp add: continues_def emptyConsoleDag_def wit_log_def wit_event_def ids_created_in_def about_def)
  ultimately show ?thesis using console_reads_split by blast
qed

text \<open>C33: The order of the canvas is an invariant: every batch that continues a model in log order leaves
  one in log order, with every vertex it had and the ones the batch created, and its watermark at the
  last event the fold knows.\<close>

theorem advance_keeps_order:
  assumes "in_log_order md" and "continues md es" and "advanceConsoleDag md es = Inr (md', ds)"
  shows "in_log_order md' \<and>
         cv_vertex_id ` set (cd_vertices md') = cv_vertex_id ` set (cd_vertices md) \<union> set (ids_created_in es) \<and>
         cd_at_run_seq md' = max (cd_at_run_seq md) (last_seen 0 es)"
  using advance_in_order [OF assms] advance_watermark [OF assms] by blast

theorem advance_keeps_order_witness:
  "\<exists>md' ds. advanceConsoleDag (emptyConsoleDag ''run'' CONSOLE_PROJECTOR_VERSION) wit_log = Inr (md', ds) \<and>
     in_log_order md' \<and> cv_vertex_id ` set (cd_vertices md') = {''v1''} \<and> cd_at_run_seq md' = 4"
proof -
  let ?m = "emptyConsoleDag ''run'' CONSOLE_PROJECTOR_VERSION"
  have 1: "in_log_order ?m" by (simp add: in_log_order_def emptyConsoleDag_def)
  have 2: "continues ?m wit_log"
    by (simp add: continues_def emptyConsoleDag_def wit_log_def wit_event_def ids_created_in_def about_def)
  have "\<forall>e\<in>set wit_log. known (event_type e) \<and> readable_freeze e"
    by (simp add: wit_log_def wit_event_def known_def EVENT_TYPES_def readable_freeze_def)
  then have "\<exists>t. fold_res apply_event (fold_state_of ?m) wit_log = Inr t"
    by (intro fold_res_total) (simp add: apply_event_total)
  then obtain md' ds where 3: "advanceConsoleDag ?m wit_log = Inr (md', ds)"
    by (metis advanceConsoleDag_def bind_res_Inr surj_pair)
  have "ids_created_in wit_log = [''v1'']" "last_seen 0 wit_log = 4"
    by (simp_all add: wit_log_def wit_event_def about_def seen_seq_def known_def EVENT_TYPES_def)
  then show ?thesis using advance_keeps_order [OF 1 2 3] 3 by (simp add: emptyConsoleDag_def)
qed

text \<open>C34: The console fails closed: a batch whose freezes have readable entries is folded exactly when every
  event in it is of a known type or marked ignorable.\<close>

theorem advance_fails_closed:
  assumes "\<forall>e\<in>set es. readable_freeze e"
  shows "(\<exists>md' ds. advanceConsoleDag md es = Inr (md', ds)) \<longleftrightarrow> (\<forall>e\<in>set es. known (event_type e) \<or> ignorable e)"
proof
  assume "\<exists>md' ds. advanceConsoleDag md es = Inr (md', ds)"
  then obtain t where "fold_res apply_event (fold_state_of md) es = Inr t" by (auto elim: advance_cases)
  then show "\<forall>e\<in>set es. known (event_type e) \<or> ignorable e" using fold_known by blast
next
  assume "\<forall>e\<in>set es. known (event_type e) \<or> ignorable e"
  then have "\<exists>t. fold_res apply_event (fold_state_of md) es = Inr t"
    using assms by (intro fold_res_total) (simp add: apply_event_total)
  then show "\<exists>md' ds. advanceConsoleDag md es = Inr (md', ds)"
    by (metis advanceConsoleDag_def bind_res_Inr surj_pair)
qed

theorem advance_fails_closed_witness:
  "\<not> (\<exists>md' ds. advanceConsoleDag (emptyConsoleDag ''run'' CONSOLE_PROJECTOR_VERSION)
         [wit_event 1 (OtherEvent ''run/paused'') None []] = Inr (md', ds))"
  using advance_fails_closed [of "[wit_event 1 (OtherEvent ''run/paused'') None []]"]
  by (simp add: readable_freeze_def wit_event_def known_def EVENT_TYPES_def)

end
