(* ===== verification/Console_Marks.thy ===== *)
theory Console_Marks
  imports Console_Fold Projection_Spec
begin

text \<open>
  What one batch changes of the vertices a console model already has: which events leave the shadow
  marks alone, what a shadow and a boundary add to the replans, and the invariant that relates the
  state of a batch under way to the model it started from.  The console and the planner's surface
  agree on which vertices are active.
\<close>

section \<open>Events that move no mark\<close>

abbreviation vertex_at :: "fold_state \<Rightarrow> string \<Rightarrow> console_vertex option" where
  "vertex_at s k \<equiv> map_get (fs_vertices s) k"

abbreviation replans_of :: "fold_state \<Rightarrow> console_replan list" where
  "replans_of s \<equiv> cd_replans (fs_model s)"

definition appended_ids :: "fold_state \<Rightarrow> string list" where
  "appended_ids s = concat (map snd (fs_appended s))"

text \<open>Every vertex is kept under its identifier.\<close>

definition keyed :: "fold_state \<Rightarrow> bool" where
  "keyed s \<longleftrightarrow> (\<forall>k v. vertex_at s k = Some v \<longrightarrow> cv_vertex_id v = k)"

definition same_mark :: "console_vertex \<Rightarrow> console_vertex \<Rightarrow> bool" where
  "same_mark v w \<longleftrightarrow> cv_vertex_id w = cv_vertex_id v \<and> cv_created_seq w = cv_created_seq v \<and>
     cv_is_shadowed w = cv_is_shadowed v \<and> cv_shadowed_at_seq w = cv_shadowed_at_seq v"

lemma same_mark_keeps: "keeps_identity f \<Longrightarrow> same_mark v (f v)"
  by (simp add: keeps_identity_def same_mark_def)

text \<open>A step that adds no vertex and moves no mark, and that patches or has just appended every vertex it changes.\<close>

definition changed_to :: "fold_state \<Rightarrow> string \<Rightarrow> console_vertex \<Rightarrow> console_vertex \<Rightarrow> bool" where
  "changed_to t k v w \<longleftrightarrow> same_mark v w \<and> (w = v \<or> k \<in> set (fs_patched t) \<or> k \<in> set (appended_ids t))"

definition quiet :: "fold_state \<Rightarrow> fold_state \<Rightarrow> bool" where
  "quiet s t \<longleftrightarrow>
     (\<forall>k. case vertex_at s k of None \<Rightarrow> vertex_at t k = None | Some v \<Rightarrow> \<exists>w. vertex_at t k = Some w \<and> changed_to t k v w) \<and>
     set (fs_patched s) \<subseteq> set (fs_patched t) \<and> fs_appended t = fs_appended s \<and>
     fs_replan_deltas t = fs_replan_deltas s \<and> replans_of t = replans_of s"

lemma quietD:
  assumes "quiet s t"
  shows "vertex_at s k = None \<Longrightarrow> vertex_at t k = None"
    "vertex_at s k = Some v \<Longrightarrow> \<exists>w. vertex_at t k = Some w \<and> changed_to t k v w"
    "set (fs_patched s) \<subseteq> set (fs_patched t)" "fs_appended t = fs_appended s"
    "fs_replan_deltas t = fs_replan_deltas s" "replans_of t = replans_of s"
proof -
  have "case vertex_at s k of None \<Rightarrow> vertex_at t k = None | Some v \<Rightarrow> \<exists>w. vertex_at t k = Some w \<and> changed_to t k v w"
    using assms unfolding quiet_def by blast
  then show "vertex_at s k = None \<Longrightarrow> vertex_at t k = None"
    "vertex_at s k = Some v \<Longrightarrow> \<exists>w. vertex_at t k = Some w \<and> changed_to t k v w" by auto
  show "set (fs_patched s) \<subseteq> set (fs_patched t)" "fs_appended t = fs_appended s"
    "fs_replan_deltas t = fs_replan_deltas s" "replans_of t = replans_of s" using assms by (simp_all add: quiet_def)
qed

lemma same_mark_refl [simp]: "same_mark v v"
  by (simp add: same_mark_def)

lemma changed_to_refl [simp]: "changed_to t k v v"
  by (simp add: changed_to_def)

lemma quiet_same_vertices:
  "fs_vertices t = fs_vertices s \<Longrightarrow> set (fs_patched s) \<subseteq> set (fs_patched t) \<Longrightarrow> fs_appended t = fs_appended s \<Longrightarrow>
   fs_replan_deltas t = fs_replan_deltas s \<Longrightarrow> replans_of t = replans_of s \<Longrightarrow> quiet s t"
  by (simp add: quiet_def split: option.split)

lemma quiet_refl [simp]: "quiet s s"
  by (rule quiet_same_vertices) simp_all

lemma quiet_trans:
  assumes "quiet s t" "quiet t u"
  shows "quiet s u"
proof -
  have "\<exists>x. vertex_at u k = Some x \<and> changed_to u k v x" if v: "vertex_at s k = Some v" for k v
  proof -
    obtain w where w: "vertex_at t k = Some w" "changed_to t k v w" using quietD(2) [OF assms(1) v] by blast
    obtain x where x: "vertex_at u k = Some x" "changed_to u k w x" using quietD(2) [OF assms(2) w(1)] by blast
    have "changed_to u k v x"
      using w(2) x(2) quietD(3,4) [OF assms(2)] by (auto simp: changed_to_def same_mark_def appended_ids_def)
    then show ?thesis using x(1) by blast
  qed
  moreover have "vertex_at u k = None" if "vertex_at s k = None" for k
    using quietD(1) [OF assms(2) quietD(1) [OF assms(1) that]] .
  ultimately show ?thesis
    using quietD(3-6) [OF assms(1)] quietD(3-6) [OF assms(2)] by (auto simp: quiet_def split: option.split)
qed

lemma quiet_keyed:
  assumes "quiet s t" "keyed s"
  shows "keyed t"
  unfolding keyed_def
proof (intro allI impI)
  fix k w assume w: "vertex_at t k = Some w"
  then obtain v where v: "vertex_at s k = Some v" using quietD(1) [OF assms(1), of k] by (cases "vertex_at s k") auto
  then show "cv_vertex_id w = k"
    using quietD(2) [OF assms(1) v] w assms(2) by (auto simp: changed_to_def same_mark_def keyed_def)
qed

lemma same_rest_quiet: "same_rest s t \<Longrightarrow> quiet s t"
  by (rule quiet_same_vertices) (simp_all add: same_rest_def)

lemma touch_marks: "quiet s (touch s v)" "v \<in> set (fs_patched (touch s v)) \<or> v \<in> set (appended_ids (touch s v))"
proof -
  show "quiet s (touch s v)" by (rule quiet_same_vertices) (auto simp: touch_def)
  show "v \<in> set (fs_patched (touch s v)) \<or> v \<in> set (appended_ids (touch s v))"
    by (auto simp: touch_def appended_ids_def)
qed

lemma touch_all_quiet: "quiet s (touch_all s vs)"
proof (induction vs arbitrary: s)
  case (Cons v vs)
  show ?case using quiet_trans [OF touch_marks(1) Cons] by (simp add: touch_all_def)
qed (simp add: touch_all_def)

lemma set_vertex_quiet:
  assumes "vertex_at s k = Some v" "same_mark v w"
  shows "quiet s (touch (s\<lparr>fs_vertices := map_set k w (fs_vertices s)\<rparr>) k)"
proof -
  let ?s = "s\<lparr>fs_vertices := map_set k w (fs_vertices s)\<rparr>"
  have "\<exists>y. vertex_at (touch ?s k) j = Some y \<and> changed_to (touch ?s k) j x y" if "vertex_at s j = Some x" for j x
    using assms that touch_marks(2) [of k ?s]
    by (cases "j = k") (auto simp: map_get_map_set changed_to_def)
  moreover have "vertex_at (touch ?s k) j = None" if "vertex_at s j = None" for j
    using assms that by (auto simp: map_get_map_set)
  moreover have "set (fs_patched s) \<subseteq> set (fs_patched (touch ?s k))" by (auto simp: touch_def)
  ultimately show ?thesis by (auto simp: quiet_def split: option.split)
qed

lemma change_vertex_quiet:
  assumes "keyed s" "keeps_identity f"
  shows "quiet s (change_vertex k f s)"
proof (cases "lookup_present (fs_vertices s) k")
  case (Some v)
  then have "vertex_at s (the k) = Some v" by (auto dest: lookup_presentD)
  moreover from this have "cv_vertex_id v = the k" using assms(1) by (simp add: keyed_def)
  ultimately show ?thesis
    using set_vertex_quiet [of s "the k" v "f v"] same_mark_keeps [OF assms(2)] Some by (simp add: change_vertex_def)
qed (simp add: change_vertex_def)

lemma withdraw_member_quiet: "quiet s (withdraw_member b s v)"
  using touch_marks(1) [of s v] set_vertex_quiet [of s v] same_mark_keeps [OF keeps_identity_set_bracket]
  by (auto simp: withdraw_member_def split: option.splits)

lemma withdraw_members_quiet: "quiet s (foldl (withdraw_member b) s vs)"
proof (induction vs arbitrary: s)
  case (Cons v vs)
  show ?case using quiet_trans [OF withdraw_member_quiet Cons] by simp
qed simp

lemma change_scope_quiet: "quiet s (change_scope k n f s)"
  by (rule quiet_same_vertices) simp_all

lemma cancel_scope_quiet: "quiet s (cancel_scope e s)"
  using quiet_trans [OF change_scope_quiet withdraw_members_quiet] by (simp add: cancel_scope_def Let_def)

lemma bracket_quiet: "keyed s \<Longrightarrow> quiet s (bracket e s)"
  by (auto simp: bracket_def change_vertex_quiet cancel_scope_quiet split: option.splits)

lemma scopeState_quiet: "quiet s (scopeState e s)"
  using quiet_trans [OF change_scope_quiet touch_all_quiet] by (simp add: scopeState_def Let_def)

lemma pivotPassed_quiet: "keyed s \<Longrightarrow> quiet s (pivotPassed e s)"
proof -
  assume s: "keyed s"
  let ?s = "if present (scope_id e) then change_scope (the (scope_id e)) (run_seq e) (\<lambda>sc. sc\<lparr>cs_pivot_passed_seq := Some (run_seq e)\<rparr>) s else s"
  have q: "quiet s ?s" by (simp add: change_scope_quiet)
  show ?thesis unfolding pivotPassed_def
    by (rule quiet_trans [OF q change_vertex_quiet [OF quiet_keyed [OF q s]]]) (rule keeps_identity_fields)
qed

lemma charge_quiet: "keyed s \<Longrightarrow> quiet s (charge e s)"
proof -
  assume s: "keyed s"
  let ?s = "s\<lparr>fs_model := (fs_model s)\<lparr>cd_spend := add_cost (call_cost_of (payload e)) (cd_spend (fs_model s))\<rparr>\<rparr>"
  have q: "quiet s ?s" by (rule quiet_same_vertices) simp_all
  show ?thesis unfolding charge_def Let_def
    by (rule quiet_trans [OF q change_vertex_quiet [OF quiet_keyed [OF q s]]]) (rule keeps_identity_fields)
qed

lemma dispatch_quiet:
  assumes "dispatch e s = Inr t" "keyed s"
    "event_type e \<notin> {VertexCreated, SubgraphShadowed, ReplanBoundary}"
  shows "quiet s t"
proof (cases "event_type e = SubgraphFrozen")
  case True
  then show ?thesis using assms(1) freeze_rest [of e s t] by (simp add: dispatch_def same_rest_quiet)
next
  case False
  then show ?thesis using assms
    by (cases "event_type e")
      (auto simp: dispatch_def Let_def lifecycle_def unreadable_def same_rest_quiet closeProposal_rest(1) change_vertex_quiet
        scopeState_quiet bracket_quiet pivotPassed_quiet charge_quiet intro: quiet_same_vertices)
qed

section \<open>Creating, shadowing and replanning\<close>

lemma mset_appended:
  "mset (concat (map snd (map_set g (nullish (map_get m g) [] @ [v]) m))) = add_mset v (mset (concat (map snd m)))"
proof (induction m)
  case (Cons p m)
  then show ?case by (cases p) (auto simp: map_set_def map_get_def)
qed (simp add: map_set_def map_get_def)

lemma create_marks:
  assumes "present (vertex_id e)"
  shows "vertex_at (create e s) k = (if k = the (vertex_id e) then Some (console_vertex_of e s) else vertex_at s k)"
    "mset (appended_ids (create e s)) = add_mset (the (vertex_id e)) (mset (appended_ids s))"
    "fs_patched (create e s) = fs_patched s" "fs_replan_deltas (create e s) = fs_replan_deltas s"
    "replans_of (create e s) = replans_of s"
proof -
  have id: "cv_vertex_id (console_vertex_of e s) = the (vertex_id e)" by (simp add: console_vertex_of_def Let_def)
  have join: "fs_vertices (join_scope e v s) = fs_vertices s" "fs_patched (join_scope e v s) = fs_patched s"
    "fs_replan_deltas (join_scope e v s) = fs_replan_deltas s" "fs_model (join_scope e v s) = fs_model s"
    "fs_appended (join_scope e v s) = fs_appended s" for v s
    by (simp_all add: join_scope_def)
  show "vertex_at (create e s) k = (if k = the (vertex_id e) then Some (console_vertex_of e s) else vertex_at s k)"
    "fs_patched (create e s) = fs_patched s" "fs_replan_deltas (create e s) = fs_replan_deltas s"
    "replans_of (create e s) = replans_of s"
    using assms by (simp_all add: create_def Let_def join put_vertex_def id map_get_map_set)
  show "mset (appended_ids (create e s)) = add_mset (the (vertex_id e)) (mset (appended_ids s))"
    using assms unfolding appended_ids_def
    by (simp only: create_def Let_def if_False not_not if_True fold_state.simps fold_state.select_convs join id mset_appended)
      (simp add: put_vertex_def join id mset_appended)
qed

text \<open>The vertex a shadow leaves: marked at the event, unless it was marked before.\<close>

definition hidden_at :: "nat \<Rightarrow> console_vertex \<Rightarrow> console_vertex" where
  "hidden_at n v = (if cv_is_shadowed v then v else v\<lparr>cv_is_shadowed := True, cv_shadowed_at_seq := Some n\<rparr>)"

lemma hidden_at_idem [simp]: "hidden_at n (hidden_at n v) = hidden_at n v"
  by (simp add: hidden_at_def)

lemma hide_get: "map_get (hide n vs x) k = (if k = x then map_option (hidden_at n) (map_get vs k) else map_get vs k)"
proof (cases "map_get vs x")
  case (Some v)
  then show ?thesis by (cases "cv_is_shadowed v") (auto simp: hide_def hidden_at_def map_get_map_set)
qed (simp add: hide_def)

lemma hide_all_get:
  "map_get (foldl (hide n) vs xs) k = (if k \<in> set xs then map_option (hidden_at n) (map_get vs k) else map_get vs k)"
proof (induction xs arbitrary: vs)
  case (Cons x xs)
  show ?case using Cons [of "hide n vs x"] by (auto simp: hide_get option.map_comp comp_def)
qed simp

lemma record_replan_marks:
  assumes "\<And>r. set (rp_vertex_ids (f r)) = set (rp_vertex_ids r) \<union> H"
  obtains i where "fs_replan_deltas (record_replan e b f s) = fs_replan_deltas s @ [i]"
    "i < length (replans_of (record_replan e b f s))" "length (replans_of s) \<le> length (replans_of (record_replan e b f s))"
    "\<And>j. j < length (replans_of s) \<Longrightarrow> j \<noteq> i \<Longrightarrow> replans_of (record_replan e b f s) ! j = replans_of s ! j"
    "\<And>j. length (replans_of s) \<le> j \<Longrightarrow> j < length (replans_of (record_replan e b f s)) \<Longrightarrow> j = i"
    "set (rp_vertex_ids (replans_of (record_replan e b f s) ! i)) =
       (if i < length (replans_of s) then set (rp_vertex_ids (replans_of s ! i)) else {}) \<union> H"
proof -
  let ?m = "\<lambda>i. member (payload e) ''boundary_seq'' \<noteq> JUndef \<and> rp_boundary_seq (replans_of s ! i) = member (payload e) ''boundary_seq''"
  show ?thesis
  proof (cases "filter ?m [0..<length (replans_of s)]")
    case Nil
    show ?thesis
      by (rule that [of "length (replans_of s)"])
        (use Nil assms in \<open>auto simp: record_replan_def replanFor_def Let_def nth_append\<close>)
  next
    case (Cons i js)
    then have "i \<in> set (filter ?m [0..<length (replans_of s)])" by simp
    then have i: "i < length (replans_of s)" by simp
    show ?thesis
      by (rule that [of i]) (use Cons i assms in \<open>auto simp: record_replan_def replanFor_def Let_def\<close>)
  qed
qed

section \<open>A batch under way\<close>

text \<open>The identifiers the replans with a pending delta name.\<close>

definition replanned :: "fold_state \<Rightarrow> string set" where
  "replanned s = (\<Union>i\<in>set (fs_replan_deltas s). set (rp_vertex_ids (replans_of s ! i)))"

text \<open>A vertex without its mark.\<close>

definition unmarked :: "console_vertex \<Rightarrow> console_vertex" where
  "unmarked v = v\<lparr>cv_is_shadowed := False, cv_shadowed_at_seq := None\<rparr>"

lemma unmarked_hidden_at [simp]: "unmarked (hidden_at n v) = unmarked v"
  by (simp add: unmarked_def hidden_at_def)

text \<open>Every vertex a replan names is there and shadowed.\<close>

definition replans_settled :: "fold_state \<Rightarrow> bool" where
  "replans_settled s \<longleftrightarrow>
     (\<forall>r\<in>set (replans_of s). \<forall>k\<in>set (rp_vertex_ids r). \<exists>v. vertex_at s k = Some v \<and> cv_is_shadowed v)"

text \<open>
  The state of a batch against the state it began with: what it appended is new and appended once, an
  old vertex it did not patch differs in its mark only, and an old vertex is marked exactly when it was
  marked before or a pending replan names it; every replan it changed or added has a pending delta.
\<close>

definition old_vertex :: "fold_state \<Rightarrow> string \<Rightarrow> console_vertex \<Rightarrow> console_vertex \<Rightarrow> bool" where
  "old_vertex s k v w \<longleftrightarrow> (k \<notin> set (fs_patched s) \<longrightarrow> unmarked w = unmarked v) \<and>
     (cv_is_shadowed w \<longleftrightarrow> cv_is_shadowed v \<or> k \<in> replanned s)"

definition batch_inv :: "fold_state \<Rightarrow> fold_state \<Rightarrow> bool" where
  "batch_inv s0 s \<longleftrightarrow>
     keyed s \<and> distinct (appended_ids s) \<and>
     mkeys (fs_vertices s) = mkeys (fs_vertices s0) \<union> set (appended_ids s) \<and>
     set (appended_ids s) \<inter> mkeys (fs_vertices s0) = {} \<and>
     (\<forall>k v. vertex_at s0 k = Some v \<longrightarrow> (\<exists>w. vertex_at s k = Some w \<and> old_vertex s k v w)) \<and>
     (\<forall>i\<in>set (fs_replan_deltas s). i < length (replans_of s)) \<and> length (replans_of s0) \<le> length (replans_of s) \<and>
     (\<forall>j<length (replans_of s0). j \<notin> set (fs_replan_deltas s) \<longrightarrow> replans_of s ! j = replans_of s0 ! j) \<and>
     (\<forall>j<length (replans_of s). length (replans_of s0) \<le> j \<longrightarrow> j \<in> set (fs_replan_deltas s))"

lemma batch_invD:
  assumes "batch_inv s0 s"
  shows "keyed s" "distinct (appended_ids s)" "mkeys (fs_vertices s) = mkeys (fs_vertices s0) \<union> set (appended_ids s)"
    "set (appended_ids s) \<inter> mkeys (fs_vertices s0) = {}"
    "vertex_at s0 k = Some v \<Longrightarrow> \<exists>w. vertex_at s k = Some w \<and> old_vertex s k v w"
    "i \<in> set (fs_replan_deltas s) \<Longrightarrow> i < length (replans_of s)" "length (replans_of s0) \<le> length (replans_of s)"
    "j < length (replans_of s0) \<Longrightarrow> j \<notin> set (fs_replan_deltas s) \<Longrightarrow> replans_of s ! j = replans_of s0 ! j"
    "j < length (replans_of s) \<Longrightarrow> length (replans_of s0) \<le> j \<Longrightarrow> j \<in> set (fs_replan_deltas s)"
  using assms unfolding batch_inv_def by auto

lemma batch_inv_start:
  assumes "keyed s" "fs_appended s = []" "fs_patched s = []" "fs_replan_deltas s = []"
  shows "batch_inv s s"
  using assms by (simp add: batch_inv_def appended_ids_def old_vertex_def replanned_def)

lemma mkeys_quiet: "quiet s t \<Longrightarrow> mkeys (fs_vertices t) = mkeys (fs_vertices s)"
proof -
  assume q: "quiet s t"
  have "vertex_at t k = None \<longleftrightarrow> vertex_at s k = None" for k
    using quietD(1,2) [OF q, of k] by (cases "vertex_at s k") auto
  then show ?thesis unfolding map_get_mkeys by blast
qed

lemma batch_inv_quiet:
  assumes inv: "batch_inv s0 s" and q: "quiet s t"
  shows "batch_inv s0 t"
proof -
  note Q = quietD(3-6) [OF q]
  have app: "appended_ids t = appended_ids s" by (simp add: appended_ids_def Q)
  have rep: "replanned t = replanned s" by (simp add: replanned_def Q)
  have "\<exists>w. vertex_at t k = Some w \<and> old_vertex t k v w" if v: "vertex_at s0 k = Some v" for k v
  proof -
    obtain x where x: "vertex_at s k = Some x" "old_vertex s k v x" using batch_invD(5) [OF inv v] by blast
    obtain w where w: "vertex_at t k = Some w" "changed_to t k x w" using quietD(2) [OF q x(1)] by blast
    have "k \<in> mkeys (fs_vertices s0)" using v map_get_mkeys [of "fs_vertices s0" k] by simp
    then have "k \<notin> set (appended_ids t)" using batch_invD(4) [OF inv] app by auto
    then have "old_vertex t k v w"
      using x(2) w(2) Q(1) by (auto simp: old_vertex_def changed_to_def same_mark_def rep)
    then show ?thesis using w(1) by blast
  qed
  then show ?thesis
    using batch_invD [OF inv] quiet_keyed [OF q] by (simp add: batch_inv_def app Q mkeys_quiet [OF q])
qed

lemma batch_inv_create:
  assumes inv: "batch_inv s0 s" and v: "present (vertex_id e)" and fresh: "the (vertex_id e) \<notin> mkeys (fs_vertices s)"
  shows "batch_inv s0 (create e s)"
proof -
  note C = create_marks [OF v, of s]
  have set_app: "set (appended_ids (create e s)) = insert (the (vertex_id e)) (set (appended_ids s))"
    using arg_cong [OF C(2), of set_mset] by simp
  have dist: "distinct (appended_ids (create e s))"
    using mset_eq_imp_distinct_iff [of "appended_ids (create e s)" "the (vertex_id e) # appended_ids s"] C(2)
      fresh batch_invD(2,3) [OF inv] by simp
  have rep: "replanned (create e s) = replanned s" by (simp add: replanned_def C)
  have keys: "mkeys (fs_vertices (create e s)) = insert (the (vertex_id e)) (mkeys (fs_vertices s))"
  proof (rule set_eqI)
    fix k
    show "k \<in> mkeys (fs_vertices (create e s)) \<longleftrightarrow> k \<in> insert (the (vertex_id e)) (mkeys (fs_vertices s))"
      using C(1) [of k] map_get_mkeys [of "fs_vertices (create e s)" k] map_get_mkeys [of "fs_vertices s" k]
      by (cases "k = the (vertex_id e)") auto
  qed
  have "keyed (create e s)" using batch_invD(1) [OF inv]
    by (auto simp: keyed_def C(1) console_vertex_of_def Let_def)
  moreover have "\<exists>w. vertex_at (create e s) k = Some w \<and> old_vertex (create e s) k x w" if "vertex_at s0 k = Some x" for k x
  proof -
    have "k \<in> mkeys (fs_vertices s0)" using that map_get_mkeys [of "fs_vertices s0" k] by simp
    then have "k \<noteq> the (vertex_id e)" using fresh batch_invD(3) [OF inv] by auto
    then show ?thesis using batch_invD(5) [OF inv that] by (auto simp: C(1) old_vertex_def rep C(3))
  qed
  moreover have "the (vertex_id e) \<notin> mkeys (fs_vertices s0)" using fresh batch_invD(3) [OF inv] by auto
  ultimately show ?thesis
    using batch_invD(3,4,6,7,8,9) [OF inv] dist by (simp add: batch_inv_def keys set_app C(4,5))
qed

text \<open>A shadow and a boundary at once: the named vertices are hidden and the replan of the event grows by them.\<close>

lemma batch_inv_replan:
  assumes inv: "batch_inv s0 s" and settled: "replans_settled s0"
    and vs: "\<And>k. vertex_at t k = (if k \<in> H then map_option (hidden_at n) (vertex_at s k) else vertex_at s k)"
    and same: "fs_patched t = fs_patched s" "fs_appended t = fs_appended s"
    and deltas: "fs_replan_deltas t = fs_replan_deltas s @ [i]"
    and len: "i < length (replans_of t)" "length (replans_of s) \<le> length (replans_of t)"
    and others: "\<And>j. j < length (replans_of s) \<Longrightarrow> j \<noteq> i \<Longrightarrow> replans_of t ! j = replans_of s ! j"
    and added: "\<And>j. length (replans_of s) \<le> j \<Longrightarrow> j < length (replans_of t) \<Longrightarrow> j = i"
    and ids: "set (rp_vertex_ids (replans_of t ! i)) =
      (if i < length (replans_of s) then set (rp_vertex_ids (replans_of s ! i)) else {}) \<union> H"
  shows "batch_inv s0 t"
proof -
  note I = batch_invD [OF inv]
  have app: "appended_ids t = appended_ids s" by (simp add: appended_ids_def same)
  have keys: "mkeys (fs_vertices t) = mkeys (fs_vertices s)"
  proof (rule set_eqI)
    fix k
    show "k \<in> mkeys (fs_vertices t) \<longleftrightarrow> k \<in> mkeys (fs_vertices s)"
      using vs [of k] map_get_mkeys [of "fs_vertices t" k] map_get_mkeys [of "fs_vertices s" k]
      by (cases "vertex_at s k") (auto split: if_splits)
  qed
  have "keyed t" using I(1) by (auto simp: keyed_def vs hidden_at_def split: if_splits)
  have keep: "set (rp_vertex_ids (replans_of t ! j)) = set (rp_vertex_ids (replans_of s ! j))"
    if "j \<in> set (fs_replan_deltas s)" "j \<noteq> i" for j
    using that I(6) others by simp
  have grown: "replanned t = replanned s \<union> H \<union>
      (if i < length (replans_of s) then set (rp_vertex_ids (replans_of s ! i)) else {})"
    (is "_ = _ \<union> H \<union> ?I")
  proof -
    have "replanned t = (\<Union>j\<in>set (fs_replan_deltas s) - {i}. set (rp_vertex_ids (replans_of s ! j))) \<union> (?I \<union> H)"
    proof -
      have U: "(\<Union>j\<in>set (fs_replan_deltas s) - {i}. set (rp_vertex_ids (replans_of t ! j))) =
          (\<Union>j\<in>set (fs_replan_deltas s) - {i}. set (rp_vertex_ids (replans_of s ! j)))"
        by (rule SUP_cong) (use keep in auto)
      have D: "set (fs_replan_deltas t) = insert i (set (fs_replan_deltas s) - {i})" by (auto simp: deltas)
      show ?thesis unfolding replanned_def D UN_insert ids U by (rule Un_commute)
    qed
    moreover have "set (rp_vertex_ids (replans_of s ! i)) \<subseteq> ?I" if "i \<in> set (fs_replan_deltas s)"
      using I(6) [OF that] by simp
    ultimately show ?thesis unfolding replanned_def by (cases "i \<in> set (fs_replan_deltas s)") auto
  qed
  have old: "cv_is_shadowed v" if "vertex_at s0 k = Some v" "k \<in> ?I" "k \<notin> replanned s" for k v
  proof -
    have i: "i < length (replans_of s)" "k \<in> set (rp_vertex_ids (replans_of s ! i))" using that(2) by (auto split: if_splits)
    then have "i \<notin> set (fs_replan_deltas s)" using that(3) by (auto simp: replanned_def)
    then have "i < length (replans_of s0)" "replans_of s ! i = replans_of s0 ! i" using I(8,9) i(1) by (meson not_le)+
    then have "\<exists>x. vertex_at s0 k = Some x \<and> cv_is_shadowed x"
      using settled i(2) unfolding replans_settled_def by (metis nth_mem)
    then show ?thesis using that(1) by simp
  qed
  have "\<exists>w. vertex_at t k = Some w \<and> old_vertex t k v w" if v: "vertex_at s0 k = Some v" for k v
  proof -
    obtain x where x: "vertex_at s k = Some x" "old_vertex s k v x" using I(5) [OF v] by blast
    let ?w = "if k \<in> H then hidden_at n x else x"
    have "vertex_at t k = Some ?w" using vs [of k] x(1) by simp
    moreover have "old_vertex t k v ?w"
      using x(2) old [OF v] by (auto simp: old_vertex_def same grown hidden_at_def unmarked_def)
    ultimately show ?thesis by blast
  qed
  moreover have "\<forall>j\<in>set (fs_replan_deltas t). j < length (replans_of t)" using I(6) len by (fastforce simp: deltas)
  moreover have "\<forall>j<length (replans_of s0). j \<notin> set (fs_replan_deltas t) \<longrightarrow> replans_of t ! j = replans_of s0 ! j"
    using I(7,8) others by (simp add: deltas)
  moreover have "\<forall>j<length (replans_of t). length (replans_of s0) \<le> j \<longrightarrow> j \<in> set (fs_replan_deltas t)"
    using I(9) added by (auto simp: deltas) (meson not_le)
  ultimately show ?thesis using I(2,3,4,7) len(2) \<open>keyed t\<close> by (simp add: batch_inv_def app keys)
qed

lemma batch_inv_event:
  assumes inv: "batch_inv s0 s" and settled: "replans_settled s0" and e: "apply_event s e = Inr t"
    and fresh: "about VertexCreated e \<Longrightarrow> the (vertex_id e) \<notin> mkeys (fs_vertices s)"
  shows "batch_inv s0 t"
  using e
proof (cases rule: apply_event_cases)
  case 1
  then show ?thesis using inv by simp
next
  case 2
  have "quiet s (enter e s)" by (rule quiet_same_vertices) simp_all
  from batch_inv_quiet [OF inv this] have inv': "batch_inv s0 (enter e s)" .
  consider "event_type e = VertexCreated" | "event_type e = SubgraphShadowed" | "event_type e = ReplanBoundary"
    | "event_type e \<notin> {VertexCreated, SubgraphShadowed, ReplanBoundary}" by blast
  then show ?thesis
  proof cases
    case 1
    then have t: "t = create e (enter e s)" using 2 by (simp add: dispatch_def)
    show ?thesis
    proof (cases "present (vertex_id e)")
      case True
      then show ?thesis using t batch_inv_create [OF inv' True] fresh 1 by (simp add: about_def)
    qed (use t inv' in \<open>simp add: create_def\<close>)
  next
    case 2
    let ?s = "enter e s"
    let ?h = "hidden_ids e ?s" and ?b = "member (payload e) ''boundary_vertex_id''"
    let ?f = "\<lambda>r. r\<lparr>rp_vertex_ids := new_set (rp_vertex_ids r @ ?h)\<rparr>"
    let ?s1 = "?s\<lparr>fs_vertices := foldl (hide (run_seq e)) (fs_vertices ?s) ?h\<rparr>"
    have t: "t = record_replan e ?b ?f ?s1"
      using \<open>dispatch e ?s = Inr t\<close> 2 by (simp add: dispatch_def shadow_def Let_def)
    obtain i where "fs_replan_deltas t = fs_replan_deltas ?s1 @ [i]" "i < length (replans_of t)"
      "length (replans_of ?s1) \<le> length (replans_of t)"
      "\<And>j. j < length (replans_of ?s1) \<Longrightarrow> j \<noteq> i \<Longrightarrow> replans_of t ! j = replans_of ?s1 ! j"
      "\<And>j. length (replans_of ?s1) \<le> j \<Longrightarrow> j < length (replans_of t) \<Longrightarrow> j = i"
      "set (rp_vertex_ids (replans_of t ! i)) =
         (if i < length (replans_of ?s1) then set (rp_vertex_ids (replans_of ?s1 ! i)) else {}) \<union> set ?h"
      unfolding t by (rule record_replan_marks [of ?f "set ?h" e ?b ?s1]) simp_all
    moreover have "vertex_at t k = (if k \<in> set ?h then map_option (hidden_at (run_seq e)) (vertex_at ?s k) else vertex_at ?s k)" for k
      by (simp add: t hide_all_get)
    ultimately show ?thesis
      by (intro batch_inv_replan [OF inv' settled, of t "set ?h" "run_seq e" i]) (simp_all add: t)
  next
    case 3
    let ?s = "enter e s"
    let ?b = "coalesce (member (payload e) ''boundary_vertex_id'') (js_option (vertex_id e))"
    have t: "t = record_replan e ?b (\<lambda>r. r) ?s"
      using \<open>dispatch e ?s = Inr t\<close> 3 by (simp add: dispatch_def boundary_def)
    obtain i where "fs_replan_deltas t = fs_replan_deltas ?s @ [i]" "i < length (replans_of t)"
      "length (replans_of ?s) \<le> length (replans_of t)"
      "\<And>j. j < length (replans_of ?s) \<Longrightarrow> j \<noteq> i \<Longrightarrow> replans_of t ! j = replans_of ?s ! j"
      "\<And>j. length (replans_of ?s) \<le> j \<Longrightarrow> j < length (replans_of t) \<Longrightarrow> j = i"
      "set (rp_vertex_ids (replans_of t ! i)) =
         (if i < length (replans_of ?s) then set (rp_vertex_ids (replans_of ?s ! i)) else {}) \<union> {}"
      unfolding t by (rule record_replan_marks [of "\<lambda>r. r" "{}" e ?b ?s]) simp_all
    then show ?thesis
      by (intro batch_inv_replan [OF inv' settled, of t "{}" 0 i]) (simp_all add: t)
  next
    case 4
    then show ?thesis using batch_inv_quiet [OF inv' dispatch_quiet] 2 batch_invD(1) [OF inv'] by blast
  qed
qed

lemma batch_inv_fold:
  assumes "batch_inv s0 s" "replans_settled s0" "fold_res apply_event s es = Inr t" "fresh_for es s"
  shows "batch_inv s0 t"
  using assms
proof (induction es arbitrary: s)
  case (Cons e es)
  then obtain u where u: "apply_event s e = Inr u" "fold_res apply_event u es = Inr t"
    by (cases "apply_event s e") (auto simp: bind_res_def)
  note F = fresh_for_Cons [OF Cons.prems(4) u(1)]
  show ?case by (rule Cons.IH [OF batch_inv_event [OF Cons.prems(1,2) u(1) F(1)] Cons.prems(2) u(2) F(2)])
qed simp

section \<open>The console and the planner's surface\<close>

text \<open>Every shadow names vertices that were created before it.\<close>

fun shadows_known :: "string set \<Rightarrow> stored_event list \<Rightarrow> bool" where
  "shadows_known ids [] = True"
| "shadows_known ids (e # es) =
     ((event_type e = SubgraphShadowed \<longrightarrow> set (stringArray (member (payload e) ''vertex_ids'')) \<subseteq> ids) \<and>
      shadows_known (if about VertexCreated e then insert (the (vertex_id e)) ids else ids) es)"

text \<open>The two folds side by side: the same vertices, and marked here exactly when they are to be removed there.\<close>

definition side_by_side :: "surface_state \<Rightarrow> fold_state \<Rightarrow> bool" where
  "side_by_side st s \<longleftrightarrow>
     keyed s \<and> set (snd st) \<subseteq> mkeys (fs_vertices s) \<and>
     (\<forall>k. case vertex_at s k of
            None \<Rightarrow> map_get (fst st) k = None
          | Some v \<Rightarrow> (\<exists>x. map_get (fst st) k = Some x \<and> sx_vertex_id x = k \<and> sx_created_seq x = cv_created_seq v) \<and>
                      (cv_is_shadowed v \<longleftrightarrow> k \<in> set (snd st)))"

lemma side_by_sideD:
  assumes "side_by_side st s"
  shows "keyed s" "set (snd st) \<subseteq> mkeys (fs_vertices s)" "vertex_at s k = None \<Longrightarrow> map_get (fst st) k = None"
    "vertex_at s k = Some v \<Longrightarrow> \<exists>x. map_get (fst st) k = Some x \<and> sx_vertex_id x = k \<and> sx_created_seq x = cv_created_seq v"
    "vertex_at s k = Some v \<Longrightarrow> cv_is_shadowed v \<longleftrightarrow> k \<in> set (snd st)"
proof -
  have "case vertex_at s k of
            None \<Rightarrow> map_get (fst st) k = None
          | Some v \<Rightarrow> (\<exists>x. map_get (fst st) k = Some x \<and> sx_vertex_id x = k \<and> sx_created_seq x = cv_created_seq v) \<and>
                      (cv_is_shadowed v \<longleftrightarrow> k \<in> set (snd st))"
    using assms unfolding side_by_side_def by blast
  then show "vertex_at s k = None \<Longrightarrow> map_get (fst st) k = None"
    "vertex_at s k = Some v \<Longrightarrow> \<exists>x. map_get (fst st) k = Some x \<and> sx_vertex_id x = k \<and> sx_created_seq x = cv_created_seq v"
    "vertex_at s k = Some v \<Longrightarrow> cv_is_shadowed v \<longleftrightarrow> k \<in> set (snd st)" by auto
  show "keyed s" "set (snd st) \<subseteq> mkeys (fs_vertices s)" using assms by (simp_all add: side_by_side_def)
qed

lemma side_by_sideI:
  assumes "keyed s" "set (snd st) \<subseteq> mkeys (fs_vertices s)" "\<And>k. vertex_at s k = None \<Longrightarrow> map_get (fst st) k = None"
    "\<And>k v. vertex_at s k = Some v \<Longrightarrow> \<exists>x. map_get (fst st) k = Some x \<and> sx_vertex_id x = k \<and> sx_created_seq x = cv_created_seq v"
    "\<And>k v. vertex_at s k = Some v \<Longrightarrow> cv_is_shadowed v \<longleftrightarrow> k \<in> set (snd st)"
  shows "side_by_side st s"
proof -
  have "case vertex_at s k of
            None \<Rightarrow> map_get (fst st) k = None
          | Some v \<Rightarrow> (\<exists>x. map_get (fst st) k = Some x \<and> sx_vertex_id x = k \<and> sx_created_seq x = cv_created_seq v) \<and>
                      (cv_is_shadowed v \<longleftrightarrow> k \<in> set (snd st))" for k
    using assms(3-5) [of k] by (cases "vertex_at s k") simp_all
  then show ?thesis using assms(1,2) unfolding side_by_side_def by blast
qed

lemma side_by_side_quiet:
  assumes "side_by_side st s" "quiet s t"
  shows "side_by_side st t"
proof (rule side_by_sideI)
  note S = side_by_sideD [OF assms(1)]
  show "keyed t" by (rule quiet_keyed [OF assms(2) S(1)])
  show "set (snd st) \<subseteq> mkeys (fs_vertices t)" using S(2) mkeys_quiet [OF assms(2)] by simp
  show "map_get (fst st) k = None" if "vertex_at t k = None" for k
    using that S(3) quietD(2) [OF assms(2), of k] by (cases "vertex_at s k") auto
  fix k w assume w: "vertex_at t k = Some w"
  then obtain v where v: "vertex_at s k = Some v" using quietD(1) [OF assms(2), of k] by (cases "vertex_at s k") auto
  have "same_mark v w" using quietD(2) [OF assms(2) v] w by (auto simp: changed_to_def)
  then show "\<exists>x. map_get (fst st) k = Some x \<and> sx_vertex_id x = k \<and> sx_created_seq x = cv_created_seq w"
    "cv_is_shadowed w \<longleftrightarrow> k \<in> set (snd st)"
    using S(4,5) [OF v] by (auto simp: same_mark_def)
qed

lemma lifecycle_side: "side_by_side st s \<Longrightarrow> side_by_side (lifecycle_event e st) s"
proof -
  assume S: "side_by_side st s"
  show ?thesis
  proof (cases "map_get (fst st) (the (vertex_id e))")
    case (Some x)
    have "sx_vertex_id (update_lifecycle e x) = sx_vertex_id x" "sx_created_seq (update_lifecycle e x) = sx_created_seq x"
      by (simp_all add: update_lifecycle_def Let_def)
    then show ?thesis using side_by_sideD [OF S] Some
      by (intro side_by_sideI) (fastforce simp: lifecycle_event_def map_get_map_set)+
  qed (use S in \<open>simp add: lifecycle_event_def\<close>)
qed

lemma values_by_key:
  assumes "distinct (map fst m)" "\<And>k v. map_get m k = Some v \<Longrightarrow> f v = k"
  shows "f ` {v \<in> snd ` set m. P v} = {k. \<exists>v. map_get m k = Some v \<and> P v}"
proof (rule set_eqI, rule iffI)
  fix k assume "k \<in> f ` {v \<in> snd ` set m. P v}"
  then obtain k' v where "(k', v) \<in> set m" "P v" "k = f v" by auto
  then show "k \<in> {k. \<exists>v. map_get m k = Some v \<and> P v}"
    using map_get_distinct [OF assms(1), of k' v] assms(2) [of k' v] by simp
next
  fix k assume "k \<in> {k. \<exists>v. map_get m k = Some v \<and> P v}"
  then obtain v where v: "map_get m k = Some v" "P v" by auto
  then have "v \<in> snd ` set m" using map_get_in_set [OF v(1)] by force
  then show "k \<in> f ` {v \<in> snd ` set m. P v}" using v assms(2) [OF v(1)] by auto
qed

lemma surface_ids: "side_by_side st s \<Longrightarrow> map_get (fst st) k = Some x \<Longrightarrow> sx_vertex_id x = k"
proof -
  assume S: "side_by_side st s" and x: "map_get (fst st) k = Some x"
  obtain v where "vertex_at s k = Some v" using side_by_sideD(3) [OF S, of k] x by (cases "vertex_at s k") simp_all
  from side_by_sideD(4) [OF S this] show ?thesis using x by simp
qed

lemma created_at_by_key:
  assumes "distinct (map fst m)" "\<And>k x. map_get m k = Some x \<Longrightarrow> sx_vertex_id x = k"
  shows "set (vertices_created_at m v) = {k. \<exists>x. map_get m k = Some x \<and> v = num (sx_created_seq x)}"
proof (cases v)
  case (JNum r)
  have "set (vertices_created_at m v) = sx_vertex_id ` {x \<in> snd ` set m. of_nat (sx_created_seq x) = r}"
    by (simp add: vertices_created_at_def JNum)
  then show ?thesis using values_by_key [where f = sx_vertex_id and P = "\<lambda>x. of_nat (sx_created_seq x) = r", OF assms] JNum
    by (simp add: num_def eq_commute)
qed (simp_all add: vertices_created_at_def num_def)

lemma hidden_both:
  assumes S: "side_by_side st s" and seqs: "iterate (member (payload e) ''vertex_seqs'') = Inr seqs"
    and dist: "distinct (map fst (fst st))" "distinct (map fst (fs_vertices s))"
  shows "set (hidden_ids e s) = set (stringArray (member (payload e) ''vertex_ids'')) \<union>
    set (concat (map (vertices_created_at (fst st)) seqs))"
proof -
  let ?bySeq = "case member (payload e) ''vertex_seqs'' of JArr xs \<Rightarrow> xs | _ \<Rightarrow> []"
  have bySeq: "num n \<in> set ?bySeq \<longleftrightarrow> num n \<in> set seqs" for n
    using seqs by (cases "member (payload e) ''vertex_seqs''") (auto simp: iterate_def num_def)
  have "cv_vertex_id ` {v \<in> snd ` set (fs_vertices s). num (cv_created_seq v) \<in> set ?bySeq} =
      {k. \<exists>v. vertex_at s k = Some v \<and> num (cv_created_seq v) \<in> set seqs}"
    unfolding bySeq by (rule values_by_key [OF dist(2)]) (use side_by_sideD(1) [OF S] in \<open>simp add: keyed_def\<close>)
  also have "\<dots> = {k. \<exists>x. map_get (fst st) k = Some x \<and> num (sx_created_seq x) \<in> set seqs}"
  proof (rule Collect_cong)
    fix k
    show "(\<exists>v. vertex_at s k = Some v \<and> num (cv_created_seq v) \<in> set seqs) \<longleftrightarrow>
        (\<exists>x. map_get (fst st) k = Some x \<and> num (sx_created_seq x) \<in> set seqs)"
    proof (cases "vertex_at s k")
      case None
      then show ?thesis using side_by_sideD(3) [OF S None] by simp
    next
      case (Some v)
      then show ?thesis using side_by_sideD(4) [OF S Some] by auto
    qed
  qed
  also have "\<dots> = set (concat (map (vertices_created_at (fst st)) seqs))"
    using created_at_by_key [OF dist(1) surface_ids [OF S]] by (simp add: set_concat) blast
  finally show ?thesis by (simp add: hidden_ids_def Let_def)
qed

lemma side_by_side_vertices: "side_by_side st s \<Longrightarrow> fs_vertices t = fs_vertices s \<Longrightarrow> side_by_side st t"
  by (simp add: side_by_side_def keyed_def)

lemma create_side:
  assumes S: "side_by_side st s" and v: "present (vertex_id e)" and fresh: "the (vertex_id e) \<notin> mkeys (fs_vertices s)"
  shows "side_by_side (map_set (the (vertex_id e)) (created_vertex e) (fst st), snd st) (create e s)"
proof (rule side_by_sideI)
  note C = create_marks(1) [OF v, of s] and D = side_by_sideD [OF S]
  have new: "cv_vertex_id (console_vertex_of e s) = the (vertex_id e)" "cv_created_seq (console_vertex_of e s) = run_seq e"
    "\<not> cv_is_shadowed (console_vertex_of e s)" by (simp_all add: console_vertex_of_def Let_def)
  show "keyed (create e s)" using D(1) by (auto simp: keyed_def C new)
  have "mkeys (fs_vertices s) \<subseteq> mkeys (fs_vertices (create e s))"
  proof
    fix k assume "k \<in> mkeys (fs_vertices s)"
    then show "k \<in> mkeys (fs_vertices (create e s))"
      using C [of k] map_get_mkeys [of "fs_vertices s" k] map_get_mkeys [of "fs_vertices (create e s)" k]
      by (cases "k = the (vertex_id e)") auto
  qed
  then show "set (snd (map_set (the (vertex_id e)) (created_vertex e) (fst st), snd st)) \<subseteq> mkeys (fs_vertices (create e s))"
    using D(2) by auto
  show "map_get (fst (map_set (the (vertex_id e)) (created_vertex e) (fst st), snd st)) k = None"
    if "vertex_at (create e s) k = None" for k
    using that D(3) by (auto simp: C map_get_map_set split: if_splits)
  fix k w assume w: "vertex_at (create e s) k = Some w"
  show "\<exists>x. map_get (fst (map_set (the (vertex_id e)) (created_vertex e) (fst st), snd st)) k = Some x \<and>
      sx_vertex_id x = k \<and> sx_created_seq x = cv_created_seq w"
    using w D(4) by (cases "k = the (vertex_id e)") (auto simp: C map_get_map_set created_vertex_def new)
  show "cv_is_shadowed w \<longleftrightarrow> k \<in> set (snd (map_set (the (vertex_id e)) (created_vertex e) (fst st), snd st))"
    using w D(2) D(5) fresh by (cases "k = the (vertex_id e)") (auto simp: C new)
qed

lemma shadow_side:
  assumes S: "side_by_side st s" and e: "shadow_event e st = Inr st'"
    and dist: "distinct (map fst (fst st))" "distinct (map fst (fs_vertices s))"
    and known: "set (stringArray (member (payload e) ''vertex_ids'')) \<subseteq> mkeys (fs_vertices s)"
  shows "side_by_side st' (shadow e s)"
proof -
  note D = side_by_sideD [OF S]
  obtain seqs where seqs: "iterate (member (payload e) ''vertex_seqs'') = Inr seqs"
    using e by (auto simp: shadow_event_def bind_res_Inr)
  have st': "fst st' = fst st" "set (snd st') = set (snd st) \<union> set (hidden_ids e s)"
    using e hidden_both [OF S seqs dist] seqs by (auto simp: shadow_event_def bind_res_Inr)
  have get: "vertex_at (shadow e s) k =
      (if k \<in> set (hidden_ids e s) then map_option (hidden_at (run_seq e)) (vertex_at s k) else vertex_at s k)" for k
    by (simp add: shadow_def Let_def hide_all_get)
  have "set (concat (map (vertices_created_at (fst st)) seqs)) \<subseteq> mkeys (fs_vertices s)"
  proof
    fix k assume "k \<in> set (concat (map (vertices_created_at (fst st)) seqs))"
    then obtain x where "map_get (fst st) k = Some x"
      using created_at_by_key [OF dist(1) surface_ids [OF S]] by auto
    then show "k \<in> mkeys (fs_vertices s)" using D(3) [of k] map_get_mkeys [of "fs_vertices s" k] by auto
  qed
  then have sub: "set (hidden_ids e s) \<subseteq> mkeys (fs_vertices s)" using hidden_both [OF S seqs dist] known by simp
  have keys: "k \<in> mkeys (fs_vertices (shadow e s)) \<longleftrightarrow> k \<in> mkeys (fs_vertices s)" for k
    using get [of k] map_get_mkeys [of "fs_vertices s" k] map_get_mkeys [of "fs_vertices (shadow e s)" k]
    by (cases "vertex_at s k") (auto split: if_splits)
  show ?thesis
  proof (rule side_by_sideI)
    show "keyed (shadow e s)" using D(1) by (auto simp: keyed_def get hidden_at_def split: if_splits)
    show "set (snd st') \<subseteq> mkeys (fs_vertices (shadow e s))" using D(2) sub keys st'(2) by auto
    show "map_get (fst st') k = None" if "vertex_at (shadow e s) k = None" for k
      using that D(3) by (auto simp: get st'(1) split: if_splits)
    fix k w assume w: "vertex_at (shadow e s) k = Some w"
    then obtain v where v: "vertex_at s k = Some v" "w = (if k \<in> set (hidden_ids e s) then hidden_at (run_seq e) v else v)"
      by (auto simp: get split: if_splits)
    show "\<exists>x. map_get (fst st') k = Some x \<and> sx_vertex_id x = k \<and> sx_created_seq x = cv_created_seq w"
      using D(4) [OF v(1)] v(2) st'(1) by (simp add: hidden_at_def)
    show "cv_is_shadowed w \<longleftrightarrow> k \<in> set (snd st')" using D(5) [OF v(1)] v(2) st'(2) by (simp add: hidden_at_def)
  qed
qed

lemma event_side:
  assumes S: "side_by_side st s" and st': "surface_step st e = Inr st'" and t: "apply_event s e = Inr t"
    and fresh: "about VertexCreated e \<Longrightarrow> the (vertex_id e) \<notin> mkeys (fs_vertices s)"
    and known: "event_type e = SubgraphShadowed \<Longrightarrow> set (stringArray (member (payload e) ''vertex_ids'')) \<subseteq> mkeys (fs_vertices s)"
    and dist: "distinct (map fst (fst st))" "distinct (map fst (fs_vertices s))"
  shows "side_by_side st' t"
  using t
proof (cases rule: apply_event_cases)
  case 1
  then obtain n where "event_type e = OtherEvent n" by (auto simp: known_iff)
  then have "st' = st" using st' by (simp add: surface_step_def about_def is_lifecycle_def bind_res_def)
  then show ?thesis using 1 S by simp
next
  case 2
  have S': "side_by_side st (enter e s)" by (rule side_by_side_vertices [OF S]) simp
  consider "event_type e = VertexCreated" | "event_type e = SubgraphShadowed" | "event_type e = ReplanBoundary"
    | "event_type e \<notin> {VertexCreated, SubgraphShadowed, ReplanBoundary}" by blast
  then show ?thesis
  proof cases
    case 1
    then have t: "t = create e (enter e s)" using 2 by (simp add: dispatch_def)
    have "st' = (if present (vertex_id e) then (map_set (the (vertex_id e)) (created_vertex e) (fst st), snd st) else st)"
      using st' 1 by (auto simp: surface_step_def about_def is_lifecycle_def bind_res_def)
    then show ?thesis using t S' create_side [OF S', of e] fresh 1 by (simp add: about_def create_def)
  next
    case 2
    then have "t = shadow e (enter e s)" using \<open>dispatch e (enter e s) = Inr t\<close> by (simp add: dispatch_def)
    moreover have "shadow_event e st = Inr st'"
      using st' 2 by (cases "shadow_event e st") (auto simp: surface_step_def about_def is_lifecycle_def bind_res_def)
    ultimately show ?thesis using shadow_side [OF S'] dist known 2 by simp
  next
    case 3
    then have "fs_vertices t = fs_vertices s" using \<open>dispatch e (enter e s) = Inr t\<close> by (auto simp: dispatch_def boundary_def)
    moreover have "st' = st" using st' 3 by (auto simp: surface_step_def about_def is_lifecycle_def bind_res_def)
    ultimately show ?thesis using side_by_side_vertices [OF S] by simp
  next
    case 4
    have "quiet (enter e s) t" using dispatch_quiet 2 4 side_by_sideD(1) [OF S'] by blast
    then have "side_by_side st t" by (rule side_by_side_quiet [OF S'])
    moreover have "st' = (if present (vertex_id e) \<and> is_lifecycle (event_type e) then lifecycle_event e st else st)"
      using st' 4 by (auto simp: surface_step_def about_def bind_res_def)
    ultimately show ?thesis using lifecycle_side by simp
  qed
qed

lemma surface_step_distinct: "surface_step st e = Inr st' \<Longrightarrow> distinct (map fst (fst st)) \<Longrightarrow> distinct (map fst (fst st'))"
  by (auto simp: surface_step_def Let_def bind_res_Inr shadow_event_def lifecycle_event_def keys_map_set
      split: if_splits option.splits)

lemma fold_side:
  assumes "side_by_side st s" "surface_fold st es = Inr st'" "fold_res apply_event s es = Inr t" "fresh_for es s"
    "shadows_known (mkeys (fs_vertices s)) es" "distinct (map fst (fst st))" "distinct (map fst (fs_vertices s))"
  shows "side_by_side st' t"
  using assms
proof (induction es arbitrary: st s)
  case (Cons e es)
  obtain st1 where st1: "surface_step st e = Inr st1" "surface_fold st1 es = Inr st'"
    using Cons.prems(2) by (auto simp: bind_res_Inr)
  obtain u where u: "apply_event s e = Inr u" "fold_res apply_event u es = Inr t"
    using Cons.prems(3) by (auto simp: bind_res_Inr)
  note F = fresh_for_Cons [OF Cons.prems(4) u(1)]
  have vo: "vertex_order u = vertex_order s @ created_row e" using apply_event_ordered(1) [OF u(1) F(1)] .
  have keys: "mkeys (fs_vertices u) = (if about VertexCreated e then insert (the (vertex_id e)) (mkeys (fs_vertices s)) else mkeys (fs_vertices s))"
    by (auto simp: mkeys_vertex_order vo created_row_def)
  have fst_order: "map fst (fs_vertices x) = map fst (vertex_order x)" for x by (simp add: vertex_order_def case_prod_unfold)
  have "distinct (map fst (fs_vertices u))"
    using Cons.prems(7) F(1) unfolding fst_order vo by (auto simp: created_row_def mkeys_vertex_order)
  moreover have "shadows_known (mkeys (fs_vertices u)) es" using Cons.prems(5) keys by simp
  moreover have "side_by_side st1 u"
    using event_side [OF Cons.prems(1) st1(1) u(1) F(1)] Cons.prems(5,6,7) by simp
  ultimately show ?case
    using Cons.IH [OF _ st1(2) u(2) F(2)] surface_step_distinct [OF st1(1)] Cons.prems(6) by blast
qed simp

section \<open>Properties\<close>

text \<open>C35: The console and the planner's surface disagree about retention and agree about membership: of a log
  in ascending order that creates every vertex once and shadows only vertices it has created, the
  vertices the console shows as active are exactly the vertices of the surface.\<close>

theorem console_surface_agree:
  assumes log: "continues (emptyConsoleDag runId version) es" and shadows: "shadows_known {} es"
    and view: "surface es None = Inr view" and md: "consoleDag es None version = Inr md"
  shows "cv_vertex_id ` {v \<in> set (cd_vertices md). \<not> cv_is_shadowed v} = mkeys (su_vertices view)"
proof -
  let ?r = "case es of [] \<Rightarrow> [] | e # _ \<Rightarrow> run_id e"
  let ?m = "emptyConsoleDag ?r version"
  have inv: "in_log_order ?m" by (simp add: in_log_order_def emptyConsoleDag_def)
  have cont: "continues ?m es" using log by (simp add: continues_def emptyConsoleDag_def)
  obtain t where t: "fold_res apply_event (fold_state_of ?m) es = Inr t" "md = fst (finish t)"
    using md by (auto simp: consoleDag_def advanceConsoleDag_def Let_def bind_res_def split: sum.splits)
  obtain st where st: "surface_fold ([], []) es = Inr st" "su_vertices view = foldl (\<lambda>m v. map_delete v m) (fst st) (snd st)"
    using view by (auto simp: surface_def Let_def bind_res_Inr)
  have start: "fs_vertices (fold_state_of ?m) = []" by (simp add: fold_state_of_def emptyConsoleDag_def new_map_def)
  have "side_by_side ([], []) (fold_state_of ?m)"
    by (rule side_by_sideI) (simp_all add: start keyed_def map_get_def)
  then have S: "side_by_side st t"
    using fold_side [OF _ st(1) t(1) continues_fresh [OF inv cont]] shadows by (simp add: start mkeys_def)
  note F = fold_state_order(1) [OF inv cont t(1)]
  have dist: "distinct (map fst (fs_vertices t))"
    using F by (simp add: state_order_def vertex_order_def comp_def case_prod_unfold)
  have "cv_vertex_id ` {v \<in> set (cd_vertices md). \<not> cv_is_shadowed v} =
      {k. \<exists>v. vertex_at t k = Some v \<and> \<not> cv_is_shadowed v}"
    using values_by_key [OF dist, of cv_vertex_id "\<lambda>v. \<not> cv_is_shadowed v"] side_by_sideD(1) [OF S] restart(2) [OF F] t(2)
    by (simp add: keyed_def)
  also have "\<dots> = {k. map_get (fst st) k \<noteq> None \<and> k \<notin> set (snd st)}"
  proof (rule Collect_cong)
    fix k
    show "(\<exists>v. vertex_at t k = Some v \<and> \<not> cv_is_shadowed v) \<longleftrightarrow> map_get (fst st) k \<noteq> None \<and> k \<notin> set (snd st)"
      using side_by_sideD(3-5) [OF S, of k] by (cases "vertex_at t k") auto
  qed
  also have "\<dots> = mkeys (su_vertices view)"
  proof (rule set_eqI)
    fix k
    show "k \<in> {k. map_get (fst st) k \<noteq> None \<and> k \<notin> set (snd st)} \<longleftrightarrow> k \<in> mkeys (su_vertices view)"
      using map_get_mkeys [of "su_vertices view" k]
      by (cases "map_get (fst st) k") (simp_all add: st(2) map_get_delete_all split: if_splits)
  qed
  finally show ?thesis .
qed

definition wit_shadow_log :: "stored_event list" where
  "wit_shadow_log =
     [wit_event 1 VertexCreated (Some ''v1'') [(''role'', JStr ''planner'')], wit_event 2 VertexCreated (Some ''v2'') [],
      wit_event 3 SubgraphShadowed None [(''vertex_ids'', JArr [JStr ''v1''])]]"

lemma consoleDag_total:
  assumes "\<forall>e\<in>set es. known (event_type e) \<and> readable_freeze e"
  shows "\<exists>md. consoleDag es None version = Inr md"
proof -
  have "\<exists>t. fold_res apply_event s es = Inr t" for s
    using assms by (intro fold_res_total) (simp add: apply_event_total)
  then show ?thesis by (auto simp: consoleDag_def advanceConsoleDag_def Let_def bind_res_def split: sum.splits) (metis sum.simps(4))+
qed

theorem console_surface_agree_witness:
  "\<exists>view md. surface wit_shadow_log None = Inr view \<and> consoleDag wit_shadow_log None CONSOLE_PROJECTOR_VERSION = Inr md \<and>
     mkeys (su_vertices view) = {''v2''} \<and> cv_vertex_id ` {v \<in> set (cd_vertices md). \<not> cv_is_shadowed v} = {''v2''}"
proof -
  have 1: "continues (emptyConsoleDag ''run'' CONSOLE_PROJECTOR_VERSION) wit_shadow_log"
    by (simp add: continues_def emptyConsoleDag_def wit_shadow_log_def wit_event_def about_def)
  have 2: "shadows_known {} wit_shadow_log"
    by (simp add: wit_shadow_log_def wit_event_def about_def stringArray_def List.map_filter_def)
  obtain view where 3: "surface wit_shadow_log None = Inr view" and v: "mkeys (su_vertices view) = {''v2''}"
    by (simp add: surface_def assertReadable_def wit_shadow_log_def wit_event_def known_def EVENT_TYPES_def surface_step_def
        about_def shadow_event_def iterate_def stringArray_def List.map_filter_def is_lifecycle_def bind_res_def Let_def
        map_set_def set_union_def set_add_def map_delete_def mkeys_def)
  have "\<forall>e\<in>set wit_shadow_log. known (event_type e) \<and> readable_freeze e"
    by (simp add: wit_shadow_log_def wit_event_def known_def EVENT_TYPES_def readable_freeze_def)
  then obtain md where 4: "consoleDag wit_shadow_log None CONSOLE_PROJECTOR_VERSION = Inr md"
    using consoleDag_total by blast
  show ?thesis using console_surface_agree [OF 1 2 3 4] 3 4 v by blast
qed

end
