(* ===== verification/Console_Stream.thy ===== *)
theory Console_Stream
  imports Console_Projection Router "HOL-Library.Log_Nat"
begin

text \<open>
  The live feed of a run: the cursor and the resume decision (console/server/src/stream/stream.ts),
  the tailer that polls a run and folds it (tail.ts), what the server sends a subscriber (the stream
  handler of server.ts), and how the browser applies it (console/client/src/stream/applyEvent.ts and
  the subscription of useRunStream.ts).

  A poll is two steps with the read of the store in between, because the tailer awaits the store: the
  flag that keeps polls from overlapping is set by the first and cleared by the second.
\<close>

section \<open>Cursors\<close>

datatype stream_event =
    TopologySnapshot nat nat console_dag_model
  | StreamDelta console_delta
  | OtherStreamEvent nat nat

text \<open>The two numbers every event carries; an event of a type this build does not know carries them too.\<close>

definition stream_position :: "stream_event \<Rightarrow> nat \<times> nat" where
  "stream_position ev =
     (case ev of TopologySnapshot n k _ \<Rightarrow> (n, k) | StreamDelta d \<Rightarrow> (de_at_run_seq d, de_ordinal d) | OtherStreamEvent n k \<Rightarrow> (n, k))"

text \<open>
  A number read from a cursor: the nearest one with a significand of 53 bits, ties to even; one too
  large for a number of the language is infinite.
\<close>

record stream_cursor =
  cu_at_run_seq :: "nat option"
  cu_ordinal :: "nat option"

definition cursorOf :: "stream_event \<Rightarrow> string" where
  "cursorOf ev = nat_str (fst (stream_position ev)) @ ''.'' @ nat_str (snd (stream_position ev))"

definition nearest_number :: "nat \<Rightarrow> nat" where
  "nearest_number n =
     (if n < 2 ^ 53 then n
      else (let k = floorlog 2 n - 53; q = n div 2 ^ k; r = n mod 2 ^ k; half = 2 ^ k div 2
            in (if half < r \<or> (r = half \<and> odd q \<and> 0 < r) then q + 1 else q) * 2 ^ k))"

definition cursor_number :: "string \<Rightarrow> nat option" where
  "cursor_number s =
     (let n = nat_of_str s in if n < 2 ^ 1024 - 2 ^ 970 then Some (nearest_number n) else None)"

definition parseCursor :: "string option \<Rightarrow> stream_cursor option" where
  "parseCursor v =
     (if \<not> present v then None
      else (let s = js_trim (the v); a = takeWhile is_digit s; b = tl (dropWhile is_digit s) in
            if a \<noteq> [] \<and> s = a @ ''.'' @ b \<and> b \<noteq> [] \<and> list_all is_digit b
            then Some \<lparr>cu_at_run_seq = cursor_number a, cu_ordinal = cursor_number b\<rparr> else None))"

definition precedes :: "int \<times> int \<Rightarrow> int \<times> int \<Rightarrow> bool" where
  "precedes p q = (fst p < fst q \<or> (fst p = fst q \<and> snd p < snd q))"

definition delta_position :: "console_delta \<Rightarrow> int \<times> int" where
  "delta_position d = (int (de_at_run_seq d), int (de_ordinal d))"

section \<open>The buffer of recent deltas\<close>

record delta_buffer =
  bu_capacity :: nat
  bu_deltas :: "console_delta list"
  bu_evicted :: bool

definition new_buffer :: "nat \<Rightarrow> delta_buffer" where
  "new_buffer capacity = \<lparr>bu_capacity = capacity, bu_deltas = [], bu_evicted = False\<rparr>"

definition buffer_push :: "console_delta list \<Rightarrow> delta_buffer \<Rightarrow> delta_buffer" where
  "buffer_push ds b =
     (let all = bu_deltas b @ ds in
      if length all \<le> bu_capacity b then b\<lparr>bu_deltas := all\<rparr>
      else b\<lparr>bu_deltas := drop (length all - bu_capacity b) all, bu_evicted := True\<rparr>)"

datatype resume_refusal = FirstConnect | MalformedCursor | BelowBuffer | AheadOfWatermark

datatype resume_decision = Replay "console_delta list" | SendSnapshot resume_refusal

definition below_floor :: "int \<times> int \<Rightarrow> delta_buffer \<Rightarrow> bool" where
  "below_floor cursor b =
     (case bu_deltas b of
        [] \<Rightarrow> True
      | lowest # _ \<Rightarrow> precedes cursor (int (de_at_run_seq lowest), int (de_ordinal lowest) - 1))"

definition resolveResume :: "stream_cursor option \<Rightarrow> delta_buffer \<Rightarrow> nat \<Rightarrow> resume_decision" where
  "resolveResume cursor b watermark =
     (case cursor of
        None \<Rightarrow> SendSnapshot FirstConnect
      | Some c \<Rightarrow>
          (case (cu_at_run_seq c, cu_ordinal c) of
             (Some n, Some k) \<Rightarrow>
               if watermark < n then SendSnapshot AheadOfWatermark
               else if bu_evicted b \<and> below_floor (int n, int k) b then SendSnapshot BelowBuffer
               else Replay (filter (\<lambda>d. precedes (int n, int k) (delta_position d)) (bu_deltas b))
           | _ \<Rightarrow> SendSnapshot MalformedCursor))"

section \<open>The tailer\<close>

record run_tailer =
  ta_run_id :: string
  ta_buffer :: delta_buffer
  ta_model :: console_dag_model
  ta_quiet_polls :: nat
  ta_polling :: bool

definition new_tailer :: "string \<Rightarrow> nat \<Rightarrow> run_tailer" where
  "new_tailer runId bufferSize =
     \<lparr>ta_run_id = runId, ta_buffer = new_buffer bufferSize, ta_model = emptyConsoleDag runId CONSOLE_PROJECTOR_VERSION,
      ta_quiet_polls = 0, ta_polling = False\<rparr>"

text \<open>
  A poll that finds another one under way returns at once.  One that does not asks the source for the
  events behind the watermark, and the second step folds them: the deltas are what the listeners get.
\<close>

definition poll_start :: "run_tailer \<Rightarrow> (nat \<times> run_tailer) option" where
  "poll_start t = (if ta_polling t then None else Some (cd_at_run_seq (ta_model t), t\<lparr>ta_polling := True\<rparr>))"

definition poll_finish :: "stored_event list \<Rightarrow> run_tailer \<Rightarrow> console_delta list res \<times> run_tailer" where
  "poll_finish events t =
     (if events = [] then (Inr [], t\<lparr>ta_quiet_polls := ta_quiet_polls t + 1, ta_polling := False\<rparr>)
      else (case advanceConsoleDag (ta_model t) events of
              Inl err \<Rightarrow> (Inl err, t\<lparr>ta_quiet_polls := 0, ta_polling := False\<rparr>)
            | Inr (md, ds) \<Rightarrow>
                (Inr ds, t\<lparr>ta_quiet_polls := 0, ta_polling := False, ta_model := md,
                           ta_buffer := (if ds = [] then ta_buffer t else buffer_push ds (ta_buffer t))\<rparr>)))"

definition poll_source :: "database \<Rightarrow> nat \<Rightarrow> string \<Rightarrow> nat \<Rightarrow> stored_event list" where
  "poll_source db batchSize runId after = readStreamAfter db runId after batchSize"

text \<open>A whole poll against one state of the store.\<close>

definition pollOnce :: "database \<Rightarrow> nat \<Rightarrow> run_tailer \<Rightarrow> console_delta list res \<times> run_tailer" where
  "pollOnce db batchSize t =
     (case poll_start t of
        None \<Rightarrow> (Inr [], t)
      | Some (after, t') \<Rightarrow> poll_finish (poll_source db batchSize (ta_run_id t) after) t')"

definition next_interval :: "nat \<Rightarrow> nat \<Rightarrow> nat \<Rightarrow> run_tailer \<Rightarrow> nat" where
  "next_interval active idle idleAfter t = (if idleAfter \<le> ta_quiet_polls t then idle else active)"

type_synonym tailer_registry = "(string, run_tailer) js_map"

definition tailer_for :: "nat \<Rightarrow> string \<Rightarrow> tailer_registry \<Rightarrow> run_tailer \<times> tailer_registry" where
  "tailer_for bufferSize runId ts =
     (case map_get ts runId of
        Some t \<Rightarrow> (t, ts)
      | None \<Rightarrow> (let t = new_tailer runId bufferSize in (t, map_set runId t ts)))"

section \<open>What a subscriber is sent\<close>

datatype stream_answer = NoSuchRun | Streaming "stream_event list"

definition snapshotOf :: "console_dag_model \<Rightarrow> stream_event" where
  "snapshotOf md = TopologySnapshot (cd_at_run_seq md) 0 md"

text \<open>The first frames of a subscription, after \<open>prime\<close>: a replay or a snapshot.\<close>

definition open_stream :: "run_tailer \<Rightarrow> string option \<Rightarrow> stream_answer" where
  "open_stream t lastEventId =
     (if cd_at_run_seq (ta_model t) = 0 then NoSuchRun
      else (case resolveResume (parseCursor lastEventId) (ta_buffer t) (cd_at_run_seq (ta_model t)) of
              Replay ds \<Rightarrow> Streaming (map StreamDelta ds)
            | SendSnapshot _ \<Rightarrow> Streaming [snapshotOf (ta_model t)]))"

definition serveStream :: "database \<Rightarrow> nat \<Rightarrow> run_tailer \<Rightarrow> string option \<Rightarrow> stream_answer res \<times> run_tailer" where
  "serveStream db batchSize t lastEventId =
     (case pollOnce db batchSize t of
        (Inl err, t') \<Rightarrow> (Inl err, t')
      | (Inr _, t') \<Rightarrow> (Inr (open_stream t' lastEventId), t'))"

section \<open>The client\<close>

record client_model =
  cl_model :: console_dag_model
  cl_byId :: "(string, console_vertex) js_map"
  cl_ordinal :: nat

definition clientModel :: "console_dag_model \<Rightarrow> nat \<Rightarrow> client_model" where
  "clientModel md k =
     \<lparr>cl_model = md, cl_byId = new_map (map (\<lambda>v. (cv_vertex_id v, v)) (cd_vertices md)), cl_ordinal = k\<rparr>"

datatype resync_reason = DeltaBeforeSnapshot | RunMismatch | UnknownVertex | UnknownEventType

datatype apply_outcome = Applied client_model | BehindWatermark | Resync resync_reason

definition applied :: "client_model \<Rightarrow> console_delta \<Rightarrow> (console_dag_model \<Rightarrow> console_dag_model) \<Rightarrow> apply_outcome" where
  "applied current d changes =
     Applied (clientModel ((changes (cl_model current))\<lparr>cd_spend := de_spend d, cd_at_run_seq := de_at_run_seq d\<rparr>) (de_ordinal d))"

definition behind_watermark :: "client_model \<Rightarrow> nat \<times> nat \<Rightarrow> bool" where
  "behind_watermark current p =
     (fst p < cd_at_run_seq (cl_model current) \<or> (fst p = cd_at_run_seq (cl_model current) \<and> snd p \<le> cl_ordinal current))"

definition mark_shadowed :: "console_replan \<Rightarrow> console_vertex \<Rightarrow> console_vertex" where
  "mark_shadowed r v =
     (if cv_vertex_id v \<in> set (rp_vertex_ids r)
      then v\<lparr>cv_is_shadowed := True, cv_shadowed_at_seq := Some (rp_at_run_seq r)\<rparr> else v)"

definition replace_vertex :: "console_vertex \<Rightarrow> console_vertex \<Rightarrow> console_vertex" where
  "replace_vertex w v = (if cv_vertex_id v = cv_vertex_id w then w else v)"

definition applyDelta :: "client_model \<Rightarrow> console_delta \<Rightarrow> apply_outcome" where
  "applyDelta current d =
     (case de_body d of
        SubgraphAppended vs cs \<Rightarrow>
          applied current d (\<lambda>md. md\<lparr>cd_vertices := cd_vertices md @ vs,
            cd_scopes := filter (\<lambda>c. cs_scope_id c \<notin> set (map cs_scope_id cs)) (cd_scopes md) @ cs\<rparr>)
      | ReplanShadowed r \<Rightarrow>
          if \<not> list_all (map_has (cl_byId current)) (rp_vertex_ids r) then Resync UnknownVertex
          else applied current d (\<lambda>md. md\<lparr>cd_vertices := map (mark_shadowed r) (cd_vertices md),
            cd_replans := filter (\<lambda>x. rp_at_run_seq x \<noteq> rp_at_run_seq r) (cd_replans md) @ [r]\<rparr>)
      | VertexPatched w \<Rightarrow>
          if \<not> map_has (cl_byId current) (cv_vertex_id w) then Resync UnknownVertex
          else applied current d (\<lambda>md. md\<lparr>cd_vertices := map (replace_vertex w) (cd_vertices md)\<rparr>))"

definition applyEvent :: "client_model option \<Rightarrow> stream_event \<Rightarrow> apply_outcome" where
  "applyEvent current ev =
     (case ev of
        TopologySnapshot _ k md \<Rightarrow> Applied (clientModel md k)
      | _ \<Rightarrow>
          (case current of
             None \<Rightarrow> Resync DeltaBeforeSnapshot
           | Some c \<Rightarrow>
               if behind_watermark c (stream_position ev) then BehindWatermark
               else (case ev of StreamDelta d \<Rightarrow> applyDelta c d | _ \<Rightarrow> Resync UnknownEventType)))"

text \<open>
  The subscription: the live model, the number of resyncs and the generation of the connection.  A new
  generation reopens the connection without a cursor and starts from no model.
\<close>

record run_stream =
  st_live :: "client_model option"
  st_resyncs :: nat
  st_generation :: nat

definition onEvent :: "run_stream \<Rightarrow> stream_event \<Rightarrow> run_stream" where
  "onEvent st ev =
     (case applyEvent (st_live st) ev of
        Applied c \<Rightarrow> st\<lparr>st_live := Some c\<rparr>
      | BehindWatermark \<Rightarrow> st
      | Resync _ \<Rightarrow> st\<lparr>st_resyncs := st_resyncs st + 1, st_generation := st_generation st + 1\<rparr>)"

definition reopen :: "run_stream \<Rightarrow> run_stream" where
  "reopen st = st\<lparr>st_live := None\<rparr>"

end
