(* ===== verification/Console_Stream_Spec.thy ===== *)
theory Console_Stream_Spec
  imports Console_Marks Console_Stream Event_Store_Spec
begin

text \<open>
  What the live feed does to a client (console/client/src/stream/applyEvent.ts against the deltas of
  projection.ts): the deltas of a batch, applied one after the other, take a client that shows the
  server's vertices to the vertices of the advanced model, or make it ask for a snapshot.
\<close>

section \<open>What a client shows\<close>

text \<open>A vertex apart from the moment it was shadowed, and the vertices of a list by identifier.\<close>

definition faded :: "console_vertex \<Rightarrow> console_vertex" where
  "faded v = v\<lparr>cv_shadowed_at_seq := None\<rparr>"

definition shown :: "console_vertex list \<Rightarrow> string \<Rightarrow> console_vertex option" where
  "shown vs k = map_option faded (map_of (map (\<lambda>v. (cv_vertex_id v, v)) vs) k)"

lemma faded_id [simp]: "cv_vertex_id (faded v) = cv_vertex_id v"
  by (simp add: faded_def)

lemma shown_simps [simp]:
  "shown [] k = None" "shown (v # vs) k = (if k = cv_vertex_id v then Some (faded v) else shown vs k)"
  by (simp_all add: shown_def)

lemma shown_None: "shown vs k = None \<longleftrightarrow> k \<notin> cv_vertex_id ` set vs"
  by (induction vs) auto

lemma shown_append: "shown (vs @ ws) k = (case shown vs k of None \<Rightarrow> shown ws k | Some v \<Rightarrow> Some v)"
  by (induction vs) simp_all

definition shade :: "console_vertex \<Rightarrow> console_vertex" where
  "shade v = v\<lparr>cv_is_shadowed := True\<rparr>"

lemma mark_shadowed_id [simp]: "cv_vertex_id (mark_shadowed r v) = cv_vertex_id v"
  by (simp add: mark_shadowed_def)

lemma shown_mark:
  "shown (map (mark_shadowed r) vs) k = map_option (\<lambda>v. if k \<in> set (rp_vertex_ids r) then shade v else v) (shown vs k)"
  by (induction vs) (auto simp: mark_shadowed_def faded_def shade_def)

lemma replace_vertex_id [simp]: "cv_vertex_id (replace_vertex w v) = cv_vertex_id v"
  by (simp add: replace_vertex_def)

lemma shown_replace:
  "shown (map (replace_vertex w) vs) k = (if k = cv_vertex_id w \<and> shown vs k \<noteq> None then Some (faded w) else shown vs k)"
  by (induction vs) (auto simp: replace_vertex_def)

lemma shown_in: "distinct (map cv_vertex_id vs) \<Longrightarrow> v \<in> set vs \<Longrightarrow> shown vs (cv_vertex_id v) = Some (faded v)"
  by (induction vs) (auto, metis image_eqI)

section \<open>Delivering a batch\<close>

text \<open>The deltas of a batch one after the other, up to the first resync.\<close>

fun deliver :: "client_model \<Rightarrow> console_delta list \<Rightarrow> apply_outcome" where
  "deliver c [] = Applied c"
| "deliver c (d # ds) =
     (case applyEvent (Some c) (StreamDelta d) of
        Applied c' \<Rightarrow> deliver c' ds
      | BehindWatermark \<Rightarrow> deliver c ds
      | Resync r \<Rightarrow> Resync r)"

text \<open>What the bodies alone do to a list of vertices; none when a body names a vertex that is not there.\<close>

abbreviation ids_of :: "console_vertex list \<Rightarrow> string set" where
  "ids_of vs \<equiv> cv_vertex_id ` set vs"

fun vertices_after :: "console_vertex list \<Rightarrow> delta_body list \<Rightarrow> console_vertex list option" where
  "vertices_after vs [] = Some vs"
| "vertices_after vs (SubgraphAppended ws cs # bs) = vertices_after (vs @ ws) bs"
| "vertices_after vs (ReplanShadowed r # bs) =
     (if set (rp_vertex_ids r) \<subseteq> ids_of vs then vertices_after (map (mark_shadowed r) vs) bs else None)"
| "vertices_after vs (VertexPatched w # bs) =
     (if cv_vertex_id w \<in> ids_of vs then vertices_after (map (replace_vertex w) vs) bs else None)"

definition fenced :: "nat \<Rightarrow> console_spend \<Rightarrow> nat \<Rightarrow> delta_body list \<Rightarrow> console_delta list" where
  "fenced w sp n bs = map (\<lambda>(i, b). \<lparr>de_at_run_seq = w, de_ordinal = i, de_spend = sp, de_body = b\<rparr>) (enumerate n bs)"

lemma fenced_simps [simp]:
  "fenced w sp n [] = []"
  "fenced w sp n (b # bs) = \<lparr>de_at_run_seq = w, de_ordinal = n, de_spend = sp, de_body = b\<rparr> # fenced w sp (Suc n) bs"
  by (simp_all add: fenced_def)

lemma finish_fenced:
  "snd (finish s) = fenced (cd_at_run_seq (fst (finish s))) (cd_spend (fst (finish s))) 0 (delta_bodies s)"
  by (simp add: finish_def fenced_def Let_def)

text \<open>The index of a client is built from its vertices.\<close>

definition indexed :: "client_model \<Rightarrow> bool" where
  "indexed c \<longleftrightarrow> c = clientModel (cl_model c) (cl_ordinal c)"

lemma indexed_clientModel [simp]: "indexed (clientModel md k)"
  by (simp add: indexed_def clientModel_def)

lemma indexed_has: "indexed c \<Longrightarrow> map_has (cl_byId c) k \<longleftrightarrow> k \<in> ids_of (cd_vertices (cl_model c))"
proof -
  assume "indexed c"
  then have "cl_byId c = new_map (map (\<lambda>v. (cv_vertex_id v, v)) (cd_vertices (cl_model c)))"
    unfolding indexed_def clientModel_def by (metis client_model.select_convs(2))
  then show ?thesis by (simp add: map_has_def keys_new_map image_image)
qed

definition ahead :: "client_model \<Rightarrow> nat \<Rightarrow> nat \<Rightarrow> bool" where
  "ahead c w n \<longleftrightarrow> cd_at_run_seq (cl_model c) < w \<or> cd_at_run_seq (cl_model c) = w \<and> cl_ordinal c < n"

lemma deliver_vertices:
  assumes "indexed c" "ahead c w n"
  shows "case vertices_after (cd_vertices (cl_model c)) bs of
      None \<Rightarrow> deliver c (fenced w sp n bs) = Resync UnknownVertex
    | Some vs \<Rightarrow> \<exists>c'. deliver c (fenced w sp n bs) = Applied c' \<and> indexed c' \<and> cd_vertices (cl_model c') = vs \<and>
        (bs = [] \<longrightarrow> c' = c) \<and> (bs \<noteq> [] \<longrightarrow> cd_at_run_seq (cl_model c') = w \<and> cd_spend (cl_model c') = sp)"
  using assms
proof (induction bs arbitrary: c n)
  case Nil
  then show ?case by simp
next
  case (Cons b bs)
  let ?d = "\<lparr>de_at_run_seq = w, de_ordinal = n, de_spend = sp, de_body = b\<rparr>"
  have go: "applyEvent (Some c) (StreamDelta ?d) = applyDelta c ?d"
    using Cons.prems(2) by (auto simp: applyEvent_def behind_watermark_def stream_position_def ahead_def)
  note has = indexed_has [OF Cons.prems(1)]
  show ?case
  proof (cases "vertices_after (cd_vertices (cl_model c)) [b]")
    case None
    then have "applyDelta c ?d = Resync UnknownVertex" "vertices_after (cd_vertices (cl_model c)) (b # bs) = None"
      by (cases b; auto simp: applyDelta_def has list_all_iff split: if_splits)+
    then show ?thesis using go by simp
  next
    case (Some vs)
    have "\<exists>f. applyDelta c ?d = applied c ?d f \<and> cd_vertices (f (cl_model c)) = vs"
    proof (cases b)
      case (ReplanShadowed r)
      then have "set (rp_vertex_ids r) \<subseteq> ids_of (cd_vertices (cl_model c))" "vs = map (mark_shadowed r) (cd_vertices (cl_model c))"
        using Some by (auto split: if_splits)
      then have "list_all (map_has (cl_byId c)) (rp_vertex_ids r)" "vs = map (mark_shadowed r) (cd_vertices (cl_model c))"
        by (auto simp: list_all_iff has)
      then show ?thesis unfolding ReplanShadowed applyDelta_def by simp (rule exI, rule conjI, rule refl, simp)
    next
      case (SubgraphAppended ws cs)
      then show ?thesis using Some unfolding SubgraphAppended applyDelta_def by simp (rule exI, rule conjI, rule refl, simp)
    next
      case (VertexPatched w')
      then have "map_has (cl_byId c) (cv_vertex_id w')" "vs = map (replace_vertex w') (cd_vertices (cl_model c))"
        using Some by (auto simp: has split: if_splits)
      then show ?thesis unfolding VertexPatched applyDelta_def by simp (rule exI, rule conjI, rule refl, simp)
    qed
    then obtain c' where c': "applyDelta c ?d = Applied c'" "indexed c'" "cd_vertices (cl_model c') = vs" "ahead c' w (Suc n)"
      "cd_at_run_seq (cl_model c') = w" "cd_spend (cl_model c') = sp"
      by (auto simp: applied_def ahead_def) (simp add: clientModel_def)
    have "vertices_after (cd_vertices (cl_model c)) (b # bs) = vertices_after vs bs" using Some by (cases b) (auto split: if_splits)
    then show ?thesis using Cons.IH [OF c'(2,4)] c' go by (cases bs) (auto split: option.splits)
  qed
qed

section \<open>The deltas of a batch against its model\<close>

lemma after_shadows:
  "vertices_after vs (map ReplanShadowed rs @ bs) =
     (if (\<Union>r\<in>set rs. set (rp_vertex_ids r)) \<subseteq> ids_of vs then vertices_after (foldl (\<lambda>vs r. map (mark_shadowed r) vs) vs rs) bs
      else None)"
proof (induction rs arbitrary: vs)
  case (Cons r rs)
  have "ids_of (map (mark_shadowed r) vs) = ids_of vs" by (simp add: image_image)
  then show ?case using Cons [of "map (mark_shadowed r) vs"] by auto
qed simp

lemma shade_idem [simp]: "shade (shade v) = shade v"
  by (simp add: shade_def)

lemma shown_shadows:
  "shown (foldl (\<lambda>vs r. map (mark_shadowed r) vs) vs rs) k =
   map_option (\<lambda>v. if k \<in> (\<Union>r\<in>set rs. set (rp_vertex_ids r)) then shade v else v) (shown vs k)"
proof (induction rs arbitrary: vs)
  case Nil
  then show ?case by (cases "shown vs k") simp_all
next
  case (Cons r rs)
  show ?case using Cons [of "map (mark_shadowed r) vs"] by (cases "shown vs k") (auto simp: shown_mark)
qed

lemma ids_shadows: "map cv_vertex_id (foldl (\<lambda>vs r. map (mark_shadowed r) vs) vs rs) = map cv_vertex_id vs"
proof (induction rs arbitrary: vs)
  case (Cons r rs)
  show ?case using Cons [of "map (mark_shadowed r) vs"] by simp
qed simp

lemma after_appends:
  "vertices_after vs (map (\<lambda>x. SubgraphAppended (f x) (g x)) xs @ bs) = vertices_after (vs @ concat (map f xs)) bs"
  by (induction xs arbitrary: vs) simp_all

lemma after_patches:
  assumes "cv_vertex_id ` set ws \<subseteq> ids_of vs"
  shows "vertices_after vs (map VertexPatched ws) = Some (foldl (\<lambda>vs w. map (replace_vertex w) vs) vs ws)"
  using assms
proof (induction ws arbitrary: vs)
  case (Cons w ws)
  have "ids_of (map (replace_vertex w) vs) = ids_of vs" by (simp add: image_image)
  then show ?case using Cons.IH [of "map (replace_vertex w) vs"] Cons.prems by auto
qed simp

lemma ids_patches: "map cv_vertex_id (foldl (\<lambda>vs w. map (replace_vertex w) vs) vs ws) = map cv_vertex_id vs"
proof (induction ws arbitrary: vs)
  case (Cons r rs)
  show ?case using Cons [of "map (replace_vertex r) vs"] by simp
qed simp

lemma shown_patches:
  assumes "\<And>w. w \<in> set ws \<Longrightarrow> f (cv_vertex_id w) = Some w"
  shows "shown (foldl (\<lambda>vs w. map (replace_vertex w) vs) vs ws) k =
    (if k \<in> cv_vertex_id ` set ws \<and> shown vs k \<noteq> None then map_option faded (f k) else shown vs k)"
  using assms
proof (induction ws arbitrary: vs)
  case (Cons w ws)
  have "f (cv_vertex_id w) = Some w" using Cons.prems by simp
  then show ?case using Cons.IH [of "map (replace_vertex w) vs"] Cons.prems by (auto simp: shown_replace)
qed simp

lemma appended_vertices:
  fixes s :: fold_state
  defines "g \<equiv> \<lambda>ids. sort_key cv_created_seq (map (\<lambda>v. the (vertex_at s v)) ids)"
  shows "mset (concat (map (\<lambda>(_, ids). g ids) (sort_key fst (fs_appended s)))) =
    mset (map (\<lambda>v. the (vertex_at s v)) (appended_ids s))"
proof -
  have "mset (concat (map (\<lambda>(_, ids). g ids) xs)) = mset (map (\<lambda>v. the (vertex_at s v)) (concat (map snd xs)))" for xs :: "(nat \<times> string list) list"
    by (induction xs) (auto simp: g_def)
  moreover have "mset (concat (map snd (sort_key fst (fs_appended s)))) = mset (concat (map snd (fs_appended s)))"
    by (metis mset_concat mset_map mset_sort sum_mset_sum_list mset_sort)
  ultimately show ?thesis unfolding appended_ids_def by (metis mset_map)
qed

lemma mset_shown:
  assumes "mset vs = mset ws" "distinct (map cv_vertex_id ws)"
  shows "shown vs k = shown ws k"
proof -
  have d: "distinct (map cv_vertex_id vs)" using assms by (metis mset_eq_imp_distinct_iff mset_map)
  have s: "set vs = set ws" using assms(1) by (rule mset_eq_setD)
  show ?thesis
  proof (cases "shown ws k")
    case None
    then have "k \<notin> ids_of vs" unfolding s using shown_None [of ws k] by blast
    then show ?thesis using None by (simp only: shown_None [of vs, symmetric])
  next
    case (Some v)
    then have "k \<in> ids_of ws" using shown_None [of ws k] by simp
    then obtain w where w: "w \<in> set ws" "k = cv_vertex_id w" by blast
    then have "w \<in> set vs" using s by simp
    then show ?thesis unfolding w(2) by (simp only: shown_in [OF d] shown_in [OF assms(2) w(1)])
  qed
qed

lemma shown_state:
  assumes "keyed s" "distinct (map fst (fs_vertices s))"
  shows "shown (map snd (fs_vertices s)) k = map_option faded (vertex_at s k)"
proof -
  have "\<forall>(k, v)\<in>set (fs_vertices s). cv_vertex_id v = k"
  proof clarify
    fix k v assume "(k, v) \<in> set (fs_vertices s)"
    then have "vertex_at s k = Some v" by (simp add: map_get_distinct [OF assms(2)])
    then show "cv_vertex_id v = k" using assms(1) by (simp add: keyed_def)
  qed
  from map_snd_ids [OF this] show ?thesis by (simp add: shown_def map_get_def)
qed

text \<open>The server's bodies, phase by phase: what the client shows after them.\<close>

lemma appended_shown:
  assumes "keyed t" "distinct (appended_ids t)" "set (appended_ids t) \<subseteq> mkeys (fs_vertices t)"
    "mset A = mset (map (\<lambda>v. the (vertex_at t v)) (appended_ids t))"
  shows "distinct (map cv_vertex_id A)" "ids_of A = set (appended_ids t)"
    "k \<in> set (appended_ids t) \<Longrightarrow> shown A k = map_option faded (vertex_at t k)"
proof -
  let ?B = "map (\<lambda>v. the (vertex_at t v)) (appended_ids t)"
  have get: "vertex_at t k \<noteq> None \<and> cv_vertex_id (the (vertex_at t k)) = k"
    if "k \<in> set (appended_ids t)" for k
  proof -
    from mkeysD [OF subsetD [OF assms(3) that]] obtain v where "vertex_at t k = Some v" ..
    then show ?thesis using assms(1) by (simp add: keyed_def)
  qed
  have B: "map cv_vertex_id ?B = appended_ids t" using get by (auto simp: comp_def intro: map_idI)
  then have d: "distinct (map cv_vertex_id ?B)" using assms(2) by (simp only:)
  have ids: "mset (map cv_vertex_id A) = mset (appended_ids t)" 
    using arg_cong [OF assms(4), of "image_mset cv_vertex_id"] unfolding mset_map [symmetric] B .
  then show "distinct (map cv_vertex_id A)" using assms(2) by (simp only: mset_eq_imp_distinct_iff [OF ids])
  show "ids_of A = set (appended_ids t)" using mset_eq_setD [OF ids] by simp
  assume k: "k \<in> set (appended_ids t)"
  then have "the (vertex_at t k) \<in> set ?B" by simp
  from shown_in [OF d this] have "shown ?B k = Some (faded (the (vertex_at t k)))" by (simp only: conjunct2 [OF get [OF k]])
  also have "\<dots> = map_option faded (vertex_at t k)" using get [OF k] by (cases "vertex_at t k") simp_all
  finally have "shown ?B k = map_option faded (vertex_at t k)" .
  then show "shown A k = map_option faded (vertex_at t k)" by (simp only: mset_shown [OF assms(4) d])
qed

lemma old_shown:
  assumes "old_vertex t k v w" "k \<notin> set (fs_patched t)"
  shows "(if k \<in> replanned t then shade (faded v) else faded v) = faded w"
proof -
  have "unmarked w = unmarked v" "cv_is_shadowed w \<longleftrightarrow> cv_is_shadowed v \<or> k \<in> replanned t"
    using assms by (simp_all add: old_vertex_def)
  then show ?thesis by (cases v; cases w) (auto simp: unmarked_def faded_def shade_def)
qed

lemma patched_ids:
  assumes "keyed t"
  shows "w \<in> set (List.map_filter (vertex_at t) (fs_patched t)) \<Longrightarrow> vertex_at t (cv_vertex_id w) = Some w"
    "vertex_at t k = Some v \<Longrightarrow> k \<in> set (fs_patched t) \<Longrightarrow> k \<in> ids_of (List.map_filter (vertex_at t) (fs_patched t))"
proof -
  show "vertex_at t (cv_vertex_id w) = Some w" if w: "w \<in> set (List.map_filter (vertex_at t) (fs_patched t))"
  proof -
    from w obtain k where "vertex_at t k = Some w" by (auto simp: List.map_filter_def)
    then show ?thesis using assms by (simp add: keyed_def)
  qed
  assume "vertex_at t k = Some v" "k \<in> set (fs_patched t)"
  then have "v \<in> set (List.map_filter (vertex_at t) (fs_patched t))" "k = cv_vertex_id v"
    using assms by (force simp: List.map_filter_def, simp add: keyed_def)
  then show "k \<in> ids_of (List.map_filter (vertex_at t) (fs_patched t))" by blast
qed

lemma bodies_split:
  "delta_bodies t =
     map ReplanShadowed (map (\<lambda>i. replans_of t ! i) (fs_replan_deltas t)) @
     (map (\<lambda>x. SubgraphAppended (sort_key cv_created_seq (map (\<lambda>v. the (vertex_at t v)) (snd x)))
          (List.map_filter (map_get (fs_scopes t)) (new_set (map the (filter present (map (\<lambda>v. tx_scope_id (cv_txn v))
             (sort_key cv_created_seq (map (\<lambda>v. the (vertex_at t v)) (snd x)))))))))
        (sort_key fst (fs_appended t)) @
      map VertexPatched (List.map_filter (vertex_at t) (fs_patched t)))"
  by (simp add: delta_bodies_def appended_body_def case_prod_unfold Let_def comp_def)

definition appended_run :: "fold_state \<Rightarrow> console_vertex list" where
  "appended_run t = concat (map (\<lambda>x. sort_key cv_created_seq (map (\<lambda>v. the (vertex_at t v)) (snd x))) (sort_key fst (fs_appended t)))"

definition marked_run :: "console_vertex list \<Rightarrow> fold_state \<Rightarrow> console_vertex list" where
  "marked_run vs t = foldl (\<lambda>vs r. map (mark_shadowed r) vs) vs (map (\<lambda>i. replans_of t ! i) (fs_replan_deltas t))"

definition patched_run :: "console_vertex list \<Rightarrow> fold_state \<Rightarrow> console_vertex list" where
  "patched_run vs t = foldl (\<lambda>vs w. map (replace_vertex w) vs) vs (List.map_filter (vertex_at t) (fs_patched t))"

lemma runs_ids:
  "map cv_vertex_id (marked_run vs t) = map cv_vertex_id vs" "map cv_vertex_id (patched_run vs t) = map cv_vertex_id vs"
  by (simp_all only: marked_run_def patched_run_def ids_shadows ids_patches)

lemma marked_shown:
  "shown (marked_run vs t) k = map_option (\<lambda>v. if k \<in> replanned t then shade v else v) (shown vs k)"
proof -
  have "(\<Union>r\<in>set (map (\<lambda>i. replans_of t ! i) (fs_replan_deltas t)). set (rp_vertex_ids r)) = replanned t"
    by (simp add: replanned_def)
  then show ?thesis unfolding marked_run_def shown_shadows by (simp only:)
qed

lemma bodies_run:
  assumes "replanned t \<subseteq> ids_of vs" "ids_of (List.map_filter (vertex_at t) (fs_patched t)) \<subseteq> ids_of (marked_run vs t @ appended_run t)"
  shows "vertices_after vs (delta_bodies t) = Some (patched_run (marked_run vs t @ appended_run t) t)"
proof -
  have "(\<Union>r\<in>set (map (\<lambda>i. replans_of t ! i) (fs_replan_deltas t)). set (rp_vertex_ids r)) = replanned t"
    by (simp add: replanned_def)
  then show ?thesis
    unfolding bodies_split after_shadows after_appends
    using assms(1) after_patches [OF assms(2)] by (simp only: if_True marked_run_def appended_run_def patched_run_def)
qed

lemma ids_of_map: "ids_of vs = set (map cv_vertex_id vs)"
  by simp

lemma batch_shown:
  assumes inv: "batch_inv s0 t" and same: "shown vs k = map_option faded (vertex_at s0 k)"
    and A: "ids_of (appended_run t) = set (appended_ids t)"
      "k \<in> set (appended_ids t) \<Longrightarrow> shown (appended_run t) k = map_option faded (vertex_at t k)"
  shows "shown (patched_run (marked_run vs t @ appended_run t) t) k = map_option faded (vertex_at t k)"
proof -
  note I = batch_invD [OF inv]
  let ?ws = "List.map_filter (vertex_at t) (fs_patched t)" and ?vs = "marked_run vs t @ appended_run t"
  have P: "shown (patched_run ?vs t) k =
      (if k \<in> ids_of ?ws \<and> shown ?vs k \<noteq> None then map_option faded (vertex_at t k) else shown ?vs k)"
    unfolding patched_run_def by (rule shown_patches) (rule patched_ids(1) [OF I(1)])
  show ?thesis
  proof (cases "vertex_at s0 k")
    case (Some v)
    obtain w where w: "vertex_at t k = Some w" "old_vertex t k v w" using I(5) [OF Some] by blast
    have S: "shown ?vs k = Some (if k \<in> replanned t then shade (faded v) else faded v)"
      unfolding shown_append marked_shown same Some by simp
    show ?thesis
    proof (cases "k \<in> set (fs_patched t)")
      case True
      then show ?thesis using patched_ids(2) [OF I(1) w(1)] unfolding P S by simp
    next
      case False
      then show ?thesis unfolding P S old_shown [OF w(2) False] w(1) by simp
    qed
  next
    case None
    then have M: "shown ?vs k = shown (appended_run t) k" unfolding shown_append marked_shown same by simp
    show ?thesis
    proof (cases "k \<in> set (appended_ids t)")
      case True
      then show ?thesis unfolding P M A(2) [OF True] by simp
    next
      case False
      then have "shown (appended_run t) k = None" unfolding shown_None A(1) .
      moreover have "vertex_at t k = None" unfolding map_get_mkeys I(3) using None False by (simp add: map_get_mkeys)
      ultimately show ?thesis unfolding P M by simp
    qed
  qed
qed

lemma bodies_shown:
  assumes inv: "batch_inv s0 t" and dist: "distinct (map cv_vertex_id vs)"
    and same: "\<And>k. shown vs k = map_option faded (vertex_at s0 k)" and named: "replanned t \<subseteq> ids_of vs"
  shows "\<exists>ws. vertices_after vs (delta_bodies t) = Some ws \<and> distinct (map cv_vertex_id ws) \<and>
     (\<forall>k. shown ws k = map_option faded (vertex_at t k))"
proof (intro exI conjI allI)
  note I = batch_invD [OF inv]
  let ?A = "appended_run t" and ?M = "marked_run vs t"
  have "mset ?A = mset (map (\<lambda>v. the (vertex_at t v)) (appended_ids t))"
    using appended_vertices [of t] by (simp add: appended_run_def case_prod_unfold)
  moreover have "set (appended_ids t) \<subseteq> mkeys (fs_vertices t)" using I(3) by simp
  ultimately have A: "distinct (map cv_vertex_id ?A)" "ids_of ?A = set (appended_ids t)"
      "k \<in> set (appended_ids t) \<Longrightarrow> shown ?A k = map_option faded (vertex_at t k)" for k
    using appended_shown [OF I(1,2)] by blast+
  have vs: "ids_of vs = mkeys (fs_vertices s0)"
  proof (rule set_eqI)
    fix k
    show "k \<in> ids_of vs \<longleftrightarrow> k \<in> mkeys (fs_vertices s0)"
      using shown_None [of vs k] map_get_mkeys [of "fs_vertices s0" k] unfolding same by (cases "vertex_at s0 k") simp_all
  qed
  have M: "ids_of ?M = mkeys (fs_vertices s0)" unfolding ids_of_map runs_ids(1) using vs by simp
  have ids: "ids_of (?M @ ?A) = mkeys (fs_vertices t)" unfolding set_append image_Un M A(2) I(3) ..
  show "vertices_after vs (delta_bodies t) = Some (patched_run (?M @ ?A) t)"
  proof (rule bodies_run [OF named], unfold ids, rule subsetI)
    fix k assume "k \<in> ids_of (List.map_filter (vertex_at t) (fs_patched t))"
    then have "vertex_at t k \<noteq> None" using patched_ids(1) [OF I(1)] by auto
    then show "k \<in> mkeys (fs_vertices t)" by (simp add: map_get_mkeys)
  qed
  show "distinct (map cv_vertex_id (patched_run (?M @ ?A) t))"
    unfolding runs_ids map_append distinct_append ids_of_map [symmetric] A(2) vs
    using dist A(1) I(4) by (simp only: Int_commute simp_thms)
  fix k
  show "shown (patched_run (?M @ ?A) t) k = map_option faded (vertex_at t k)"
    by (rule batch_shown [OF inv same A(2,3)])
qed

section \<open>A client follows the model\<close>

text \<open>Every vertex a replan of the model names is shown, shadowed.\<close>

definition replans_kept :: "console_dag_model \<Rightarrow> bool" where
  "replans_kept md \<longleftrightarrow>
     (\<forall>r\<in>set (cd_replans md). \<forall>k\<in>set (rp_vertex_ids r). \<exists>v\<in>set (cd_vertices md). cv_vertex_id v = k \<and> cv_is_shadowed v)"

text \<open>The deltas shadow only vertices the model already has.\<close>

definition names_known :: "console_dag_model \<Rightarrow> console_delta list \<Rightarrow> bool" where
  "names_known md ds \<longleftrightarrow>
     (\<forall>d\<in>set ds. case de_body d of ReplanShadowed r \<Rightarrow> set (rp_vertex_ids r) \<subseteq> ids_of (cd_vertices md) | _ \<Rightarrow> True)"

text \<open>A client shows the vertices of the model, each once, and is not ahead of it.\<close>

definition in_step :: "client_model \<Rightarrow> console_dag_model \<Rightarrow> bool" where
  "in_step c md \<longleftrightarrow> indexed c \<and> distinct (map cv_vertex_id (cd_vertices (cl_model c))) \<and>
     (\<forall>k. shown (cd_vertices (cl_model c)) k = shown (cd_vertices md) k) \<and> cd_at_run_seq (cl_model c) \<le> cd_at_run_seq md"

lemma shown_ids: "(\<And>k. shown vs k = shown ws k) \<Longrightarrow> ids_of vs = ids_of ws"
proof (rule set_eqI)
  fix k assume "\<And>k. shown vs k = shown ws k"
  then have "shown vs k = None \<longleftrightarrow> shown ws k = None" by simp
  then show "k \<in> ids_of vs \<longleftrightarrow> k \<in> ids_of ws" unfolding shown_None by blast
qed

lemma fenced_bodies: "de_body ` set (fenced w sp n bs) = set bs"
  by (induction bs arbitrary: n) simp_all

lemma names_replanned: "names_known md (fenced w sp n (delta_bodies t)) \<longleftrightarrow> replanned t \<subseteq> ids_of (cd_vertices md)"
proof -
  let ?P = "\<lambda>b. case b of ReplanShadowed r \<Rightarrow> set (rp_vertex_ids r) \<subseteq> ids_of (cd_vertices md) | _ \<Rightarrow> True"
  have "names_known md (fenced w sp n (delta_bodies t)) \<longleftrightarrow> (\<forall>b\<in>de_body ` set (fenced w sp n (delta_bodies t)). ?P b)"
    by (simp add: names_known_def)
  also have "\<dots> \<longleftrightarrow> (\<forall>b\<in>set (delta_bodies t). ?P b)" unfolding fenced_bodies ..
  also have "\<dots> \<longleftrightarrow> replanned t \<subseteq> ids_of (cd_vertices md)"
    unfolding bodies_split by (simp add: ball_Un replanned_def UN_subset_iff)
  finally show ?thesis .
qed

text \<open>The state a batch starts from.\<close>

lemma start_vertices:
  assumes "in_log_order md"
  shows "cd_vertices md = map snd (fs_vertices (fold_state_of md))" "distinct (map fst (fs_vertices (fold_state_of md)))"
    "keyed (fold_state_of md)"
proof -
  have m: "fs_vertices (fold_state_of md) = map (\<lambda>v. (cv_vertex_id v, v)) (cd_vertices md)"
    using assms by (simp add: in_log_order_def fold_state_of_def new_map_ids)
  show "cd_vertices md = map snd (fs_vertices (fold_state_of md))" by (simp add: m comp_def)
  show d: "distinct (map fst (fs_vertices (fold_state_of md)))" using assms by (simp add: m comp_def in_log_order_def)
  show "keyed (fold_state_of md)"
    unfolding keyed_def map_get_distinct [OF d, symmetric] by (auto simp: m)
qed

lemma vertices_lookup:
  assumes "vs = map snd (fs_vertices s)" "distinct (map fst (fs_vertices s))" "keyed s"
  shows "(\<exists>v\<in>set vs. cv_vertex_id v = k \<and> P v) \<longleftrightarrow> (\<exists>v. vertex_at s k = Some v \<and> P v)"
proof -
  have "\<And>k v. map_get (fs_vertices s) k = Some v \<Longrightarrow> cv_vertex_id v = k" using assms(3) by (simp add: keyed_def)
  from values_by_key [OF assms(2) this, where P = P]
  have "cv_vertex_id ` {v \<in> snd ` set (fs_vertices s). P v} = {k. \<exists>v. vertex_at s k = Some v \<and> P v}" .
  from arg_cong [OF this, of "\<lambda>A. k \<in> A"] show ?thesis unfolding assms(1) by auto
qed

lemma batch_replans:
  assumes inv: "batch_inv s0 t" and s0: "replans_settled s0" and named: "replanned t \<subseteq> mkeys (fs_vertices s0)"
  shows "replans_settled t"
  unfolding replans_settled_def
proof (intro ballI)
  fix r k assume r: "r \<in> set (replans_of t)" and k: "k \<in> set (rp_vertex_ids r)"
  note I = batch_invD [OF inv]
  obtain j where j: "j < length (replans_of t)" "r = replans_of t ! j" using r by (auto simp: in_set_conv_nth)
  have "\<exists>v. vertex_at s0 k = Some v \<and> (cv_is_shadowed v \<or> k \<in> replanned t)"
  proof (cases "j \<in> set (fs_replan_deltas t)")
    case True
    then have "k \<in> replanned t" using k j(2) by (auto simp: replanned_def)
    then show ?thesis using mkeysD [OF subsetD [OF named \<open>k \<in> replanned t\<close>]] by blast
  next
    case False
    then have l: "j < length (replans_of s0)" using I(9) [OF j(1)] by (meson not_le)
    then have "r \<in> set (replans_of s0)" using I(8) [OF l False] j(2) by simp
    then show ?thesis using s0 k by (auto simp: replans_settled_def)
  qed
  then obtain v where v: "vertex_at s0 k = Some v" "cv_is_shadowed v \<or> k \<in> replanned t" by blast
  obtain w where "vertex_at t k = Some w" "old_vertex t k v w" using I(5) [OF v(1)] by blast
  then show "\<exists>v. vertex_at t k = Some v \<and> cv_is_shadowed v" using v(2) by (simp add: old_vertex_def)
qed

lemma skipped_events:
  "fold_res apply_event s es = Inr t \<Longrightarrow> \<forall>e\<in>set es. \<not> known (event_type e) \<Longrightarrow> t = s"
proof (induction es arbitrary: s)
  case (Cons e es)
  then obtain u where u: "apply_event s e = Inr u" "fold_res apply_event u es = Inr t" by (auto simp: bind_res_Inr)
  from u(1) have "u = s" by (cases rule: apply_event_cases) (use Cons.prems(2) in auto)
  then show ?case using Cons u(2) by simp
qed simp

lemma bodies_need_events:
  assumes "in_log_order md" "continues md es" "fold_res apply_event (fold_state_of md) es = Inr t" "delta_bodies t \<noteq> []"
  shows "cd_at_run_seq md < cd_at_run_seq (fst (finish t))"
proof -
  have none: "delta_bodies (fold_state_of md) = []"
    by (simp add: delta_bodies_def fold_state_of_def)
  obtain e where e: "e \<in> set es" "known (event_type e)"
    using skipped_events [OF assms(3)] none assms(4) by blast
  then have "cd_at_run_seq md < run_seq e" using assms(2) by (simp add: continues_def)
  moreover have "run_seq e \<le> fs_last_seq t"
    using last_seen_ge [OF e] fold_state_order(3) [OF assms(1-3)] by simp
  ultimately show ?thesis by (simp add: finish_watermark)
qed

lemma bodies_in_step:
  assumes order: "in_log_order md" and kept: "replans_kept md" and cont: "continues md es"
    and t: "fold_res apply_event (fold_state_of md) es = Inr t"
    and vs: "distinct (map cv_vertex_id vs)" "\<And>k. shown vs k = shown (cd_vertices md) k"
  shows "replanned t \<subseteq> ids_of (cd_vertices md) \<Longrightarrow>
      replans_kept (fst (finish t)) \<and>
      (\<exists>ws. vertices_after vs (delta_bodies t) = Some ws \<and> distinct (map cv_vertex_id ws) \<and>
         (\<forall>k. shown ws k = shown (cd_vertices (fst (finish t))) k))"
    "\<not> replanned t \<subseteq> ids_of (cd_vertices md) \<Longrightarrow> vertices_after vs (delta_bodies t) = None"
proof -
  let ?s = "fold_state_of md"
  note S = start_vertices [OF order]
  have settled: "replans_settled ?s"
    using kept vertices_lookup [OF S] by (simp add: replans_kept_def replans_settled_def) (simp add: fold_state_of_def)
  have "batch_inv ?s ?s" using S(3) by (rule batch_inv_start) (simp_all add: fold_state_of_def)
  then have inv: "batch_inv ?s t" using settled t continues_fresh [OF order cont] by (rule batch_inv_fold)
  have ids: "ids_of vs = ids_of (cd_vertices md)" using vs(2) by (rule shown_ids)
  have "(\<Union>r\<in>set (map (\<lambda>i. replans_of t ! i) (fs_replan_deltas t)). set (rp_vertex_ids r)) = replanned t"
    by (simp add: replanned_def)
  then show "vertices_after vs (delta_bodies t) = None" if "\<not> replanned t \<subseteq> ids_of (cd_vertices md)"
    unfolding bodies_split after_shadows using that ids by (simp only: if_False)
  assume named: "replanned t \<subseteq> ids_of (cd_vertices md)"
  note F = fold_state_order(1) [OF order cont t]
  have T: "cd_vertices (fst (finish t)) = map snd (fs_vertices t)" "distinct (map fst (fs_vertices t))" "keyed t"
    using restart(2) [OF F] F batch_invD(1) [OF inv] by (simp_all add: state_order_def vertex_order_def comp_def case_prod_unfold)
  have "replans_settled t"
    using batch_replans [OF inv settled] named fold_state_of_orders(3) [OF order] by simp
  then have "replans_kept (fst (finish t))"
    unfolding replans_kept_def vertices_lookup [OF T] by (simp add: replans_settled_def finish_def Let_def)
  moreover have "shown vs k = map_option faded (vertex_at ?s k)" for k
    unfolding vs(2) by (subst S(1)) (rule shown_state [OF S(3,2)])
  then obtain ws where "vertices_after vs (delta_bodies t) = Some ws" "distinct (map cv_vertex_id ws)"
      "\<forall>k. shown ws k = map_option faded (vertex_at t k)"
    using bodies_shown [OF inv vs(1)] named ids by blast
  moreover have "shown (cd_vertices (fst (finish t))) k = map_option faded (vertex_at t k)" for k
    unfolding T(1) by (rule shown_state [OF T(3,2)])
  ultimately show "replans_kept (fst (finish t)) \<and>
      (\<exists>ws. vertices_after vs (delta_bodies t) = Some ws \<and> distinct (map cv_vertex_id ws) \<and>
         (\<forall>k. shown ws k = shown (cd_vertices (fst (finish t))) k))" by simp
qed


lemma empty_start:
  "in_log_order (emptyConsoleDag r v)" "replans_kept (emptyConsoleDag r v)"
  "in_step (clientModel (emptyConsoleDag r v) 0) (emptyConsoleDag r v)"
  by (simp_all add: in_log_order_def emptyConsoleDag_def replans_kept_def in_step_def) (simp_all add: clientModel_def)

lemma advance_total:
  assumes "\<forall>e\<in>set es. known (event_type e) \<and> readable_freeze e"
  shows "\<exists>md' ds. advanceConsoleDag md es = Inr (md', ds)"
proof -
  obtain t where "fold_res apply_event (fold_state_of md) es = Inr t"
    using assms fold_res_total [of es apply_event "fold_state_of md"] by (auto simp: apply_event_total)
  then show ?thesis by (simp add: advanceConsoleDag_def)
qed


end
