(* ===== verification/Console_Tail_Spec.thy ===== *)
theory Console_Tail_Spec
  imports Console_Stream_Spec Event_Store_Spec
begin

text \<open>
  What the server's side of the live feed guarantees (console/server/src/stream): a resume hands over
  exactly the deltas behind its cursor or a snapshot, and a tailer that polls a growing run holds the
  model of the run's prefix up to its watermark.

  A delta is identified by its cursor.  The vertices and replans a buffered delta carries are the
  objects of the model, which later batches update, so a replayed frame shows them as they are then;
  the values here are those of the batch that emitted them.
\<close>

section \<open>Cursors\<close>

lemma is_digit_space: "is_digit c \<Longrightarrow> \<not> is_space c"
  by (auto simp: is_digit_def is_space_def)

lemma trim_digits: "s \<noteq> [] \<Longrightarrow> is_digit (hd s) \<Longrightarrow> is_digit (last s) \<Longrightarrow> js_trim s = s"
proof -
  assume s: "s \<noteq> []" "is_digit (hd s)" "is_digit (last s)"
  then have "dropWhile is_space s = s" "dropWhile is_space (rev s) = rev s"
    by (simp_all add: dropWhile_eq_self_iff is_digit_space hd_rev)
  then show ?thesis by (simp add: js_trim_def trim_end_def)
qed

lemma cursor_bound: "n < 2 ^ 53 \<Longrightarrow> n < (2 ^ 1024 - 2 ^ 970 :: nat)"
proof -
  have "a < b \<Longrightarrow> b \<le> c \<Longrightarrow> d \<le> c \<Longrightarrow> a < 2 * c - d" for a b c d :: nat by linarith
  from this [of n "2 ^ 53" "2 ^ 1023" "2 ^ 970"] have "n < 2 ^ 53 \<Longrightarrow> n < 2 * 2 ^ 1023 - 2 ^ 970"
    using power_increasing [of 53 1023 "2::nat"] power_increasing [of 970 1023 "2::nat"] by fastforce
  moreover have "(2::nat) * 2 ^ 1023 = 2 ^ 1024" by (subst power_Suc [symmetric]) simp
  ultimately show "n < 2 ^ 53 \<Longrightarrow> ?thesis" by metis
qed

lemma cursor_number_nat_str: "n < 2 ^ 53 \<Longrightarrow> cursor_number (nat_str n) = Some n"
  unfolding cursor_number_def nearest_number_def Let_def nat_of_str_nat_str using cursor_bound by (simp only: if_True)

lemma parse_cursorOf:
  assumes "stream_position ev = (n, k)" "n < 2 ^ 53" "k < 2 ^ 53"
  shows "parseCursor (Some (cursorOf ev)) = Some \<lparr>cu_at_run_seq = Some n, cu_ordinal = Some k\<rparr>"
proof -
  let ?s = "nat_str n @ ''.'' @ nat_str k"
  have d: "list_all is_digit (nat_str m)" for m using nat_str_digits by (simp add: list_all_iff)
  have trim: "js_trim ?s = ?s"
    by (rule trim_digits) (use d [of n] d [of k] in \<open>auto simp: list_all_iff last_appendR\<close>)
  have tw: "takeWhile is_digit ?s = nat_str n" "dropWhile is_digit ?s = ''.'' @ nat_str k"
    using d [of n] by (auto simp: list_all_iff takeWhile_append2 dropWhile_append2 is_digit_def)
  have "cursorOf ev = ?s" using assms(1) by (simp add: cursorOf_def)
  then show ?thesis
    using trim tw d [of k] assms(2,3) by (simp add: parseCursor_def present_def nullish_def Let_def cursor_number_nat_str)
qed

section \<open>Resuming\<close>

text \<open>The buffer after a sequence of batches: the tailer pushes a batch that has deltas.\<close>

definition fed :: "nat \<Rightarrow> console_delta list list \<Rightarrow> delta_buffer" where
  "fed capacity batches = foldl (\<lambda>b ds. if ds = [] then b else buffer_push ds b) (new_buffer capacity) batches"

lemma push_window:
  assumes "ds \<noteq> []"
  shows "buffer_push ds \<lparr>bu_capacity = c, bu_deltas = drop (length em - c) em, bu_evicted = (c < length em)\<rparr> =
    \<lparr>bu_capacity = c, bu_deltas = drop (length (em @ ds) - c) (em @ ds), bu_evicted = (c < length (em @ ds))\<rparr>"
proof (cases "length em \<le> c")
  case True
  then show ?thesis by (auto simp: buffer_push_def Let_def)
next
  case False
  then have "0 < length ds" "length em - c \<le> length em" "c < length em" using assms by auto
  moreover from this have "length em + length ds - c = length ds + (length em - c)" by simp
  moreover have "length ds + (length em - c) - length em \<le> length ds" by simp
  ultimately show ?thesis by (simp add: buffer_push_def Let_def add.commute)
qed

lemma fed_window:
  "fed c batches = (let em = concat batches in
     \<lparr>bu_capacity = c, bu_deltas = drop (length em - c) em, bu_evicted = (c < length em)\<rparr>)"
proof (induction batches rule: rev_induct)
  case Nil
  then show ?case by (simp add: fed_def new_buffer_def)
next
  case (snoc ds batches)
  have "fed c (batches @ [ds]) = (if ds = [] then fed c batches else buffer_push ds (fed c batches))"
    by (simp add: fed_def)
  then show ?case unfolding snoc Let_def using push_window [of ds c "concat batches"] by simp
qed

lemma precedes_trans: "precedes p q \<Longrightarrow> precedes q r \<Longrightarrow> precedes p r"
  by (auto simp: precedes_def)

lemma precedes_irrefl [simp]: "\<not> precedes p p"
  by (simp add: precedes_def)

text \<open>Nothing lies between the position just below a delta and the delta itself.\<close>

lemma precedes_below: "precedes (a, b) (c, d) \<Longrightarrow> \<not> precedes (c, d - 1) (a, b)"
  by (auto simp: precedes_def)

definition ascending :: "console_delta list \<Rightarrow> bool" where
  "ascending em \<longleftrightarrow> sorted_wrt (\<lambda>d e. precedes (delta_position d) (delta_position e)) em"

lemma ascending_after:
  assumes "ascending (us @ d # vs)"
  shows "filter (\<lambda>e. precedes (delta_position d) (delta_position e)) (us @ d # vs) = vs"
proof -
  have "\<not> precedes (delta_position d) (delta_position e)" if "e \<in> set us" for e
    using assms that precedes_trans [of "delta_position d" "delta_position e" "delta_position d"]
    by (auto simp: ascending_def sorted_wrt_append)
  moreover have "\<forall>e\<in>set vs. precedes (delta_position d) (delta_position e)"
    using assms by (simp add: ascending_def sorted_wrt_append)
  ultimately show ?thesis by (auto simp: filter_empty_conv filter_id_conv)
qed

text \<open>What was evicted lies behind any cursor that is not below the floor of the buffer.\<close>

lemma evicted_behind:
  assumes asc: "ascending (xs @ ys)" and ys: "\<not> below_floor (delta_position d) \<lparr>bu_capacity = c, bu_deltas = ys, bu_evicted = v\<rparr>"
    and e: "e \<in> set xs"
  shows "\<not> precedes (delta_position d) (delta_position e)"
proof -
  obtain f zs where f: "ys = f # zs" using ys by (cases ys) (simp_all add: below_floor_def)
  then have "precedes (delta_position e) (delta_position f)" using asc e by (auto simp: ascending_def sorted_wrt_append)
  moreover have "\<not> precedes (delta_position d) (int (de_at_run_seq f), int (de_ordinal f) - 1)"
    using ys by (simp add: below_floor_def f)
  ultimately show ?thesis by (auto simp: precedes_def delta_position_def)
qed

text \<open>C38: a subscriber that reconnects with the cursor of a delta it was sent is replayed exactly the
  deltas emitted after that one, in order, however the feed was cut into batches and whatever the
  buffer has evicted; it gets a snapshot instead only when the buffer no longer holds that delta.\<close>

theorem resume_exact:
  assumes emitted: "concat batches = us @ d # vs" "ascending (concat batches)"
    and small: "de_at_run_seq d < 2 ^ 53" "de_ordinal d < 2 ^ 53" and seen: "de_at_run_seq d \<le> watermark"
  shows "resolveResume (parseCursor (Some (cursorOf (StreamDelta d)))) (fed capacity batches) watermark = Replay vs \<or>
    resolveResume (parseCursor (Some (cursorOf (StreamDelta d)))) (fed capacity batches) watermark = SendSnapshot BelowBuffer \<and>
    d \<notin> set (bu_deltas (fed capacity batches))"
proof -
  let ?b = "fed capacity batches"
  define em where "em = us @ d # vs"
  define k where "k = length em - capacity"
  have emitted': "concat batches = em" "ascending em" using emitted by (simp_all add: em_def)
  have b: "?b = \<lparr>bu_capacity = capacity, bu_deltas = drop k em, bu_evicted = (capacity < length em)\<rparr>"
    unfolding fed_window emitted'(1) Let_def k_def ..
  have asc: "ascending (take k em @ drop k em)" using emitted'(2) by simp
  have cur: "parseCursor (Some (cursorOf (StreamDelta d))) =
      Some \<lparr>cu_at_run_seq = Some (de_at_run_seq d), cu_ordinal = Some (de_ordinal d)\<rparr>"
    using small by (intro parse_cursorOf) (simp_all add: stream_position_def)
  let ?f = "below_floor (delta_position d) ?b"
  have R: "resolveResume (parseCursor (Some (cursorOf (StreamDelta d)))) ?b watermark =
      (if capacity < length em \<and> ?f then SendSnapshot BelowBuffer
       else Replay (filter (\<lambda>e. precedes (delta_position d) (delta_position e)) (drop k em)))"
    unfolding cur resolveResume_def using seen by (simp add: b delta_position_def below_floor_def)
  have all: "filter (\<lambda>e. precedes (delta_position d) (delta_position e)) em = vs"
    unfolding em_def using emitted by (intro ascending_after) simp
  show ?thesis
  proof (cases "capacity < length em \<and> ?f")
    case True
    have "d \<notin> set (bu_deltas ?b)" unfolding b delta_buffer.select_convs
    proof
      assume d: "d \<in> set (drop k em)"
      then obtain f zs where f: "drop k em = f # zs" by (cases "drop k em") simp_all
      then have "precedes (delta_position d) (int (de_at_run_seq f), int (de_ordinal f) - 1)"
        using True by (simp add: below_floor_def b)
      moreover have "d = f \<or> precedes (delta_position f) (delta_position d)"
        using asc d f by (auto simp: ascending_def sorted_wrt_append)
      ultimately show False by (auto simp: precedes_def delta_position_def)
    qed
    then show ?thesis using R True by simp
  next
    case False
    have "filter (\<lambda>e. precedes (delta_position d) (delta_position e)) (take k em) = []"
    proof (cases "capacity < length em")
      case True
      then have nf: "\<not> ?f" using False by blast
      show ?thesis unfolding filter_empty_conv using evicted_behind [OF asc nf [unfolded b]] by blast
    qed (simp add: k_def)
    then have "filter (\<lambda>e. precedes (delta_position d) (delta_position e)) (drop k em) = vs"
      using all by (metis append_Nil append_take_drop_id filter_append)
    then show ?thesis using R False by simp
  qed
qed

definition wit_delta :: "nat \<Rightarrow> nat \<Rightarrow> delta_body \<Rightarrow> console_delta" where
  "wit_delta n k b = \<lparr>de_at_run_seq = n, de_ordinal = k, de_spend = cd_spend (emptyConsoleDag ''run'' ''1''), de_body = b\<rparr>"

definition wit_batches :: "console_delta list list" where
  "wit_batches = [[wit_delta 3 0 (SubgraphAppended [] []), wit_delta 3 1 (SubgraphAppended [] [])], [],
     [wit_delta 7 0 (SubgraphAppended [] [])]]"

theorem resume_exact_witness:
  "concat wit_batches = [] @ wit_delta 3 0 (SubgraphAppended [] []) #
     [wit_delta 3 1 (SubgraphAppended [] []), wit_delta 7 0 (SubgraphAppended [] [])] \<and>
   resolveResume (parseCursor (Some (cursorOf (StreamDelta (wit_delta 3 0 (SubgraphAppended [] [])))))) (fed 512 wit_batches) 7 =
     Replay [wit_delta 3 1 (SubgraphAppended [] []), wit_delta 7 0 (SubgraphAppended [] [])]"
proof -
  have 1: "concat wit_batches = [] @ wit_delta 3 0 (SubgraphAppended [] []) #
     [wit_delta 3 1 (SubgraphAppended [] []), wit_delta 7 0 (SubgraphAppended [] [])]" by (simp add: wit_batches_def)
  have 2: "ascending (concat wit_batches)"
    by (simp add: 1 ascending_def precedes_def delta_position_def wit_delta_def)
  have 3: "wit_delta 3 0 (SubgraphAppended [] []) \<in> set (bu_deltas (fed 512 wit_batches))"
    by (simp add: fed_window wit_batches_def Let_def)
  have 4: "de_at_run_seq (wit_delta 3 0 (SubgraphAppended [] [])) < 2 ^ 53" "de_ordinal (wit_delta 3 0 (SubgraphAppended [] [])) < 2 ^ 53"
    "de_at_run_seq (wit_delta 3 0 (SubgraphAppended [] [])) \<le> 7" by (simp_all add: wit_delta_def)
  show ?thesis using resume_exact [OF 1 2 4, of 512] 1 3 by blast
qed

section \<open>Resuming from a snapshot\<close>

lemma resolve_snapshot:
  assumes "cd_at_run_seq md < 2 ^ 53" "\<not> bu_evicted b" "\<forall>d\<in>set (bu_deltas b). de_at_run_seq d \<le> cd_at_run_seq md"
  shows "resolveResume (parseCursor (Some (cursorOf (snapshotOf md)))) b (cd_at_run_seq md) =
    Replay (filter (\<lambda>d. de_at_run_seq d = cd_at_run_seq md \<and> 0 < de_ordinal d) (bu_deltas b))"
proof -
  have "parseCursor (Some (cursorOf (snapshotOf md))) = Some \<lparr>cu_at_run_seq = Some (cd_at_run_seq md), cu_ordinal = Some 0\<rparr>"
    using assms(1) by (intro parse_cursorOf) (simp_all add: stream_position_def snapshotOf_def)
  moreover have "filter (\<lambda>d. precedes (int (cd_at_run_seq md), 0) (delta_position d)) (bu_deltas b) =
      filter (\<lambda>d. de_at_run_seq d = cd_at_run_seq md \<and> 0 < de_ordinal d) (bu_deltas b)"
    using assms(3) by (intro filter_cong) (auto simp: precedes_def delta_position_def)
  ultimately show ?thesis using assms(2) by (simp add: resolveResume_def)
qed

text \<open>C40: a snapshot stands at ordinal 0 of its watermark, so a subscriber that reconnects right after
  one is replayed every further delta of the batch the snapshot already contains; an append among them
  passes the client's fence and its vertices are on the canvas twice.\<close>

theorem snapshot_resume_repeats:
  assumes md: "md = ta_model t" "0 < cd_at_run_seq md" "cd_at_run_seq md < 2 ^ 53"
    and buffer: "\<not> bu_evicted (ta_buffer t)" "\<forall>e\<in>set (bu_deltas (ta_buffer t)). de_at_run_seq e \<le> cd_at_run_seq md"
    and d: "d \<in> set (bu_deltas (ta_buffer t))" "de_at_run_seq d = cd_at_run_seq md" "0 < de_ordinal d"
    and body: "de_body d = SubgraphAppended vs cs" and v: "v \<in> set vs" "v \<in> set (cd_vertices md)"
  shows "\<exists>evs c c'. open_stream t (Some (cursorOf (snapshotOf md))) = Streaming evs \<and> StreamDelta d \<in> set evs \<and>
    applyEvent None (snapshotOf md) = Applied c \<and> applyEvent (Some c) (StreamDelta d) = Applied c' \<and>
    2 \<le> length (filter (\<lambda>x. x = v) (cd_vertices (cl_model c')))"
proof -
  let ?ds = "filter (\<lambda>d. de_at_run_seq d = cd_at_run_seq md \<and> 0 < de_ordinal d) (bu_deltas (ta_buffer t))"
  let ?c = "clientModel md 0"
  have "open_stream t (Some (cursorOf (snapshotOf md))) = Streaming (map StreamDelta ?ds)"
    using resolve_snapshot [OF md(3) buffer] md(2) by (simp add: open_stream_def md(1))
  moreover have "StreamDelta d \<in> set (map StreamDelta ?ds)" using d by simp
  moreover have "applyEvent None (snapshotOf md) = Applied ?c" by (simp add: applyEvent_def snapshotOf_def)
  moreover obtain c' where c': "applyEvent (Some ?c) (StreamDelta d) = Applied c'" "cd_vertices (cl_model c') = cd_vertices md @ vs"
    using d body by (simp add: applyEvent_def behind_watermark_def stream_position_def applyDelta_def applied_def clientModel_def)
  moreover have "1 \<le> length (filter (\<lambda>x. x = v) xs)" if "v \<in> set xs" for xs
    using that by (induction xs) auto
  from this [OF v(1)] this [OF v(2)] have "2 \<le> length (filter (\<lambda>x. x = v) (cd_vertices (cl_model c')))" by (simp add: c'(2))
  ultimately show ?thesis by blast
qed

definition wit_card :: console_vertex where
  "wit_card = console_vertex_of (wit_event 2 VertexCreated (Some ''v1'') []) (fold_state_of (emptyConsoleDag ''run'' ''1''))"

definition wit_tailer :: run_tailer where
  "wit_tailer = (new_tailer ''run'' 512)\<lparr>
     ta_model := (emptyConsoleDag ''run'' ''1'')\<lparr>cd_at_run_seq := 2, cd_vertices := [wit_card]\<rparr>,
     ta_buffer := buffer_push [wit_delta 2 0 (SubgraphAppended [] []), wit_delta 2 1 (SubgraphAppended [wit_card] [])] (new_buffer 512)\<rparr>"

theorem snapshot_resume_repeats_witness:
  "\<exists>evs c c'. open_stream wit_tailer (Some (cursorOf (snapshotOf (ta_model wit_tailer)))) = Streaming evs \<and>
     StreamDelta (wit_delta 2 1 (SubgraphAppended [wit_card] [])) \<in> set evs \<and>
     applyEvent None (snapshotOf (ta_model wit_tailer)) = Applied c \<and>
     applyEvent (Some c) (StreamDelta (wit_delta 2 1 (SubgraphAppended [wit_card] []))) = Applied c' \<and>
     2 \<le> length (filter (\<lambda>x. x = wit_card) (cd_vertices (cl_model c')))"
  by (rule snapshot_resume_repeats [where vs = "[wit_card]" and cs = "[]"])
    (simp_all add: wit_tailer_def new_tailer_def buffer_push_def new_buffer_def wit_delta_def Let_def)

section \<open>A tailer against a growing run\<close>

text \<open>The run through a sequence number.\<close>

definition through :: "nat \<Rightarrow> stored_event list \<Rightarrow> stored_event list" where
  "through n es = filter (\<lambda>e. run_seq e \<le> n) es"

lemma through_split:
  "sorted_wrt (<) (map run_seq es) \<Longrightarrow> through n es @ filter (\<lambda>e. n < run_seq e) es = es"
proof (induction es)
  case (Cons e es)
  show ?case
  proof (cases "run_seq e \<le> n")
    case True
    then show ?thesis using Cons by (simp add: through_def)
  next
    case False
    then have "\<forall>x\<in>set es. n < run_seq x" using Cons.prems by auto
    then have "filter (\<lambda>e. run_seq e \<le> n) es = []" "filter (\<lambda>e. n < run_seq e) es = es"
      by (auto simp: filter_empty_conv filter_id_conv)
    then show ?thesis using False by (simp add: through_def)
  qed
qed (simp add: through_def)

lemma through_all: "\<forall>e\<in>set es. run_seq e \<le> n \<Longrightarrow> through n es = es"
  by (simp add: through_def filter_id_conv)

lemma through_none: "\<forall>e\<in>set es. n < run_seq e \<Longrightarrow> through n es = []"
  by (auto simp: through_def filter_empty_conv)

lemma through_append: "through n (a @ b) = through n a @ through n b"
  by (simp add: through_def)

lemma continues_prefix: "continues md (a @ b) \<Longrightarrow> continues md a"
  by (auto simp: continues_def sorted_wrt_append)

lemma read_batch_Inr: "read_batch md es = Inr md' \<Longrightarrow> \<exists>ds. advanceConsoleDag md es = Inr (md', ds)"
  by (cases "advanceConsoleDag md es") (auto simp: read_batch_def)

text \<open>One poll: a model of the run through its watermark becomes one of the run through the next.\<close>

lemma poll_through:
  assumes log: "in_log_order md0" "continues md0 es"
    and md: "read_batch md0 (through (cd_at_run_seq md) es) = Inr md"
    and batch: "batch = take n (filter (\<lambda>e. cd_at_run_seq md < run_seq e) es)"
  shows "in_log_order md" "continues md batch"
    "advanceConsoleDag md batch = Inr (md', ds) \<Longrightarrow> read_batch md0 (through (cd_at_run_seq md') es) = Inr md'"
proof -
  let ?w = "cd_at_run_seq md"
  define a where "a = through ?w es"
  define rest where "rest = drop n (filter (\<lambda>e. ?w < run_seq e) es)"
  have es: "es = a @ batch @ rest"
    using through_split [of es ?w] log(2) by (simp add: a_def batch rest_def continues_def)
  obtain d0 where adv: "advanceConsoleDag md0 a = Inr (md, d0)" using read_batch_Inr [OF md] by (auto simp: a_def)
  have cont: "continues md0 (a @ batch)" using log(2) continues_prefix [of md0 "a @ batch" rest] by (simp add: es)
  note C = continues_append [OF log(1) cont adv]
  show order: "in_log_order md" by (rule advance_in_order [OF log(1) C(1) adv])
  show mb: "continues md batch" by (rule C(2))
  assume step: "advanceConsoleDag md batch = Inr (md', ds)"
  let ?w' = "cd_at_run_seq md'"
  have w': "?w' = max ?w (last_seen 0 batch)" by (rule advance_watermark(1) [OF order mb step])
  define b1 where "b1 = through ?w' batch"
  define b2 where "b2 = filter (\<lambda>e. ?w' < run_seq e) batch"
  have b: "batch = b1 @ b2" using through_split [of batch ?w'] mb by (simp add: b1_def b2_def continues_def)
  have unknown: "\<forall>e\<in>set b2. \<not> known (event_type e)"
    using last_seen_ge [of _ batch 0] w' by (fastforce simp: b2_def)
  have "through ?w' a = a" using w' by (intro through_all) (auto simp: a_def through_def)
  moreover have "through ?w' rest = []"
  proof (rule through_none, rule ballI)
    fix e assume e: "e \<in> set rest"
    have "?w < run_seq e" using in_set_dropD [OF e [unfolded rest_def]] by simp
    moreover have "\<forall>x\<in>set batch. run_seq x \<le> run_seq e - 1"
      using log(2) e by (fastforce simp: es continues_def sorted_wrt_append)
    then have "last_seen 0 batch \<le> run_seq e - 1" by (rule last_seen_le) simp
    ultimately show "?w' < run_seq e" using w' by simp
  qed
  ultimately have thr: "through ?w' es = a @ b1" by (simp add: es through_append b1_def)
  obtain t where t: "fold_res apply_event (fold_state_of md) batch = Inr t" "md' = fst (finish t)"
    using step by (rule advance_cases)
  then obtain u where u: "fold_res apply_event (fold_state_of md) b1 = Inr u" "fold_res apply_event u b2 = Inr t"
    by (auto simp: b fold_res_append bind_res_Inr)
  have "read_batch md b1 = Inr md'" using u(1) skipped_events [OF u(2) unknown] t(2) by (simp add: read_batch_fold)
  moreover have "continues md0 (a @ b1)" using cont continues_prefix [of md0 "a @ b1" b2] by (simp add: b)
  ultimately show "read_batch md0 (through ?w' es) = Inr md'"
    unfolding thr using read_batch_append [OF log(1), of a b1] md by (simp add: a_def bind_res_def)
qed

text \<open>
  A tailer at work: the run grows, a poll that is not turned away reads behind the watermark, and its
  events are folded later, after the run may have grown further.  The sixth argument is the read a
  poll under way has made, the last one the batches of deltas handed to the listeners.  A batch that
  throws ends the history: the objects its first events changed are shared with the model it leaves.
\<close>

inductive tailing :: "nat \<Rightarrow> nat \<Rightarrow> string \<Rightarrow> database \<Rightarrow> run_tailer \<Rightarrow> stored_event list option \<Rightarrow> console_delta list list \<Rightarrow> bool"
  for batchSize capacity runId where
  tail_new: "tailing batchSize capacity runId db (new_tailer runId capacity) None []"
| tail_grow: "tailing batchSize capacity runId db t p em \<Longrightarrow> readStream db' runId None = readStream db runId None @ es \<Longrightarrow>
    tailing batchSize capacity runId db' t p em"
| tail_read: "tailing batchSize capacity runId db t p em \<Longrightarrow> poll_start t = Some (after, t') \<Longrightarrow>
    tailing batchSize capacity runId db t' (Some (poll_source db batchSize (ta_run_id t) after)) em"
| tail_fold: "tailing batchSize capacity runId db t (Some events) em \<Longrightarrow> poll_finish events t = (Inr ds, t') \<Longrightarrow>
    tailing batchSize capacity runId db t' None (em @ [ds])"

abbreviation watermark_of :: "run_tailer \<Rightarrow> nat" where
  "watermark_of t \<equiv> cd_at_run_seq (ta_model t)"

definition tail_inv :: "nat \<Rightarrow> string \<Rightarrow> stored_event list \<Rightarrow> run_tailer \<Rightarrow> stored_event list option \<Rightarrow> console_delta list list \<Rightarrow> bool" where
  "tail_inv capacity runId es t p em \<longleftrightarrow>
     ta_run_id t = runId \<and> (ta_polling t \<longleftrightarrow> p \<noteq> None) \<and>
     read_batch (emptyConsoleDag runId CONSOLE_PROJECTOR_VERSION) (through (watermark_of t) es) = Inr (ta_model t) \<and>
     (\<forall>events. p = Some events \<longrightarrow> (\<exists>n. events = take n (filter (\<lambda>e. watermark_of t < run_seq e) es))) \<and>
     ta_buffer t = fed capacity em \<and> ascending (concat em) \<and> (\<forall>d\<in>set (concat em). de_at_run_seq d \<le> watermark_of t)"

lemma fed_snoc: "fed c (em @ [ds]) = (if ds = [] then fed c em else buffer_push ds (fed c em))"
  by (simp add: fed_def)

lemma fenced_bounds: "\<forall>d\<in>set (fenced w sp n bs). de_at_run_seq d = w \<and> n \<le> de_ordinal d"
  by (induction bs arbitrary: n) (auto dest: Suc_leD)

lemma fenced_ascending: "ascending (fenced w sp n bs)"
proof (induction bs arbitrary: n)
  case (Cons b bs)
  then show ?case using fenced_bounds [of w sp "Suc n" bs] Cons [of "Suc n"]
    by (simp add: ascending_def precedes_def delta_position_def Suc_le_eq)
qed (simp add: ascending_def)

lemma readStreamAfter_filter:
  "readStreamAfter db k n limit = take limit (filter (\<lambda>e. n < run_seq e) (readStream db k None))"
  by (simp add: readStreamAfter_def readStream_def filter_sort conj_commute)

lemma tail_fold_inv:
  assumes inv: "tail_inv c r es t (Some events) em" and log: "continues (emptyConsoleDag r CONSOLE_PROJECTOR_VERSION) es"
    and fold: "poll_finish events t = (Inr ds, t')"
  shows "tail_inv c r es t' None (em @ [ds])"
proof (cases "events = []")
  case True
  then have "ds = []" "t' = t\<lparr>ta_quiet_polls := ta_quiet_polls t + 1, ta_polling := False\<rparr>"
    using fold by (simp_all add: poll_finish_def)
  then show ?thesis using inv by (simp add: tail_inv_def fed_snoc)
next
  case False
  let ?w = "watermark_of t"
  from fold False obtain md where adv: "advanceConsoleDag (ta_model t) events = Inr (md, ds)"
    and t': "t' = t\<lparr>ta_quiet_polls := 0, ta_polling := False, ta_model := md,
        ta_buffer := (if ds = [] then ta_buffer t else buffer_push ds (ta_buffer t))\<rparr>"
    by (auto simp: poll_finish_def split: sum.splits)
  obtain n where n: "events = take n (filter (\<lambda>e. ?w < run_seq e) es)" using inv by (auto simp: tail_inv_def)
  have M: "read_batch (emptyConsoleDag r CONSOLE_PROJECTOR_VERSION) (through ?w es) = Inr (ta_model t)"
    using inv by (simp add: tail_inv_def)
  note P = poll_through [OF empty_start(1) log M n]
  obtain u where u: "fold_res apply_event (fold_state_of (ta_model t)) events = Inr u" "md = fst (finish u)" "ds = snd (finish u)"
    using adv by (rule advance_cases)
  have ds: "ds = fenced (cd_at_run_seq md) (cd_spend md) 0 (delta_bodies u)" unfolding u(2,3) by (rule finish_fenced)
  have at: "?w \<le> cd_at_run_seq md" using advance_watermark(1) [OF P(1,2) adv] by simp
  have later: "?w < cd_at_run_seq md" if "ds \<noteq> []"
    using that bodies_need_events [OF P(1,2) u(1)] by (cases "delta_bodies u") (simp_all add: ds u(2))
  have old: "ascending (concat em)" "\<forall>d\<in>set (concat em). de_at_run_seq d \<le> ?w" using inv by (simp_all add: tail_inv_def)
  have new: "ascending ds" "\<forall>d\<in>set ds. de_at_run_seq d = cd_at_run_seq md"
    unfolding ds using fenced_ascending fenced_bounds by blast+
  have "precedes (delta_position x) (delta_position y)" if "x \<in> set (concat em)" "y \<in> set ds" for x y
  proof -
    have "de_at_run_seq x < de_at_run_seq y" using old(2) new(2) later that by fastforce
    then show ?thesis by (simp add: precedes_def delta_position_def)
  qed
  then have "ascending (concat em @ ds)" using old(1) new(1) by (simp add: ascending_def sorted_wrt_append)
  moreover have "\<forall>d\<in>set (concat em @ ds). de_at_run_seq d \<le> cd_at_run_seq md"
    using old(2) at new(2) by fastforce
  moreover have "read_batch (emptyConsoleDag r CONSOLE_PROJECTOR_VERSION) (through (cd_at_run_seq md) es) = Inr md"
    by (rule P(3) [OF adv])
  ultimately show ?thesis using inv by (simp add: tail_inv_def t' fed_snoc)
qed

lemma watermark_in_log:
  assumes "continues (emptyConsoleDag r v) (es @ later)" "read_batch (emptyConsoleDag r v) (through n es) = Inr md" "n = cd_at_run_seq md"
  shows "\<forall>e\<in>set later. n < run_seq e"
proof
  fix e assume e: "e \<in> set later"
  obtain ds where adv: "advanceConsoleDag (emptyConsoleDag r v) (through n es) = Inr (md, ds)"
    using read_batch_Inr [OF assms(2)] by blast
  have "es = through n es @ filter (\<lambda>e. n < run_seq e) es"
    using through_split [of es n] continues_prefix [OF assms(1)] by (simp add: continues_def)
  then have "continues (emptyConsoleDag r v) (through n es)"
    using continues_prefix [OF assms(1)] continues_prefix by metis
  from advance_watermark(1) [OF empty_start(1) this adv]
  have "n = last_seen 0 (through n es)" by (simp add: assms(3) emptyConsoleDag_def)
  moreover have "\<forall>x\<in>set es. run_seq x < run_seq e" and pos: "0 < run_seq e"
    using assms(1) e by (auto simp: continues_def sorted_wrt_append emptyConsoleDag_def)
  then have "\<forall>x\<in>set (through n es). run_seq x \<le> run_seq e - 1" by (auto simp: through_def)
  then have "last_seen 0 (through n es) \<le> run_seq e - 1" by (rule last_seen_le) simp
  ultimately show "n < run_seq e" using pos by linarith
qed

lemma tail_inv_grow:
  assumes "tail_inv c r es t p em" "continues (emptyConsoleDag r CONSOLE_PROJECTOR_VERSION) (es @ later)"
  shows "tail_inv c r (es @ later) t p em"
proof -
  have "\<forall>e\<in>set later. watermark_of t < run_seq e"
    using assms(1) by (intro watermark_in_log [OF assms(2)]) (simp_all add: tail_inv_def)
  then have thr: "through (watermark_of t) (es @ later) = through (watermark_of t) es" by (simp add: through_append through_none)
  have pend: "\<exists>n. events = take n (filter (\<lambda>e. watermark_of t < run_seq e) (es @ later))" if ev: "p = Some events" for events
  proof -
    obtain n where "events = take n (filter (\<lambda>e. watermark_of t < run_seq e) es)" using assms(1) ev by (auto simp: tail_inv_def)
    then have "events = take (length events) (filter (\<lambda>e. watermark_of t < run_seq e) (es @ later))" by (auto simp: min_def)
    then show ?thesis by blast
  qed
  show ?thesis unfolding tail_inv_def thr using assms(1) pend by (simp only: tail_inv_def simp_thms) blast
qed

lemma tailing_inv:
  assumes "tailing bs c r db t p em" "continues (emptyConsoleDag r CONSOLE_PROJECTOR_VERSION) (readStream db r None)"
  shows "tail_inv c r (readStream db r None) t p em"
  using assms
proof (induction rule: tailing.induct)
  case (tail_new db)
  have "through 0 (readStream db r None) = []" using tail_new by (intro through_none) (simp add: continues_def emptyConsoleDag_def)
  then show ?case
    using read_nothing [OF empty_start(1) [of r CONSOLE_PROJECTOR_VERSION]]
    by (simp add: tail_inv_def new_tailer_def fed_def ascending_def) (simp add: emptyConsoleDag_def)
next
  case (tail_grow db t p em db' es)
  then show ?case using tail_inv_grow [of c r "readStream db r None" t p em es] continues_prefix by metis
next
  case (tail_read db t p em after t')
  then have "after = watermark_of t" "t' = t\<lparr>ta_polling := True\<rparr>" "ta_run_id t = r"
    by (auto simp: poll_start_def tail_inv_def split: if_splits)
  then show ?case using tail_read.IH [OF tail_read.prems]
    by (auto simp: tail_inv_def poll_source_def readStreamAfter_filter)
next
  case (tail_fold db t events em ds t')
  then show ?case using tail_fold_inv by blast
qed

text \<open>C37: however its polls and the growth of the run interleave, and wherever a read limit cuts the run,
  a tailer that has seen the run holds the console's model of the run through its watermark, which is
  what a historical read at that point answers; its buffer holds the last deltas it emitted, and the
  deltas it emitted are in the ascending order of their cursors.\<close>

theorem tailer_follows_log:
  assumes "tailing batchSize capacity runId db t p em"
    and "continues (emptyConsoleDag runId CONSOLE_PROJECTOR_VERSION) (readStream db runId None)"
  shows "(watermark_of t = 0 \<or>
       consoleDag (readStream db runId None) (Some (watermark_of t)) CONSOLE_PROJECTOR_VERSION = Inr (ta_model t)) \<and>
    ta_buffer t = fed capacity em \<and> ascending (concat em)"
proof (rule conjI)
  have inv: "tail_inv capacity runId (readStream db runId None) t p em" using assms by (rule tailing_inv)
  show "ta_buffer t = fed capacity em \<and> ascending (concat em)" using inv by (simp add: tail_inv_def)
  have M: "read_batch (emptyConsoleDag runId CONSOLE_PROJECTOR_VERSION) (through (watermark_of t) (readStream db runId None)) = Inr (ta_model t)"
    using inv by (simp add: tail_inv_def)
  show "watermark_of t = 0 \<or>
      consoleDag (readStream db runId None) (Some (watermark_of t)) CONSOLE_PROJECTOR_VERSION = Inr (ta_model t)"
  proof (cases "through (watermark_of t) (readStream db runId None)")
    case Nil
    then have "ta_model t = emptyConsoleDag runId CONSOLE_PROJECTOR_VERSION"
      using M read_nothing [OF empty_start(1) [of runId CONSOLE_PROJECTOR_VERSION]] by simp
    then show ?thesis by (simp add: emptyConsoleDag_def)
  next
    case (Cons e es)
    then have "e \<in> set (readStream db runId None)" 
      using set_filter [of "\<lambda>e. run_seq e \<le> watermark_of t" "readStream db runId None"] by (auto simp: through_def)
    then have "run_id e = runId" by (simp add: set_readStream)
    then show ?thesis using M Cons by (simp add: consoleDag_def through_def read_batch_def)
  qed
qed

text \<open>C39: a poll of an idle tailer that reads the run without an error moves the watermark forward when one
  of the events within its read limit is of a known type, and otherwise leaves the model as it was.
  Ignorable events of unknown types do not move the watermark, so a run of them as long as the read
  limit is read again by every later poll and the events behind it are never reached.\<close>

theorem poll_progress:
  assumes tail: "tailing batchSize capacity runId db t None em"
    and log: "continues (emptyConsoleDag runId CONSOLE_PROJECTOR_VERSION) (readStream db runId None)"
    and poll: "pollOnce db batchSize t = (Inr ds, t')"
  shows "if \<exists>e\<in>set (readStreamAfter db runId (watermark_of t) batchSize). known (event_type e)
    then watermark_of t < watermark_of t' else ta_model t' = ta_model t"
proof -
  let ?evs = "readStreamAfter db runId (watermark_of t) batchSize"
  have inv: "tail_inv capacity runId (readStream db runId None) t None em" using tail log by (rule tailing_inv)
  then have r: "ta_run_id t = runId" "\<not> ta_polling t" by (simp_all add: tail_inv_def)
  have fin: "poll_finish ?evs (t\<lparr>ta_polling := True\<rparr>) = (Inr ds, t')"
    using poll r by (simp add: pollOnce_def poll_start_def poll_source_def)
  note P = poll_through [OF empty_start(1) log _ readStreamAfter_filter, of "ta_model t"]
  have M: "read_batch (emptyConsoleDag runId CONSOLE_PROJECTOR_VERSION) (through (watermark_of t) (readStream db runId None)) = Inr (ta_model t)"
    using inv by (simp add: tail_inv_def)
  show ?thesis
  proof (cases "?evs = []")
    case True
    then show ?thesis using fin by (auto simp: poll_finish_def)
  next
    case False
    then obtain md where adv: "advanceConsoleDag (ta_model t) ?evs = Inr (md, ds)" and t': "ta_model t' = md"
      using fin by (auto simp: poll_finish_def split: sum.splits)
    show ?thesis
    proof (cases "\<exists>e\<in>set ?evs. known (event_type e)")
      case True
      then obtain e where e: "e \<in> set ?evs" "known (event_type e)" by blast
      have "watermark_of t < run_seq e" using P(2) [OF M] e(1) by (simp add: continues_def)
      then show ?thesis
        using True last_seen_ge [OF e, of 0] advance_watermark(1) [OF P(1,2) [OF M] adv] by (simp add: t')
    next
      case none: False
      obtain u where u: "fold_res apply_event (fold_state_of (ta_model t)) ?evs = Inr u" "md = fst (finish u)"
        using adv by (rule advance_cases)
      have "md = fst (finish (fold_state_of (ta_model t)))" using skipped_events [OF u(1)] none u(2) by blast
      also have "\<dots> = ta_model t" using read_nothing [OF P(1) [OF M]] by (simp add: read_batch_fold)
      finally show ?thesis using none by (simp add: t')
    qed
  qed
qed

definition wit_feed :: database where
  "wit_feed = (empty_database ''t'')\<lparr>db_log := wit_shadow_log\<rparr>"

lemma wit_feed_stream:
  "readStream wit_feed ''run'' None = wit_shadow_log"
  "continues (emptyConsoleDag ''run'' CONSOLE_PROJECTOR_VERSION) wit_shadow_log"
  "readStreamAfter wit_feed ''run'' 0 512 = wit_shadow_log"
proof -
  show 1: "readStream wit_feed ''run'' None = wit_shadow_log"
    by (simp add: readStream_def wit_feed_def wit_shadow_log_def wit_event_def)
  show "readStreamAfter wit_feed ''run'' 0 512 = wit_shadow_log"
    by (simp add: readStreamAfter_filter 1) (simp add: wit_shadow_log_def wit_event_def)
  show "continues (emptyConsoleDag ''run'' CONSOLE_PROJECTOR_VERSION) wit_shadow_log"
    by (simp add: continues_def emptyConsoleDag_def wit_shadow_log_def wit_event_def about_def)
qed

lemma wit_poll:
  "\<exists>ds t'. pollOnce wit_feed 512 (new_tailer ''run'' 512) = (Inr ds, t') \<and>
     poll_finish wit_shadow_log ((new_tailer ''run'' 512)\<lparr>ta_polling := True\<rparr>) = (Inr ds, t')"
proof -
  let ?t = "(new_tailer ''run'' 512)\<lparr>ta_polling := True\<rparr>"
  have at: "cd_at_run_seq (ta_model (new_tailer ''run'' 512)) = 0" by (simp add: new_tailer_def emptyConsoleDag_def)
  have "\<forall>e\<in>set wit_shadow_log. known (event_type e) \<and> readable_freeze e"
    by (simp add: wit_shadow_log_def wit_event_def known_def EVENT_TYPES_def readable_freeze_def)
  then obtain md ds where "advanceConsoleDag (ta_model ?t) wit_shadow_log = Inr (md, ds)" using advance_total by blast
  then have "\<exists>t'. poll_finish wit_shadow_log ?t = (Inr ds, t')"
    by (simp add: poll_finish_def) (simp add: wit_shadow_log_def)
  then show ?thesis
    using wit_feed_stream(3) by (simp add: pollOnce_def poll_start_def poll_source_def at) (auto simp: new_tailer_def)
qed

lemma known_wit: "\<exists>e\<in>set wit_shadow_log. known (event_type e)"
  by (simp add: wit_shadow_log_def wit_event_def known_def EVENT_TYPES_def)

theorem poll_progress_witness:
  "\<exists>ds t'. pollOnce wit_feed 512 (new_tailer ''run'' 512) = (Inr ds, t') \<and> watermark_of (new_tailer ''run'' 512) < watermark_of t'"
proof -
  obtain ds t' where p: "pollOnce wit_feed 512 (new_tailer ''run'' 512) = (Inr ds, t')" using wit_poll by blast
  have at: "watermark_of (new_tailer ''run'' 512) = 0" by (simp add: new_tailer_def emptyConsoleDag_def)
  have k: "\<exists>e\<in>set (readStreamAfter wit_feed ''run'' (watermark_of (new_tailer ''run'' 512)) 512). known (event_type e)"
    unfolding at wit_feed_stream(3) by (rule known_wit)
  have "watermark_of (new_tailer ''run'' 512) < watermark_of t'"
    using poll_progress [OF tail_new wit_feed_stream(2) [folded wit_feed_stream(1)] p] k by (simp only: if_True)
  then show ?thesis using p by blast
qed

theorem tailer_follows_log_witness:
  "\<exists>ds t'. tailing 512 512 ''run'' wit_feed t' None [ds] \<and>
     (watermark_of t' = 0 \<or> consoleDag wit_shadow_log (Some (watermark_of t')) CONSOLE_PROJECTOR_VERSION = Inr (ta_model t')) \<and>
     ta_buffer t' = fed 512 [ds]"
proof -
  let ?t = "new_tailer ''run'' 512"
  obtain ds t' where p: "poll_finish wit_shadow_log (?t\<lparr>ta_polling := True\<rparr>) = (Inr ds, t')" using wit_poll by blast
  have 0: "tailing 512 512 ''run'' wit_feed ?t None []" by (rule tail_new)
  have 1: "poll_start ?t = Some (0, ?t\<lparr>ta_polling := True\<rparr>)" "ta_run_id ?t = ''run''"
    by (simp_all add: poll_start_def new_tailer_def emptyConsoleDag_def)
  have 2: "tailing 512 512 ''run'' wit_feed (?t\<lparr>ta_polling := True\<rparr>) (Some wit_shadow_log) []"
    using tail_read [OF 0 1(1)] unfolding 1(2) poll_source_def wit_feed_stream(3) .
  have 3: "tailing 512 512 ''run'' wit_feed t' None [ds]" using tail_fold [OF 2 p] by simp
  show ?thesis
    using tailer_follows_log [OF 3 wit_feed_stream(2) [folded wit_feed_stream(1)]] 3 unfolding wit_feed_stream(1) by blast
qed

text \<open>
  A subscriber that arrives while the first poll of a run is under way is told there is no such run:
  its own poll is turned away and the model is still empty.
\<close>

lemma concurrent_subscriber_refused:
  assumes "poll_start (new_tailer runId capacity) = Some (after, t)"
  shows "serveStream db batchSize t lastEventId = (Inr NoSuchRun, t)"
  using assms by (auto simp: poll_start_def serveStream_def pollOnce_def open_stream_def new_tailer_def emptyConsoleDag_def)

end
