(* ===== verification/Spec2Isabelle.thy ===== *)
theory Spec2Isabelle
  imports Event_Log Admission_Spec Workflow_Spec Event_Store_Spec Projection_Spec Recovery_Spec Planner_Spec Console_Tail_Spec
begin

text \<open>
  A verification library of the Flory engine.
\<close>

end
